(* ===== verification/Stouter_Prelude.thy ===== *)
theory Stouter_Prelude
  imports
    Main
    "HOL-Library.Word"
    "HOL-Library.AList"
    "HOL-Library.Char_ord"
    "HOL-Library.List_Lexorder"
begin

text \<open>
  The vocabulary every component shares: the machine integers the program uses, the
  containers of the Rust standard library it keeps its state in, and the small loop and search
  combinators that its iterator chains are made of.

  \<^item> \<open>u8\<close>, \<open>u16\<close>, \<open>u32\<close>, \<open>u64\<close> are words, so that \<open>+\<close> wraps as it does in
    the release profile the daemon is built with.
  \<^item> A \<open>HashMap\<close> whose iteration order is visible is an association list with distinct
    keys: the order of the list stands for the unspecified iteration order, and theorems hold for
    every such list. A \<open>HashMap\<close> that is only looked up is a map.
  \<^item> A \<open>BTreeMap\<close> is an association list in key order.
  \<^item> A \<open>for\<close> loop with \<open>return Err(..)\<close> in its body is \<open>try_fold\<close>.
  \<^item> \<open>iter_mut().find(p)\<close> followed by an assignment is \<open>update_first\<close>.
\<close>

section \<open>Types\<close>

type_synonym u8 = "8 word"
type_synonym u16 = "16 word"
type_synonym u32 = "32 word"
type_synonym u64 = "64 word"
type_synonym bytes = "u8 list"
type_synonym ('k, 'v) hash_map = "('k \<times> 'v) list"
type_synonym string_map = "(string \<times> string) list"

named_theorems loop_simps \<open>characterisations of the loop combinators\<close>
named_theorems keep_intros \<open>operations that keep a well-formedness predicate\<close>

section \<open>Hash maps with a visible iteration order\<close>

abbreviation hm_get :: "('k, 'v) hash_map \<Rightarrow> 'k \<Rightarrow> 'v option" where
  "hm_get m k \<equiv> map_of m k"

abbreviation hm_insert :: "('k, 'v) hash_map \<Rightarrow> 'k \<Rightarrow> 'v \<Rightarrow> ('k, 'v) hash_map" where
  "hm_insert m k v \<equiv> AList.update k v m"

abbreviation hm_remove :: "('k, 'v) hash_map \<Rightarrow> 'k \<Rightarrow> ('k, 'v) hash_map" where
  "hm_remove m k \<equiv> AList.delete k m"

abbreviation hm_values :: "('k, 'v) hash_map \<Rightarrow> 'v list" where
  "hm_values m \<equiv> map snd m"

definition hm_wf :: "('k, 'v) hash_map \<Rightarrow> bool" where
  "hm_wf m \<longleftrightarrow> distinct (map fst m)"

definition hm_retain :: "('k \<Rightarrow> 'v \<Rightarrow> bool) \<Rightarrow> ('k, 'v) hash_map \<Rightarrow> ('k, 'v) hash_map" where
  "hm_retain keep m = filter (\<lambda>(k, v). keep k v) m"

section \<open>Loops and searches\<close>

fun try_fold :: "('s \<Rightarrow> 'a \<Rightarrow> 'e + 's) \<Rightarrow> 's \<Rightarrow> 'a list \<Rightarrow> 'e + 's" where
  "try_fold f s [] = Inr s"
| "try_fold f s (x # xs) = (case f s x of Inl e \<Rightarrow> Inl e | Inr s' \<Rightarrow> try_fold f s' xs)"

fun try_each :: "('a \<Rightarrow> 'e + unit) \<Rightarrow> 'a list \<Rightarrow> 'e + unit" where
  "try_each f [] = Inr ()"
| "try_each f (x # xs) = (case f x of Inl e \<Rightarrow> Inl e | Inr _ \<Rightarrow> try_each f xs)"

definition try_then :: "'e + 'a \<Rightarrow> ('a \<Rightarrow> 'e + 'b) \<Rightarrow> 'e + 'b" where
  "try_then r k = (case r of Inl e \<Rightarrow> Inl e | Inr x \<Rightarrow> k x)"

definition map_err :: "('e \<Rightarrow> 'f) \<Rightarrow> 'e + 'a \<Rightarrow> 'f + 'a" where
  "map_err f r = (case r of Inl e \<Rightarrow> Inl (f e) | Inr x \<Rightarrow> Inr x)"

fun update_first :: "('a \<Rightarrow> bool) \<Rightarrow> ('a \<Rightarrow> 'a) \<Rightarrow> 'a list \<Rightarrow> 'a list" where
  "update_first p f [] = []"
| "update_first p f (x # xs) = (if p x then f x # xs else x # update_first p f xs)"

fun position :: "('a \<Rightarrow> bool) \<Rightarrow> 'a list \<Rightarrow> nat option" where
  "position p [] = None"
| "position p (x # xs) = (if p x then Some 0 else map_option Suc (position p xs))"

definition prefer_keep :: "('a \<Rightarrow> bool) \<Rightarrow> 'a list \<Rightarrow> 'a list" where
  "prefer_keep keep items = (if \<exists>x \<in> set items. keep x then filter keep items else items)"

section \<open>Lemmas on hash maps\<close>

lemma hm_wf_Nil [simp]: "hm_wf []"
  by (simp add: hm_wf_def)

lemma hm_wf_insert [keep_intros, intro]: "hm_wf m \<Longrightarrow> hm_wf (hm_insert m k v)"
  by (simp add: hm_wf_def distinct_update)

lemma hm_wf_remove [keep_intros, intro]: "hm_wf m \<Longrightarrow> hm_wf (hm_remove m k)"
  unfolding hm_wf_def by (rule distinct_delete)

lemma hm_wf_retain [keep_intros, intro]: "hm_wf m \<Longrightarrow> hm_wf (hm_retain keep m)"
  unfolding hm_wf_def hm_retain_def by (induction m) auto

lemma hm_get_insert [simp]: "hm_get (hm_insert m k v) k' = (if k' = k then Some v else hm_get m k')"
  by (simp add: update_conv')

lemma hm_get_remove [simp]: "hm_get (hm_remove m k) k' = (if k' = k then None else hm_get m k')"
  by (simp add: delete_conv')

lemma hm_get_retain:
  assumes "hm_wf m"
  shows "hm_get (hm_retain keep m) k =
    (case hm_get m k of None \<Rightarrow> None | Some v \<Rightarrow> if keep k v then Some v else None)"
  using assms
proof (induction m)
  case (Cons kv m)
  obtain k' v where kv: "kv = (k', v)" by (cases kv)
  have "hm_get m k' = None"
    using Cons.prems by (simp add: kv hm_wf_def map_of_eq_None_iff)
  moreover have "hm_wf m" using Cons.prems by (simp add: hm_wf_def)
  ultimately show ?case
    using Cons.IH by (auto simp: kv hm_retain_def)
qed (simp add: hm_retain_def)

lemma hm_get_in_values: "hm_get m k = Some v \<Longrightarrow> v \<in> set (hm_values m)"
  by (auto dest!: map_of_SomeD intro: rev_image_eqI)

lemma hm_wf_get_iff: "hm_wf m \<Longrightarrow> (k, v) \<in> set m \<longleftrightarrow> hm_get m k = Some v"
  by (auto simp: hm_wf_def dest: map_of_SomeD)

lemma hm_insert_fst_set [simp]: "fst ` set (hm_insert m k v) = insert k (fst ` set m)"
  using dom_update [of k v m] by simp

section \<open>Lemmas on loops\<close>

lemma try_then_Inr [simp]: "try_then (Inr x) k = k x"
  by (simp add: try_then_def)

lemma try_then_Inl [simp]: "try_then (Inl e) k = Inl e"
  by (simp add: try_then_def)

lemma try_then_ok [loop_simps]: "try_then r k = Inr y \<longleftrightarrow> (\<exists>x. r = Inr x \<and> k x = Inr y)"
  by (cases r) auto

lemma map_err_ok [loop_simps, simp]: "map_err f r = Inr x \<longleftrightarrow> r = Inr x"
  by (cases r) (auto simp: map_err_def)

lemma try_each_ok [loop_simps]: "try_each f xs = Inr u \<longleftrightarrow> (\<forall>x \<in> set xs. f x = Inr ())"
  by (induction xs) (auto split: sum.splits)

lemma try_each_append [simp]:
  "try_each f (xs @ ys) = try_then (try_each f xs) (\<lambda>_. try_each f ys)"
  by (induction xs) (auto split: sum.splits)

lemma try_fold_append: "try_fold f s (xs @ ys) = try_then (try_fold f s xs) (\<lambda>s'. try_fold f s' ys)"
  by (induction xs arbitrary: s) (auto split: sum.splits)

text \<open>An invariant of the body is an invariant of the loop.\<close>

lemma try_fold_invariant:
  assumes "try_fold f s xs = Inr t" and "I s"
    and "\<And>s x s'. I s \<Longrightarrow> x \<in> set xs \<Longrightarrow> f s x = Inr s' \<Longrightarrow> I s'"
  shows "I t"
  using assms
proof (induction xs arbitrary: s)
  case (Cons x xs)
  from Cons.prems(1) obtain s' where s': "f s x = Inr s'" "try_fold f s' xs = Inr t"
    by (auto split: sum.splits)
  have "I s'" using Cons.prems(2,3) s'(1) by (meson list.set_intros(1))
  with s'(2) show ?case by (rule Cons.IH) (meson Cons.prems(3) list.set_intros(2))
qed simp

section \<open>Lemmas on searches\<close>

lemma set_map_filter: "set (List.map_filter f xs) = {y. \<exists>x \<in> set xs. f x = Some y}"
  by (induction xs) (auto simp: map_filter_simps split: option.splits)

lemma find_append_case:
  "find p (xs @ ys) = (case find p xs of None \<Rightarrow> find p ys | Some x \<Rightarrow> Some x)"
  by (induction xs) auto

lemma find_key_update_first:
  assumes "\<And>x. key x = k \<Longrightarrow> key (f x) = k"
  shows "find (\<lambda>x. key x = k') (update_first (\<lambda>x. key x = k) f xs) =
    (if k' = k then map_option f (find (\<lambda>x. key x = k) xs) else find (\<lambda>x. key x = k') xs)"
  using assms by (induction xs) auto

lemma find_key_filter:
  "find (\<lambda>x. key x = k') (filter (\<lambda>x. key x \<noteq> k) xs) = (if k' = k then None else find (\<lambda>x. key x = k') xs)"
  by (induction xs) auto

lemma find_key_unique: "distinct (map key xs) \<Longrightarrow> x \<in> set xs \<Longrightarrow> find (\<lambda>y. key y = key x) xs = Some x"
  by (induction xs) (auto intro: rev_image_eqI)

lemma find_update_first:
  assumes "\<And>x. p x \<Longrightarrow> p (f x)"
  shows "find p (update_first p f xs) = map_option f (find p xs)"
  using assms by (induction xs) auto

lemma find_update_first_other:
  assumes "\<And>x. p x \<Longrightarrow> \<not> q x" and "\<And>x. p x \<Longrightarrow> \<not> q (f x)"
  shows "find q (update_first p f xs) = find q xs"
  using assms by (induction xs) auto

lemma map_update_first:
  assumes "\<And>x. p x \<Longrightarrow> g (f x) = g x"
  shows "map g (update_first p f xs) = map g xs"
  using assms by (induction xs) auto

lemma update_first_none: "\<forall>x \<in> set xs. \<not> p x \<Longrightarrow> update_first p f xs = xs"
  by (induction xs) auto

lemma set_update_first_subset: "set (update_first p f xs) \<subseteq> set xs \<union> f ` {x \<in> set xs. p x}"
  by (induction xs) auto

lemma length_update_first [simp]: "length (update_first p f xs) = length xs"
  by (induction xs) auto

lemma update_first_split:
  "find p xs = Some y \<Longrightarrow> \<exists>us vs. xs = us @ y # vs \<and> p y \<and> (\<forall>u \<in> set us. \<not> p u)
     \<and> update_first p f xs = us @ f y # vs"
proof (induction xs)
  case (Cons x xs)
  show ?case
  proof (cases "p x")
    case True
    with Cons.prems show ?thesis by (intro exI [of _ "[]"] exI [of _ xs]) auto
  next
    case False
    with Cons obtain us vs where "xs = us @ y # vs" "p y" "\<forall>u \<in> set us. \<not> p u"
      "update_first p f xs = us @ f y # vs" by auto
    with False show ?thesis by (intro exI [of _ "x # us"] exI [of _ vs]) auto
  qed
qed simp

lemma position_None: "position p xs = None \<longleftrightarrow> (\<forall>x \<in> set xs. \<not> p x)"
  by (induction xs) auto

lemma position_Some:
  "position p xs = Some i \<Longrightarrow> i < length xs \<and> p (xs ! i) \<and> (\<forall>x \<in> set (take i xs). \<not> p x)"
  by (induction xs arbitrary: i) (auto split: if_splits simp: nth_Cons')

text \<open>The keep-or-all filter never empties a set of candidates.\<close>

lemma prefer_empty [simp]: "prefer_keep keep xs = [] \<longleftrightarrow> xs = []"
  by (auto simp: prefer_keep_def filter_empty_conv)

lemma prefer_subset: "set (prefer_keep keep xs) \<subseteq> set xs"
  by (auto simp: prefer_keep_def)

lemma prefer_sat: "x \<in> set (prefer_keep keep xs) \<Longrightarrow> y \<in> set xs \<Longrightarrow> keep y \<Longrightarrow> keep x"
  by (auto simp: prefer_keep_def split: if_splits)

lemma prefer_all: "(\<And>x. x \<in> set xs \<Longrightarrow> keep x) \<Longrightarrow> prefer_keep keep xs = xs"
  by (auto simp: prefer_keep_def)

lemma distinct_prefer: "distinct (map g xs) \<Longrightarrow> distinct (map g (prefer_keep keep xs))"
  by (auto simp: prefer_keep_def distinct_map_filter)

lemma distinct_map_filter_iff: "distinct (map g xs) \<Longrightarrow> distinct (map g (filter p xs))"
  by (rule distinct_map_filter)

section \<open>Saturating and wrapping arithmetic on words\<close>

definition saturating_add :: "'a::len word \<Rightarrow> 'a word \<Rightarrow> 'a word" where
  "saturating_add a b = (if unat a + unat b < 2 ^ LENGTH('a) then a + b else -1)"

definition saturating_sub :: "'a::len word \<Rightarrow> 'a word \<Rightarrow> 'a word" where
  "saturating_sub a b = (if b \<le> a then a - b else 0)"

definition abs_diff :: "'a::len word \<Rightarrow> 'a word \<Rightarrow> 'a word" where
  "abs_diff a b = (if a < b then b - a else a - b)"

lemma unat_saturating_sub [simp]: "unat (saturating_sub a b) = unat a - unat b"
  by (auto simp: saturating_sub_def unat_sub word_le_nat_alt)

lemma unat_plus_one: "unat (a :: 'a::len word) + 1 < 2 ^ LENGTH('a) \<Longrightarrow> unat (a + 1) = unat a + 1"
  by (simp add: unat_word_ariths)

lemma unat_saturating_add: "unat (saturating_add (a :: 'a::len word) b) = min (unat a + unat b) (2 ^ LENGTH('a) - 1)"
proof -
  have "unat (- 1 :: 'a word) = 2 ^ LENGTH('a) - 1" by (simp add: unsigned_minus_1_eq_mask mask_eq_exp_minus_1)
  then show ?thesis by (auto simp: saturating_add_def unat_word_ariths min_def)
qed

lemma unat_abs_diff: "unat (abs_diff a b) = (unat a - unat b) + (unat b - unat a)"
  by (auto simp: abs_diff_def unat_sub word_le_nat_alt word_less_nat_alt not_less)

lemma distinct_remdups_adj_sort: "distinct (remdups_adj (sort (xs :: 'a::linorder list)))"
proof -
  have "sorted ys \<Longrightarrow> distinct (remdups_adj ys)" for ys :: "'a list"
  proof (induction ys rule: remdups_adj.induct)
    case (3 x y ys)
    then show ?case by (auto simp: less_le)
  qed auto
  then show ?thesis by simp
qed

end
