(* ===== verification/Rust_Net.thy ===== *)
theory Rust_Net
  imports Rust_Str
begin

text \<open>
  \<open>std::net::SocketAddr\<close> as the configuration uses it: parsing \<open>a.b.c.d:port\<close> and
  \<open>[v6]:port\<close> (with the rules of the standard library on digit counts, leading zeros,
  \<open>::\<close>, a trailing dotted quad and a scope id) and the two classifications
  \<open>is_loopback\<close> and \<open>is_unspecified\<close>. A parser returns what it read and the rest of
  the input; the scope id is read and dropped, since nothing looks at it.
\<close>

section \<open>Definitions\<close>

datatype ip_addr = V4 "nat list" | V6 "nat list"

record socket_addr =
  sa_ip :: ip_addr
  sa_port :: u16

fun read_digits :: "nat \<Rightarrow> string \<Rightarrow> nat list \<times> string" where
  "read_digits radix [] = ([], [])"
| "read_digits radix (c # cs) =
     (case to_digit radix c of
        None \<Rightarrow> ([], c # cs)
      | Some d \<Rightarrow> (case read_digits radix cs of (ds, rest) \<Rightarrow> (d # ds, rest)))"

definition digits_value :: "nat \<Rightarrow> nat list \<Rightarrow> nat" where
  "digits_value radix ds = foldl (\<lambda>a d. a * radix + d) 0 ds"

definition read_number ::
  "nat \<Rightarrow> nat option \<Rightarrow> nat \<Rightarrow> bool \<Rightarrow> string \<Rightarrow> (nat \<times> string) option" where
  "read_number radix max_digits limit allow_zero_prefix s =
     (case read_digits radix s of (ds, rest) \<Rightarrow>
        if ds = [] then None
        else if (case max_digits of None \<Rightarrow> False | Some m \<Rightarrow> m < length ds) then None
        else if \<not> allow_zero_prefix \<and> hd ds = 0 \<and> 1 < length ds then None
        else if limit < digits_value radix ds then None
        else Some (digits_value radix ds, rest))"

definition read_given_char :: "char \<Rightarrow> string \<Rightarrow> string option" where
  "read_given_char c s = (case s of [] \<Rightarrow> None | x # xs \<Rightarrow> if x = c then Some xs else None)"

definition read_separator ::
  "char \<Rightarrow> nat \<Rightarrow> (string \<Rightarrow> ('a \<times> string) option) \<Rightarrow> string \<Rightarrow> ('a \<times> string) option" where
  "read_separator sep index inner s =
     (if 0 < index then Option.bind (read_given_char sep s) inner else inner s)"

fun read_octets :: "nat \<Rightarrow> nat \<Rightarrow> string \<Rightarrow> (nat list \<times> string) option" where
  "read_octets 0 i s = Some ([], s)"
| "read_octets (Suc k) i s =
     Option.bind (read_separator CHR ''.'' i (read_number 10 (Some 3) 255 False) s)
       (\<lambda>(o1, rest). map_option (\<lambda>(os, r). (o1 # os, r)) (read_octets k (Suc i) rest))"

definition read_ipv4_addr :: "string \<Rightarrow> (nat list \<times> string) option" where
  "read_ipv4_addr s = read_octets 4 0 s"

fun read_groups :: "nat \<Rightarrow> nat \<Rightarrow> string \<Rightarrow> nat list \<times> bool \<times> string" where
  "read_groups 0 i s = ([], False, s)"
| "read_groups (Suc k) i s =
     (case (if 1 \<le> k then read_separator CHR '':'' i read_ipv4_addr s else None) of
        Some (os, rest) \<Rightarrow> ([os ! 0 * 256 + os ! 1, os ! 2 * 256 + os ! 3], True, rest)
      | None \<Rightarrow>
          (case read_separator CHR '':'' i (read_number 16 (Some 4) 65535 True) s of
             None \<Rightarrow> ([], False, s)
           | Some (g, rest) \<Rightarrow>
               (case read_groups k (Suc i) rest of (gs, v4, r) \<Rightarrow> (g # gs, v4, r))))"

definition read_ipv6_addr :: "string \<Rightarrow> (nat list \<times> string) option" where
  "read_ipv6_addr s =
     (case read_groups 8 0 s of (head, head_ipv4, rest) \<Rightarrow>
        if length head = 8 then Some (head, rest)
        else if head_ipv4 then None
        else Option.bind (read_given_char CHR '':'' rest) (\<lambda>r1.
             Option.bind (read_given_char CHR '':'' r1) (\<lambda>r2.
               (case read_groups (8 - (length head + 1)) 0 r2 of (tail, _, r3) \<Rightarrow>
                  Some (head @ replicate (8 - length head - length tail) 0 @ tail, r3)))))"

definition read_port :: "string \<Rightarrow> (nat \<times> string) option" where
  "read_port s = Option.bind (read_given_char CHR '':'' s) (read_number 10 None 65535 True)"

definition read_scope_id :: "string \<Rightarrow> string" where
  "read_scope_id s =
     (case Option.bind (read_given_char CHR ''%'' s) (read_number 10 None 4294967295 True) of
        None \<Rightarrow> s | Some (_, rest) \<Rightarrow> rest)"

definition read_socket_addr_v4 :: "string \<Rightarrow> (socket_addr \<times> string) option" where
  "read_socket_addr_v4 s =
     Option.bind (read_ipv4_addr s) (\<lambda>(ip, r).
     Option.bind (read_port r) (\<lambda>(p, r'). Some (\<lparr>sa_ip = V4 ip, sa_port = of_nat p\<rparr>, r')))"

definition read_socket_addr_v6 :: "string \<Rightarrow> (socket_addr \<times> string) option" where
  "read_socket_addr_v6 s =
     Option.bind (read_given_char CHR ''['' s) (\<lambda>r0.
     Option.bind (read_ipv6_addr r0) (\<lambda>(ip, r1).
     Option.bind (read_given_char CHR '']'' (read_scope_id r1)) (\<lambda>r2.
     Option.bind (read_port r2) (\<lambda>(p, r3). Some (\<lparr>sa_ip = V6 ip, sa_port = of_nat p\<rparr>, r3)))))"

definition parse_socket_addr :: "string \<Rightarrow> socket_addr option" where
  "parse_socket_addr s =
     (case (case read_socket_addr_v4 s of Some r \<Rightarrow> Some r | None \<Rightarrow> read_socket_addr_v6 s) of
        Some (addr, []) \<Rightarrow> Some addr
      | _ \<Rightarrow> None)"

definition ip_is_loopback :: "ip_addr \<Rightarrow> bool" where
  "ip_is_loopback ip \<longleftrightarrow>
     (case ip of V4 os \<Rightarrow> hd os = 127 | V6 gs \<Rightarrow> gs = [0, 0, 0, 0, 0, 0, 0, 1])"

definition ip_is_unspecified :: "ip_addr \<Rightarrow> bool" where
  "ip_is_unspecified ip \<longleftrightarrow>
     (case ip of V4 os \<Rightarrow> os = [0, 0, 0, 0] | V6 gs \<Rightarrow> gs = [0, 0, 0, 0, 0, 0, 0, 0])"

section \<open>Lemmas\<close>

lemma digits_value_snoc: "digits_value r (ds @ [d]) = digits_value r ds * r + d"
  by (simp add: digits_value_def)

lemma read_digits_app:
  "read_digits r s = (ds, []) \<Longrightarrow> read_digits r (s @ t) = (case read_digits r t of (es, rest) \<Rightarrow> (ds @ es, rest))"
  by (induction s arbitrary: ds) (auto split: option.splits prod.splits)

text \<open>The decimal representation is read back as the number it stands for.\<close>

lemma read_digits_dec_string:
  "\<exists>ds. read_digits 10 (dec_string n) = (ds, []) \<and> ds \<noteq> [] \<and> digits_value 10 ds = n"
proof (induction n rule: dec_string.induct)
  case (1 n)
  show ?case
  proof (cases "n < 10")
    case True
    then show ?thesis by (subst dec_string.simps) (simp add: digits_value_def)
  next
    case False
    with "1.IH" obtain ds where ds: "read_digits 10 (dec_string (n div 10)) = (ds, [])"
      "digits_value 10 ds = n div 10" by blast
    have "read_digits 10 (dec_string n) = (ds @ [n mod 10], [])"
      by (subst dec_string.simps) (simp add: False read_digits_app [OF ds(1)])
    then show ?thesis by (simp add: digits_value_snoc ds(2))
  qed
qed

lemma read_number_dec_string:
  assumes "n \<le> limit"
  shows "read_number 10 None limit True (dec_string n) = Some (n, [])"
proof -
  obtain ds where "read_digits 10 (dec_string n) = (ds, [])" "ds \<noteq> []" "digits_value 10 ds = n"
    using read_digits_dec_string by blast
  with assms show ?thesis by (simp add: read_number_def)
qed

lemma read_port_dec_string: "n \<le> 65535 \<Longrightarrow> read_port (CHR '':'' # dec_string n) = Some (n, [])"
  by (simp add: read_port_def read_given_char_def read_number_dec_string)

lemma read_octets_length: "read_octets k i s = Some (os, r) \<Longrightarrow> length os = k"
  by (induction k arbitrary: i s os r) (auto split: bind_splits)

end
