(* ===== verification/Config_Model.thy ===== *)
theory Config_Model
  imports Rust_Net Complex_Main
begin

text \<open>
  \<^verbatim>\<open>src/config.rs\<close>: the data a daemon is configured with, the mutations of the replicated
  \<open>DynamicConfig\<close>, and the validation \<open>stouter check\<close> runs.

  Record fields carry a prefix for the struct they belong to (\<open>svc_\<close>, \<open>rt_\<close>,
  \<open>sg_\<close>, \<open>dc_\<close>, \<open>ni_\<close>, \<open>cfg_\<close>), since selectors share one name space. A
  \<open>Result<T, String>\<close> is \<open>string + 'a\<close> with the very message the source formats;
  \<open>anyhow\<close> errors are their message. Functions of the \<^verbatim>\<open>http\<close> crate and the
  formatting of floats are parameters (\<open>http_lib\<close>): whether a string is a header name, the scheme and host of a URL, and
  the decimal form of an \<open>f64\<close>.
\<close>

section \<open>Data\<close>

datatype Mode = Node | Subscribe | NodeSubscribe

datatype Protocol = Tcp | Http

record Service =
  svc_name :: string
  svc_node_id :: string
  svc_node_port :: u16
  svc_domains :: "string list"
  svc_weight :: u32
  svc_max_connections :: "u32 option"
  svc_protocol :: Protocol
  svc_request_timeout_ms :: "u64 option"
  svc_health_path :: "string option"
  svc_labels :: string_map
  svc_meta :: string_map
  svc_local_port :: "u16 option"

record RouteMatch =
  rm_path_prefix :: "string option"
  rm_method :: "string option"
  rm_headers :: string_map

record RouteBackend =
  rb_labels :: string_map
  rb_weight :: u32

record Route =
  rt_name :: "string option"
  rt_service :: string
  rt_matches :: RouteMatch
  rt_backends :: "RouteBackend list"

record ServiceGroup =
  sg_name :: string
  sg_services :: "Service list"

record SubscribeFilter =
  sf_service_groups :: "string list"
  sf_services :: "string list"

record DynamicConfig =
  dc_version :: u64
  dc_service_groups :: "ServiceGroup list"
  dc_routes :: "Route list"

datatype MutateErr =
    GroupNotFound string
  | ServiceNotFound string string string
  | DuplicateService string string string
  | Invalid string

record ServiceHealth =
  sh_version :: u64
  sh_unhealthy :: "string list"

text \<open>Instants are milliseconds on the daemon's monotonic clock.\<close>

type_synonym instant = nat

record NodeInfo =
  ni_id :: string
  ni_addr :: string
  ni_relay :: "string option"
  ni_last_seen :: "instant option"
  ni_health :: ServiceHealth

datatype f64 = F64_NaN | F64_inf bool | F64_fin rat

record TracingConfig =
  tc_otlp_endpoint :: string
  tc_sample_ratio :: f64
  tc_service_name :: string

record Config =
  cfg_mode :: Mode
  cfg_bind :: string
  cfg_advertise_addr :: "string option"
  cfg_node_id :: string
  cfg_outbound_only :: bool
  cfg_reverse_pool_size :: "u16 option"
  cfg_known_nodes :: "string list"
  cfg_dynamic_config :: DynamicConfig
  cfg_subscribe_filter :: "SubscribeFilter option"
  cfg_tls_dir :: "string option"
  cfg_admin_cns :: "string list"
  cfg_api_port :: "u16 option"
  cfg_tracing :: "TracingConfig option"
  cfg_http_listen :: "string option"

text \<open>The parts of the \<^verbatim>\<open>http\<close> crate that validation calls.\<close>

record uri_parts =
  uri_scheme :: "string option"
  uri_host :: "string option"

record http_lib =
  header_name_ok :: "string \<Rightarrow> bool"
  parse_uri :: "string \<Rightarrow> string + uri_parts"
  fmt_f64 :: "f64 \<Rightarrow> string"

section \<open>Defaults and small accessors\<close>

definition DEFAULT_WEIGHT :: u32 where
  "DEFAULT_WEIGHT = 1"

definition default_dynamic_config :: DynamicConfig where
  "default_dynamic_config = \<lparr>dc_version = 0, dc_service_groups = [], dc_routes = []\<rparr>"

definition default_service_health :: ServiceHealth where
  "default_service_health = \<lparr>sh_version = 0, sh_unhealthy = []\<rparr>"

definition default_config :: Config where
  "default_config =
     \<lparr>cfg_mode = Node, cfg_bind = ''0.0.0.0:8080'', cfg_advertise_addr = None, cfg_node_id = [],
      cfg_outbound_only = False, cfg_reverse_pool_size = None, cfg_known_nodes = [],
      cfg_dynamic_config = default_dynamic_config, cfg_subscribe_filter = None,
      cfg_tls_dir = None, cfg_admin_cns = [], cfg_api_port = None, cfg_tracing = None,
      cfg_http_listen = None\<rparr>"

definition sh_is_unset :: "ServiceHealth \<Rightarrow> bool" where
  "sh_is_unset h \<longleftrightarrow> sh_version h = 0"

definition sh_is_unhealthy :: "ServiceHealth \<Rightarrow> string \<Rightarrow> bool" where
  "sh_is_unhealthy h service_name \<longleftrightarrow> (\<exists>s \<in> set (sh_unhealthy h). s = service_name)"

definition sf_is_empty :: "SubscribeFilter \<Rightarrow> bool" where
  "sf_is_empty f \<longleftrightarrow> sf_service_groups f = [] \<and> sf_services f = []"

definition sf_allows :: "SubscribeFilter \<Rightarrow> string \<Rightarrow> string \<Rightarrow> bool" where
  "sf_allows f group_name service_name \<longleftrightarrow>
     (\<exists>g \<in> set (sf_service_groups f). g = group_name) \<or> (\<exists>s \<in> set (sf_services f). s = service_name)"

definition is_tcp :: "Protocol \<Rightarrow> bool" where
  "is_tcp p \<longleftrightarrow> p = Tcp"

definition peer_addr :: "Config \<Rightarrow> string" where
  "peer_addr cfg = (case cfg_advertise_addr cfg of Some a \<Rightarrow> a | None \<Rightarrow> cfg_bind cfg)"

definition pool_size :: "Config \<Rightarrow> nat" where
  "pool_size cfg = (case cfg_reverse_pool_size cfg of Some n \<Rightarrow> unat n | None \<Rightarrow> 64)"

definition api_port :: "Config \<Rightarrow> u16" where
  "api_port cfg = (case cfg_api_port cfg of Some p \<Rightarrow> p | None \<Rightarrow> 5381)"

definition local_target :: "Config \<Rightarrow> string" where
  "local_target cfg =
     (case parse_socket_addr (cfg_bind cfg) of
        Some addr \<Rightarrow>
          if ip_is_unspecified (sa_ip addr)
          then (case sa_ip addr of
                  V4 _ \<Rightarrow> ''127.0.0.1:'' @ dec_string (unat (sa_port addr))
                | V6 _ \<Rightarrow> ''[::1]:'' @ dec_string (unat (sa_port addr)))
          else cfg_bind cfg
      | None \<Rightarrow> cfg_bind cfg)"

section \<open>Route matching\<close>

definition labels_match :: "string_map \<Rightarrow> string_map \<Rightarrow> bool" where
  "labels_match labels selector \<longleftrightarrow> (\<forall>(k, v) \<in> set selector. map_of labels k = Some v)"

definition route_label :: "Route \<Rightarrow> nat \<Rightarrow> string" where
  "route_label r index = (case rt_name r of Some n \<Rightarrow> n | None \<Rightarrow> CHR ''#'' # dec_string index)"

definition path_has_prefix :: "string \<Rightarrow> string \<Rightarrow> bool" where
  "path_has_prefix path pre \<longleftrightarrow>
     (case strip_prefix pre path of
        Some rest \<Rightarrow> rest = [] \<or> ends_with pre CHR ''/'' \<or> starts_with rest CHR ''/''
      | None \<Rightarrow> False)"

definition route_matches :: "RouteMatch \<Rightarrow> string \<Rightarrow> string \<Rightarrow> (string \<Rightarrow> string option) \<Rightarrow> bool" where
  "route_matches m meth path header \<longleftrightarrow>
     (case rm_path_prefix m of Some pre \<Rightarrow> path_has_prefix path pre | None \<Rightarrow> True) \<and>
     (case rm_method m of Some mt \<Rightarrow> mt = meth | None \<Rightarrow> True) \<and>
     (\<forall>(name, value) \<in> set (rm_headers m). header (to_ascii_lowercase name) = Some value)"

section \<open>Checks on single items\<close>

definition quoted :: "string \<Rightarrow> string" where
  "quoted s = CHR 0x27 # s @ [CHR 0x27]"

definition validate_route_at :: "http_lib \<Rightarrow> string \<Rightarrow> nat \<Rightarrow> Route \<Rightarrow> string + unit" where
  "validate_route_at lib service i route =
     (let here = ''route '' @ route_label route i @ '' of service '' @ quoted service in
      if rt_service route \<noteq> service then Inl (here @ '' names service '' @ quoted (rt_service route))
      else if rt_backends route = [] then Inl (here @ '' has no backends'')
      else if \<forall>b \<in> set (rt_backends route). rb_weight b = 0
      then Inl (here @ '' has no backend with a non-zero weight'')
      else if (case rm_path_prefix (rt_matches route) of
                 Some p \<Rightarrow> \<not> starts_with p CHR ''/'' | None \<Rightarrow> False)
      then Inl (here @ '': pathPrefix '' @ quoted (the (rm_path_prefix (rt_matches route)))
                  @ '' must start with '' @ quoted ''/'')
      else if (case rm_method (rt_matches route) of
                 Some m \<Rightarrow> m = [] \<or> \<not> (\<forall>b \<in> set m. is_ascii_uppercase b) | None \<Rightarrow> False)
      then Inl (here @ '': method '' @ quoted (the (rm_method (rt_matches route)))
                  @ '' must be an uppercase token like GET'')
      else try_each
             (\<lambda>name. if header_name_ok lib name then Inr ()
                     else Inl (here @ '': '' @ quoted name @ '' is not a valid header name''))
             (map fst (rm_headers (rt_matches route))))"

definition validate_routes :: "http_lib \<Rightarrow> string \<Rightarrow> Route list \<Rightarrow> string + unit" where
  "validate_routes lib service routes =
     try_each (\<lambda>(i, route). validate_route_at lib service i route) (enumerate 0 routes)"

definition validate_health_path :: "string \<Rightarrow> string + unit" where
  "validate_health_path path =
     (if \<not> starts_with path CHR ''/''
      then Inl (''healthPath '' @ quoted path @ '' must start with '' @ quoted ''/'')
      else if \<exists>b \<in> set path. is_ascii_whitespace b \<or> is_ascii_control b \<or> \<not> is_ascii b
      then Inl (''healthPath '' @ quoted path @
                '' may not contain whitespace, control or non-ASCII characters'')
      else Inr ())"

definition sample_ratio_ok :: "f64 \<Rightarrow> bool" where
  "sample_ratio_ok r \<longleftrightarrow> (case r of F64_fin q \<Rightarrow> 0 \<le> q \<and> q \<le> 1 | _ \<Rightarrow> False)"

definition tracing_validate :: "http_lib \<Rightarrow> TracingConfig \<Rightarrow> string + unit" where
  "tracing_validate lib t =
     (let ep = ''tracing.otlpEndpoint '' @ quoted (tc_otlp_endpoint t) in
      case parse_uri lib (tc_otlp_endpoint t) of
        Inl e \<Rightarrow> Inl (ep @ '' is not a URL: '' @ e)
      | Inr uri \<Rightarrow>
          if uri_scheme uri = Some ''https''
          then Inl (ep @ '': https is not supported; send to a local OpenTelemetry Collector over http and let it forward over TLS'')
          else if uri_scheme uri \<noteq> Some ''http'' then Inl (ep @ '' must start with http://'')
          else if uri_host uri = None then Inl (ep @ '' has no host'')
          else if \<not> sample_ratio_ok (tc_sample_ratio t)
          then Inl (''tracing.sampleRatio '' @ fmt_f64 lib (tc_sample_ratio t) @ '' must be between 0.0 and 1.0'')
          else Inr ())"

section \<open>Mutations of the dynamic configuration\<close>

definition all_services :: "DynamicConfig \<Rightarrow> Service list" where
  "all_services dc = concat (map sg_services (dc_service_groups dc))"

definition same_instance :: "string \<Rightarrow> string \<Rightarrow> Service \<Rightarrow> bool" where
  "same_instance name node s \<longleftrightarrow> svc_name s = name \<and> svc_node_id s = node"

definition bump_version :: "DynamicConfig \<Rightarrow> DynamicConfig" where
  "bump_version dc = dc\<lparr>dc_version := dc_version dc + 1\<rparr>"

definition put_service :: "Service \<Rightarrow> Service list \<Rightarrow> Service list" where
  "put_service service services =
     (let same = same_instance (svc_name service) (svc_node_id service) in
      case find same services of
        Some _ \<Rightarrow> update_first same (\<lambda>_. service) services
      | None \<Rightarrow> services @ [service])"

definition upsert_service :: "DynamicConfig \<Rightarrow> string \<Rightarrow> Service \<Rightarrow> DynamicConfig \<times> u64" where
  "upsert_service dc grp service =
     (let groups =
        (case find (\<lambda>g. sg_name g = grp) (dc_service_groups dc) of
           Some _ \<Rightarrow> update_first (\<lambda>g. sg_name g = grp)
                       (\<lambda>g. g\<lparr>sg_services := put_service service (sg_services g)\<rparr>)
                       (dc_service_groups dc)
         | None \<Rightarrow> dc_service_groups dc @ [\<lparr>sg_name = grp, sg_services = [service]\<rparr>]);
          dc' = bump_version (dc\<lparr>dc_service_groups := groups\<rparr>)
      in (dc', dc_version dc'))"

definition show_ports :: "u16 list \<Rightarrow> string" where
  "show_ports ps = ''['' @ join '', '' (map (\<lambda>p. dec_string (unat p)) ps) @ '']''"

definition local_port_for :: "DynamicConfig \<Rightarrow> string \<Rightarrow> string + u16 option" where
  "local_port_for dc service =
     (let ports = remdups_adj (sort (List.map_filter svc_local_port
                    (filter (\<lambda>s. svc_name s = service) (all_services dc)))) in
      case ports of
        [] \<Rightarrow> Inr None
      | [port] \<Rightarrow> Inr (Some port)
      | many \<Rightarrow> Inl (''instances of '' @ quoted service @ '' set different localPorts: '' @ show_ports many))"

definition validate_route_target :: "DynamicConfig \<Rightarrow> string \<Rightarrow> string + unit" where
  "validate_route_target dc service =
     (let instances = filter (\<lambda>s. svc_name s = service) (all_services dc) in
      if instances = [] then Inl (''routes reference unknown service '' @ quoted service)
      else if \<exists>s \<in> set instances. svc_protocol s \<noteq> Http
      then Inl (''routes for '' @ quoted service @ '' require every instance to have protocol: http'')
      else Inr ())"

definition splice :: "nat \<Rightarrow> 'a list \<Rightarrow> 'a list \<Rightarrow> 'a list" where
  "splice i new xs = take i xs @ new @ drop i xs"

definition set_routes ::
  "http_lib \<Rightarrow> DynamicConfig \<Rightarrow> string \<Rightarrow> Route list \<Rightarrow> MutateErr + DynamicConfig \<times> u64" where
  "set_routes lib dc service routes =
     try_then (if routes \<noteq> [] then map_err Invalid (validate_route_target dc service) else Inr ()) (\<lambda>_.
     try_then (map_err Invalid (validate_routes lib service routes)) (\<lambda>_.
       let insert_at = position (\<lambda>r. rt_service r = service) (dc_routes dc);
           kept = filter (\<lambda>r. rt_service r \<noteq> service) (dc_routes dc);
           pos = min (case insert_at of Some i \<Rightarrow> i | None \<Rightarrow> length kept) (length kept);
           dc' = bump_version (dc\<lparr>dc_routes := splice pos routes kept\<rparr>)
       in Inr (dc', dc_version dc')))"

definition remove_service ::
  "DynamicConfig \<Rightarrow> string \<Rightarrow> string \<Rightarrow> string \<Rightarrow> MutateErr + DynamicConfig \<times> u64" where
  "remove_service dc grp owner_node_id name =
     (case find (\<lambda>g. sg_name g = grp) (dc_service_groups dc) of
        None \<Rightarrow> Inl (GroupNotFound grp)
      | Some g \<Rightarrow>
          let kept = filter (\<lambda>s. \<not> same_instance name owner_node_id s) (sg_services g) in
          if length kept = length (sg_services g)
          then Inl (ServiceNotFound grp owner_node_id name)
          else let dc' = bump_version (dc\<lparr>dc_service_groups :=
                     update_first (\<lambda>g. sg_name g = grp) (\<lambda>g. g\<lparr>sg_services := kept\<rparr>)
                       (dc_service_groups dc)\<rparr>)
               in Inr (dc', dc_version dc'))"

definition rename_service ::
  "DynamicConfig \<Rightarrow> string \<Rightarrow> string \<Rightarrow> string \<Rightarrow> string \<Rightarrow> MutateErr + DynamicConfig \<times> u64" where
  "rename_service dc grp owner_node_id from to =
     (case find (\<lambda>g. sg_name g = grp) (dc_service_groups dc) of
        None \<Rightarrow> Inl (GroupNotFound grp)
      | Some g \<Rightarrow>
          if \<exists>s \<in> set (sg_services g). same_instance to owner_node_id s
          then Inl (DuplicateService grp owner_node_id to)
          else if find (same_instance from owner_node_id) (sg_services g) = None
          then Inl (ServiceNotFound grp owner_node_id from)
          else let services = update_first (same_instance from owner_node_id)
                                (\<lambda>s. s\<lparr>svc_name := to\<rparr>) (sg_services g);
                   dc' = bump_version (dc\<lparr>dc_service_groups :=
                     update_first (\<lambda>g. sg_name g = grp) (\<lambda>g. g\<lparr>sg_services := services\<rparr>)
                       (dc_service_groups dc)\<rparr>)
               in Inr (dc', dc_version dc'))"

definition mutate_err_string :: "MutateErr \<Rightarrow> string" where
  "mutate_err_string e =
     (case e of
        GroupNotFound grp \<Rightarrow> ''group '' @ quoted grp @ '' not found''
      | ServiceNotFound grp node name \<Rightarrow>
          ''service '' @ quoted name @ '' on node '' @ quoted node @ '' not found in group '' @ quoted grp
      | DuplicateService grp node name \<Rightarrow>
          ''service '' @ quoted name @ '' already exists on node '' @ quoted node
            @ '' in group '' @ quoted grp
      | Invalid msg \<Rightarrow> msg)"

end
