(* ===== verification/Config_Catalog.thy ===== *)
theory Config_Catalog
  imports Config_Model
begin

text \<open>
  The dynamic configuration as a catalogue of service instances. An instance is addressed by its
  group, its name and the node it runs on. The locale \<open>service_catalog\<close> states what the
  mutations of \<^verbatim>\<open>src/config.rs\<close> promise to their callers (the command line, the admin RPC and
  \<open>service move\<close>): what a lookup returns after an insertion and after a removal. The
  interpretation \<open>dcat\<close> discharges the laws for \<open>upsert_service\<close> and
  \<open>remove_service\<close>, and the properties of the mutations rest on it.
\<close>

section \<open>Definitions\<close>

definition dc_lookup :: "DynamicConfig \<Rightarrow> string \<Rightarrow> string \<times> string \<Rightarrow> Service option" where
  "dc_lookup dc grp k =
     Option.bind (find (\<lambda>g. sg_name g = grp) (dc_service_groups dc))
       (\<lambda>g. find (same_instance (fst k) (snd k)) (sg_services g))"

definition svc_key :: "Service \<Rightarrow> string \<times> string" where
  "svc_key s = (svc_name s, svc_node_id s)"

definition dc_put :: "DynamicConfig \<Rightarrow> string \<Rightarrow> Service \<Rightarrow> DynamicConfig" where
  "dc_put dc grp s = fst (upsert_service dc grp s)"

definition dc_drop :: "DynamicConfig \<Rightarrow> string \<Rightarrow> string \<times> string \<Rightarrow> DynamicConfig option" where
  "dc_drop dc grp k =
     (case remove_service dc grp (snd k) (fst k) of Inl _ \<Rightarrow> None | Inr (dc', _) \<Rightarrow> Some dc')"

text \<open>Group names are unique, and so are the instances inside a group.\<close>

definition group_wf :: "ServiceGroup \<Rightarrow> bool" where
  "group_wf g \<longleftrightarrow> distinct (map svc_key (sg_services g))"

definition dc_wf :: "DynamicConfig \<Rightarrow> bool" where
  "dc_wf dc \<longleftrightarrow> distinct (map sg_name (dc_service_groups dc)) \<and> (\<forall>g \<in> set (dc_service_groups dc). group_wf g)"

text \<open>What a route of a service has to satisfy.\<close>

definition route_ok :: "http_lib \<Rightarrow> string \<Rightarrow> Route \<Rightarrow> bool" where
  "route_ok lib service r \<longleftrightarrow>
     rt_service r = service \<and> (\<exists>b \<in> set (rt_backends r). rb_weight b \<noteq> 0) \<and>
     (\<forall>p. rm_path_prefix (rt_matches r) = Some p \<longrightarrow> starts_with p CHR ''/'') \<and>
     (\<forall>m. rm_method (rt_matches r) = Some m \<longrightarrow> m \<noteq> [] \<and> (\<forall>b \<in> set m. is_ascii_uppercase b)) \<and>
     (\<forall>name \<in> fst ` set (rm_headers (rt_matches r)). header_name_ok lib name)"

definition routable :: "DynamicConfig \<Rightarrow> string \<Rightarrow> bool" where
  "routable dc service \<longleftrightarrow>
     (\<exists>s \<in> set (all_services dc). svc_name s = service) \<and>
     (\<forall>s \<in> set (all_services dc). svc_name s = service \<longrightarrow> svc_protocol s = Http)"

text \<open>A small configuration that the witnesses evaluate.\<close>

definition sample_service :: "string \<Rightarrow> string \<Rightarrow> Service" where
  "sample_service name node =
     \<lparr>svc_name = name, svc_node_id = node, svc_node_port = 3000, svc_domains = [], svc_weight = 1,
      svc_max_connections = None, svc_protocol = Http, svc_request_timeout_ms = None,
      svc_health_path = None, svc_labels = [], svc_meta = [], svc_local_port = None\<rparr>"

definition sample_dc :: DynamicConfig where
  "sample_dc =
     \<lparr>dc_version = 7,
      dc_service_groups = [\<lparr>sg_name = ''web'',
        sg_services = [sample_service ''api'' ''n1'', sample_service ''api'' ''n2'']\<rparr>],
      dc_routes = []\<rparr>"

section \<open>The interface of a catalogue\<close>

locale service_catalog =
  fixes lookup :: "'c \<Rightarrow> 'g \<Rightarrow> 'k \<Rightarrow> 's option"
    and put :: "'c \<Rightarrow> 'g \<Rightarrow> 's \<Rightarrow> 'c"
    and drop_entry :: "'c \<Rightarrow> 'g \<Rightarrow> 'k \<Rightarrow> 'c option"
    and key :: "'s \<Rightarrow> 'k"
  assumes lookup_put: "lookup (put c g s) g' k = (if g' = g \<and> k = key s then Some s else lookup c g' k)"
    and drop_None: "drop_entry c g k = None \<longleftrightarrow> lookup c g k = None"
    and lookup_drop: "drop_entry c g k = Some c' \<Longrightarrow>
      lookup c' g' k' = (if g' = g \<and> k' = k then None else lookup c g' k')"
begin

lemma put_overwrites: "key s = key t \<Longrightarrow> lookup (put (put c g s) g t) = lookup (put c g t)"
  by (intro ext) (simp add: lookup_put)

lemma puts_commute:
  "(g, key s) \<noteq> (g', key t) \<Longrightarrow> lookup (put (put c g s) g' t) = lookup (put (put c g' t) g s)"
  by (intro ext) (auto simp: lookup_put)

text \<open>Inserting an entry that was absent and removing it again restores every lookup.\<close>

lemma drop_after_put:
  assumes "lookup c g (key s) = None"
  shows "\<exists>c'. drop_entry (put c g s) g (key s) = Some c' \<and> lookup c' = lookup c"
proof -
  have "drop_entry (put c g s) g (key s) \<noteq> None"
    by (simp add: drop_None lookup_put)
  then obtain c' where c': "drop_entry (put c g s) g (key s) = Some c'" by blast
  have "lookup c' g' k = lookup c g' k" for g' k
    using assms by (simp add: lookup_drop [OF c'] lookup_put)
  with c' show ?thesis by blast
qed

text \<open>An entry taken out of one catalogue and put into another is in exactly one of them.\<close>

lemma moved_entry:
  assumes "lookup src g k = Some s" and "key s' = k'"
  shows "\<exists>src'. drop_entry src g k = Some src' \<and> lookup src' g k = None
    \<and> lookup (put dst g' s') g' k' = Some s'"
proof -
  have "drop_entry src g k \<noteq> None" using assms(1) by (simp add: drop_None)
  then obtain src' where "drop_entry src g k = Some src'" by blast
  then show ?thesis using assms(2) by (simp add: lookup_drop lookup_put)
qed

end

section \<open>The mutations satisfy the interface\<close>

lemma find_set: "find p xs = Some x \<Longrightarrow> x \<in> set xs \<and> p x"
  by (induction xs) (auto split: if_splits)

lemma same_instance_key: "same_instance name node s \<longleftrightarrow> svc_key s = (name, node)"
  by (auto simp: same_instance_def svc_key_def)

lemma same_instance_pred: "same_instance name node = (\<lambda>s. svc_key s = (name, node))"
  by (intro ext) (rule same_instance_key)

lemma bump_version_simps [simp]:
  "dc_service_groups (bump_version dc) = dc_service_groups dc"
  "dc_routes (bump_version dc) = dc_routes dc"
  "dc_version (bump_version dc) = dc_version dc + 1"
  by (simp_all add: bump_version_def)

lemma find_put_service:
  "find (\<lambda>s. svc_key s = k) (put_service svc ss) =
     (if k = svc_key svc then Some svc else find (\<lambda>s. svc_key s = k) ss)"
proof -
  let ?p = "\<lambda>s. svc_key s = svc_key svc"
  have p: "same_instance (svc_name svc) (svc_node_id svc) = ?p"
    by (simp add: same_instance_pred svc_key_def)
  show ?thesis
  proof (cases "find ?p ss")
    case None
    then have "put_service svc ss = ss @ [svc]"
      unfolding put_service_def Let_def p by simp
    with None show ?thesis by (simp add: find_append_case split: option.splits)
  next
    case (Some y)
    then have eq: "put_service svc ss = update_first ?p (\<lambda>_. svc) ss"
      unfolding put_service_def Let_def p by simp
    show ?thesis using Some eq by (auto simp: find_key_update_first)
  qed
qed

text \<open>What the mutations do to the group they address, and to the others.\<close>

lemma dc_lookup_in_group:
  assumes "\<And>g. sg_name (f g) = sg_name g"
  shows "dc_lookup (dc\<lparr>dc_service_groups := update_first (\<lambda>g. sg_name g = grp) f (dc_service_groups dc)\<rparr>) grp' k =
    (if grp' = grp
     then Option.bind (find (\<lambda>g. sg_name g = grp) (dc_service_groups dc))
            (\<lambda>g. find (same_instance (fst k) (snd k)) (sg_services (f g)))
     else dc_lookup dc grp' k)"
  using assms
  by (auto simp: dc_lookup_def find_key_update_first bind_map_option o_def)

lemma dc_lookup_bump [simp]: "dc_lookup (bump_version dc) = dc_lookup dc"
  by (intro ext) (simp add: dc_lookup_def)

lemma dc_lookup_put:
  "dc_lookup (dc_put dc grp s) grp' k = (if grp' = grp \<and> k = svc_key s then Some s else dc_lookup dc grp' k)"
proof (cases "find (\<lambda>g. sg_name g = grp) (dc_service_groups dc)")
  case None
  then show ?thesis
    by (auto simp: dc_put_def upsert_service_def Let_def dc_lookup_def find_append_case
        same_instance_key svc_key_def split: option.splits)
next
  case (Some g)
  then show ?thesis
    by (auto simp: dc_put_def upsert_service_def Let_def dc_lookup_def same_instance_pred
        find_put_service find_key_update_first)
qed

lemma length_filter_eq: "length (filter p xs) = length xs \<longleftrightarrow> (\<forall>x \<in> set xs. p x)"
  by (metis filter_True length_filter_less nat_neq_iff)

lemma dc_drop_None: "dc_drop dc grp k = None \<longleftrightarrow> dc_lookup dc grp k = None"
proof (cases "find (\<lambda>g. sg_name g = grp) (dc_service_groups dc)")
  case None
  then show ?thesis by (simp add: dc_drop_def remove_service_def dc_lookup_def)
next
  case (Some g)
  then show ?thesis
    by (auto simp: dc_drop_def remove_service_def Let_def dc_lookup_def length_filter_eq find_None_iff
        same_instance_key)
qed

lemma dc_lookup_drop:
  assumes "dc_drop dc grp k = Some dc'"
  shows "dc_lookup dc' grp' k' = (if grp' = grp \<and> k' = k then None else dc_lookup dc grp' k')"
proof -
  obtain g where g: "find (\<lambda>g. sg_name g = grp) (dc_service_groups dc) = Some g"
    using assms by (auto simp: dc_drop_def remove_service_def split: option.splits)
  let ?kept = "filter (\<lambda>s. svc_key s \<noteq> k) (sg_services g)"
  have "dc' = bump_version (dc\<lparr>dc_service_groups :=
      update_first (\<lambda>g. sg_name g = grp) (\<lambda>g. g\<lparr>sg_services := ?kept\<rparr>) (dc_service_groups dc)\<rparr>)"
    using assms g
    by (auto simp: dc_drop_def remove_service_def Let_def same_instance_pred split: if_splits)
  with g show ?thesis
    by (auto simp: dc_lookup_def find_key_update_first same_instance_pred find_key_filter)
qed

interpretation dcat: service_catalog dc_lookup dc_put dc_drop svc_key
  by unfold_locales (simp_all add: dc_lookup_put dc_drop_None dc_lookup_drop)

section \<open>Well-formedness is kept by every mutation\<close>

lemma svc_key_update_name [simp]: "svc_key (s\<lparr>svc_name := n\<rparr>) = (n, svc_node_id s)"
  by (simp add: svc_key_def)

lemma put_service_keys:
  "map svc_key (put_service svc ss) =
     (if svc_key svc \<in> svc_key ` set ss then map svc_key ss else map svc_key ss @ [svc_key svc])"
proof -
  have p: "same_instance (svc_name svc) (svc_node_id svc) = (\<lambda>s. svc_key s = svc_key svc)"
    by (simp add: same_instance_pred svc_key_def)
  show ?thesis
  proof (cases "find (\<lambda>s. svc_key s = svc_key svc) ss")
    case None
    then have "svc_key svc \<notin> svc_key ` set ss" by (auto simp: find_None_iff)
    with None show ?thesis unfolding put_service_def Let_def p by simp
  next
    case (Some y)
    then have "y \<in> set ss" "svc_key y = svc_key svc" by (auto dest: find_set)
    then have "svc_key svc \<in> svc_key ` set ss" by (metis imageI)
    moreover have "map svc_key (update_first (\<lambda>s. svc_key s = svc_key svc) (\<lambda>_. svc) ss) = map svc_key ss"
      by (rule map_update_first) simp
    ultimately show ?thesis
      unfolding put_service_def Let_def p using Some by simp
  qed
qed

lemma group_wf_put: "group_wf g \<Longrightarrow> group_wf (g\<lparr>sg_services := put_service svc (sg_services g)\<rparr>)"
  by (auto simp: group_wf_def put_service_keys)

lemma group_wf_filter: "group_wf g \<Longrightarrow> group_wf (g\<lparr>sg_services := filter p (sg_services g)\<rparr>)"
  by (auto simp: group_wf_def distinct_map_filter)

lemma group_wf_rename:
  assumes "group_wf g" and "(to, node) \<notin> svc_key ` set (sg_services g)"
  shows "group_wf (g\<lparr>sg_services := update_first (same_instance from node) (\<lambda>s. s\<lparr>svc_name := to\<rparr>) (sg_services g)\<rparr>)"
proof (cases "find (same_instance from node) (sg_services g)")
  case None
  then show ?thesis using assms(1) by (simp add: find_None_iff update_first_none)
next
  case (Some s)
  from update_first_split [OF Some, of "\<lambda>s. s\<lparr>svc_name := to\<rparr>"] obtain us vs where
    "sg_services g = us @ s # vs" "svc_node_id s = node"
    "update_first (same_instance from node) (\<lambda>s. s\<lparr>svc_name := to\<rparr>) (sg_services g) = us @ s\<lparr>svc_name := to\<rparr> # vs"
    by (auto simp: same_instance_def)
  then show ?thesis using assms by (auto simp: group_wf_def)
qed

lemma dc_wf_update_group:
  assumes wf: "dc_wf dc"
    and f: "\<And>g. g \<in> set (dc_service_groups dc) \<Longrightarrow> sg_name g = grp \<Longrightarrow> group_wf (f g)"
    and n: "\<And>g. sg_name (f g) = sg_name g"
  shows "dc_wf (dc\<lparr>dc_service_groups := update_first (\<lambda>g. sg_name g = grp) f (dc_service_groups dc)\<rparr>)"
  using wf f set_update_first_subset [of "\<lambda>g. sg_name g = grp" f "dc_service_groups dc"]
  by (auto simp: dc_wf_def map_update_first n)

lemma dc_wf_bump [simp]: "dc_wf (bump_version dc) = dc_wf dc"
  by (simp add: dc_wf_def)

lemma dc_wf_put: "dc_wf dc \<Longrightarrow> dc_wf (fst (upsert_service dc grp s))"
proof (cases "find (\<lambda>g. sg_name g = grp) (dc_service_groups dc)")
  case None
  assume "dc_wf dc"
  with None have "dc_wf (dc\<lparr>dc_service_groups := dc_service_groups dc @ [\<lparr>sg_name = grp, sg_services = [s]\<rparr>]\<rparr>)"
    by (auto simp: dc_wf_def group_wf_def find_None_iff)
  with None show ?thesis by (simp add: upsert_service_def Let_def)
next
  case (Some g)
  assume "dc_wf dc"
  then have "dc_wf (dc\<lparr>dc_service_groups := update_first (\<lambda>g. sg_name g = grp)
      (\<lambda>g. g\<lparr>sg_services := put_service s (sg_services g)\<rparr>) (dc_service_groups dc)\<rparr>)"
    by (intro dc_wf_update_group) (auto simp: group_wf_put dc_wf_def)
  with Some show ?thesis by (simp add: upsert_service_def Let_def)
qed

lemma dc_wf_remove: "dc_wf dc \<Longrightarrow> remove_service dc grp node name = Inr (dc', v) \<Longrightarrow> dc_wf dc'"
  by (auto simp: remove_service_def Let_def split: option.splits if_splits
      intro!: dc_wf_update_group dest!: find_set)
    (auto simp: dc_wf_def group_wf_def distinct_map_filter)

lemma dc_wf_rename:
  assumes wf: "dc_wf dc" and r: "rename_service dc grp node from to = Inr (dc', v)"
  shows "dc_wf dc'"
proof -
  obtain g where g: "find (\<lambda>g. sg_name g = grp) (dc_service_groups dc) = Some g"
    using r by (auto simp: rename_service_def split: option.splits)
  let ?ss = "update_first (same_instance from node) (\<lambda>s. s\<lparr>svc_name := to\<rparr>) (sg_services g)"
  have new: "(to, node) \<notin> svc_key ` set (sg_services g)"
    and dc': "dc' = bump_version (dc\<lparr>dc_service_groups :=
      update_first (\<lambda>g. sg_name g = grp) (\<lambda>g. g\<lparr>sg_services := ?ss\<rparr>) (dc_service_groups dc)\<rparr>)"
    using r g by (auto simp: rename_service_def Let_def same_instance_key split: if_splits)
  have "group_wf g" using wf find_set [OF g] by (simp add: dc_wf_def)
  with new have "group_wf (g\<lparr>sg_services := ?ss\<rparr>)" by (rule group_wf_rename [rotated])
  then have "group_wf (h\<lparr>sg_services := ?ss\<rparr>)" for h :: ServiceGroup
    by (simp add: group_wf_def)
  with wf show ?thesis unfolding dc' by (simp add: dc_wf_update_group)
qed

lemma dc_wf_set_routes: "dc_wf dc \<Longrightarrow> set_routes lib dc service routes = Inr (dc', v) \<Longrightarrow> dc_wf dc'"
  by (auto simp: set_routes_def Let_def loop_simps dc_wf_def)

lemmas dc_wf_kept [keep_intros] = dc_wf_put dc_wf_remove dc_wf_rename dc_wf_set_routes

text \<open>Renaming the one instance with a key moves it to the new key.\<close>

lemma renamed_lookup:
  assumes wf: "distinct (map svc_key ss)" and s: "find (\<lambda>s. svc_key s = (from, node)) ss = Some s"
    and new: "find (\<lambda>s. svc_key s = (to, node)) ss = None"
  shows "find (\<lambda>s. svc_key s = k) (update_first (\<lambda>s. svc_key s = (from, node)) (\<lambda>s. s\<lparr>svc_name := to\<rparr>) ss) =
    (if k = (to, node) then Some (s\<lparr>svc_name := to\<rparr>) else if k = (from, node) then None
     else find (\<lambda>s. svc_key s = k) ss)"
proof -
  obtain us vs where ss: "ss = us @ s # vs" and k: "svc_key s = (from, node)"
    and upd: "update_first (\<lambda>s. svc_key s = (from, node)) (\<lambda>s. s\<lparr>svc_name := to\<rparr>) ss = us @ s\<lparr>svc_name := to\<rparr> # vs"
    using update_first_split [OF s, of "\<lambda>s. s\<lparr>svc_name := to\<rparr>"] by blast
  have node: "svc_node_id s = node" using k by (simp add: svc_key_def)
  have out: "find (\<lambda>s. svc_key s = (to, node)) us = None" "find (\<lambda>s. svc_key s = (from, node)) us = None"
    "find (\<lambda>s. svc_key s = (from, node)) vs = None"
    using new wf k by (auto simp: ss find_None_iff) (metis imageI)+
  show ?thesis
    using out k node by (auto simp: ss upd [unfolded ss] find_append_case split: option.splits)
qed

section \<open>Routes\<close>

lemma filter_split_first:
  "position p xs = Some i \<Longrightarrow> take i (filter (\<lambda>x. \<not> p x) xs) = takeWhile (\<lambda>x. \<not> p x) xs
     \<and> drop i (filter (\<lambda>x. \<not> p x) xs) = filter (\<lambda>x. \<not> p x) (dropWhile (\<lambda>x. \<not> p x) xs)
     \<and> i \<le> length (filter (\<lambda>x. \<not> p x) xs)"
  by (induction xs arbitrary: i) (auto split: if_splits)

text \<open>New routes take the place of the service's first old route, or go to the end.\<close>

lemma set_routes_layout:
  assumes "set_routes lib dc service routes = Inr (dc', v)"
  shows "dc_routes dc' = takeWhile (\<lambda>r. rt_service r \<noteq> service) (dc_routes dc) @ routes
    @ filter (\<lambda>r. rt_service r \<noteq> service) (dropWhile (\<lambda>r. rt_service r \<noteq> service) (dc_routes dc))"
proof (cases "position (\<lambda>r. rt_service r = service) (dc_routes dc)")
  case None
  then have "\<forall>r \<in> set (dc_routes dc). rt_service r \<noteq> service" by (simp add: position_None)
  with assms None show ?thesis
    by (auto simp: set_routes_def Let_def loop_simps splice_def takeWhile_eq_all_conv [THEN iffD2]
        dropWhile_eq_Nil_conv [THEN iffD2])
next
  case (Some i)
  with assms filter_split_first [OF Some] show ?thesis
    by (auto simp: set_routes_def Let_def loop_simps splice_def min_def)
qed

lemma validate_route_at_ok: "validate_route_at lib service i r = Inr () \<longleftrightarrow> route_ok lib service r"
  unfolding validate_route_at_def route_ok_def Let_def
  by (cases "rm_path_prefix (rt_matches r)"; cases "rm_method (rt_matches r)")
    (auto simp only: try_each_ok option.case simp_thms if_True if_False option.inject option.distinct
      sum.distinct set_map list.set bex_simps ball_simps not_False_eq_True option.sel split: if_split)

lemma validate_routes_ok: "validate_routes lib service routes = Inr u \<longleftrightarrow> (\<forall>r \<in> set routes. route_ok lib service r)"
proof -
  have "validate_routes lib service routes = Inr u
      \<longleftrightarrow> (\<forall>(i, r) \<in> set (enumerate 0 routes). route_ok lib service r)"
    by (simp add: validate_routes_def try_each_ok split_def validate_route_at_ok)
  also have "\<dots> \<longleftrightarrow> (\<forall>r \<in> set (map snd (enumerate 0 routes)). route_ok lib service r)"
    by (auto simp del: map_snd_enumerate)
  finally show ?thesis by simp
qed

lemma set_routes_named:
  "validate_routes lib service routes = Inr () \<Longrightarrow> r \<in> set routes \<Longrightarrow> rt_service r = service"
  by (simp add: validate_routes_ok route_ok_def)

lemma set_routes_valid: "set_routes lib dc service routes = Inr r \<Longrightarrow> validate_routes lib service routes = Inr ()"
  by (auto simp: set_routes_def Let_def loop_simps)

lemma set_routes_frame:
  assumes "set_routes lib dc service routes = Inr (dc', v)"
  shows "v = dc_version dc + 1" and "dc_version dc' = v"
    and "dc_service_groups dc' = dc_service_groups dc"
  using assms by (auto simp: set_routes_def Let_def loop_simps)

lemma validate_route_target_ok: "validate_route_target dc service = Inr u \<longleftrightarrow> routable dc service"
  by (auto simp: validate_route_target_def routable_def Let_def filter_empty_conv)

lemma filter_other_services:
  "takeWhile p xs @ filter p (dropWhile p xs) = filter p xs"
  "filter p (takeWhile p xs) = takeWhile p xs"
  "filter (\<lambda>x. \<not> p x) (takeWhile p xs) = []"
  by (induction xs) auto

section \<open>Properties of the mutations\<close>

text \<open>
  Inserting or replacing a service instance: afterwards a lookup of its group, name and node
  finds exactly it, every other instance is found as before, the routes are untouched, and the
  version is the old one plus one, which is also the version returned.
\<close>

theorem upsert_service_spec:
  "case upsert_service dc grp s of (dc', v) \<Rightarrow>
     v = dc_version dc + 1 \<and> dc_version dc' = v \<and> dc_routes dc' = dc_routes dc \<and>
     dc_lookup dc' = (dc_lookup dc)(grp := (dc_lookup dc grp)(svc_key s \<mapsto> s))"
proof -
  obtain dc' v where u: "upsert_service dc grp s = (dc', v)" by fastforce
  have "dc_lookup dc' grp' k = ((dc_lookup dc)(grp := (dc_lookup dc grp)(svc_key s \<mapsto> s))) grp' k" for grp' k
    using dcat.lookup_put [of dc grp s grp' k] by (simp add: dc_put_def u)
  then have "dc_lookup dc' = (dc_lookup dc)(grp := (dc_lookup dc grp)(svc_key s \<mapsto> s))"
    by (intro ext)
  moreover have "v = dc_version dc + 1 \<and> dc_version dc' = v \<and> dc_routes dc' = dc_routes dc"
    using u by (auto simp: upsert_service_def Let_def)
  ultimately show ?thesis by (simp add: u)
qed

text \<open>
  Removing a service instance fails exactly when it is not there, with the error that says
  which of group and instance is missing; otherwise that instance is gone, every other one is
  found as before, the routes are untouched and the version is one higher.
\<close>

theorem remove_service_spec:
  "case remove_service dc grp node name of
     Inl e \<Rightarrow> dc_lookup dc grp (name, node) = None \<and>
       e = (if grp \<in> sg_name ` set (dc_service_groups dc)
            then ServiceNotFound grp node name else GroupNotFound grp)
   | Inr (dc', v) \<Rightarrow> dc_lookup dc grp (name, node) \<noteq> None \<and>
       v = dc_version dc + 1 \<and> dc_version dc' = v \<and> dc_routes dc' = dc_routes dc \<and>
       dc_lookup dc' = (dc_lookup dc)(grp := (dc_lookup dc grp)((name, node) := None))"
proof (cases "remove_service dc grp node name")
  case (Inl e)
  then have "dc_drop dc grp (name, node) = None" by (simp add: dc_drop_def)
  with Inl show ?thesis
    by (auto simp: dcat.drop_None remove_service_def Let_def find_None_iff
        split: option.splits if_splits dest: find_set)
next
  case (Inr r)
  obtain dc' v where r: "r = (dc', v)" by (cases r)
  then have d: "dc_drop dc grp (name, node) = Some dc'" using Inr by (simp add: dc_drop_def)
  then have "dc_lookup dc grp (name, node) \<noteq> None"
    using dcat.drop_None [of dc grp "(name, node)"] by simp
  moreover have "dc_lookup dc' = (dc_lookup dc)(grp := (dc_lookup dc grp)((name, node) := None))"
    by (intro ext) (simp add: dcat.lookup_drop [OF d])
  ultimately show ?thesis
    using Inr r by (auto simp: remove_service_def Let_def split: option.splits if_splits)
qed

text \<open>
  Renaming a service instance in a configuration with unique instances. It fails when the
  group is missing, when the new name is already taken on that node, or when the old name is not
  there; otherwise the instance is found under the new name with every other field unchanged, no
  longer under the old one, all other instances are found as before, and the version is one
  higher.
\<close>

theorem rename_service_spec:
  assumes "dc_wf dc"
  shows "case rename_service dc grp node from to of
     Inl e \<Rightarrow>
       e = (if grp \<notin> sg_name ` set (dc_service_groups dc) then GroupNotFound grp
            else if dc_lookup dc grp (to, node) \<noteq> None then DuplicateService grp node to
            else ServiceNotFound grp node from) \<and>
       (dc_lookup dc grp (to, node) \<noteq> None \<or> dc_lookup dc grp (from, node) = None)
   | Inr (dc', v) \<Rightarrow> dc_lookup dc grp (to, node) = None \<and>
       (\<exists>s. dc_lookup dc grp (from, node) = Some s \<and>
         dc_lookup dc' = (dc_lookup dc)(grp := (dc_lookup dc grp)
           ((from, node) := None, (to, node) \<mapsto> s\<lparr>svc_name := to\<rparr>))) \<and>
       v = dc_version dc + 1 \<and> dc_version dc' = v \<and> dc_routes dc' = dc_routes dc"
proof (cases "find (\<lambda>g. sg_name g = grp) (dc_service_groups dc)")
  case None
  then have "rename_service dc grp node from to = Inl (GroupNotFound grp)"
    by (simp add: rename_service_def)
  moreover have "grp \<notin> sg_name ` set (dc_service_groups dc)"
    using None by (auto simp: find_None_iff)
  ultimately show ?thesis using None by (simp add: dc_lookup_def)
next
  case (Some g)
  have g: "g \<in> set (dc_service_groups dc)" "sg_name g = grp" using find_set [OF Some] by auto
  then have wf: "distinct (map svc_key (sg_services g))"
    using assms by (simp add: dc_wf_def group_wf_def)
  have lk: "dc_lookup dc grp k = find (\<lambda>s. svc_key s = k) (sg_services g)" for k
    by (simp add: dc_lookup_def Some same_instance_pred)
  have dup: "(\<exists>s \<in> set (sg_services g). same_instance to node s) \<longleftrightarrow> dc_lookup dc grp (to, node) \<noteq> None"
    by (auto simp: lk find_None_iff same_instance_key)
  have fnd: "find (same_instance from node) (sg_services g) = dc_lookup dc grp (from, node)"
    by (simp add: lk same_instance_pred)
  show ?thesis
  proof (cases "dc_lookup dc grp (to, node) \<noteq> None \<or> dc_lookup dc grp (from, node) = None")
    case True
    then show ?thesis using g Some by (auto simp: rename_service_def dup fnd)
  next
    case False
    then obtain s where s: "find (\<lambda>s. svc_key s = (from, node)) (sg_services g) = Some s"
      and new: "dc_lookup dc grp (to, node) = None" by (auto simp: lk)
    let ?ss = "update_first (\<lambda>s. svc_key s = (from, node)) (\<lambda>s. s\<lparr>svc_name := to\<rparr>) (sg_services g)"
    let ?dc = "dc\<lparr>dc_service_groups :=
      update_first (\<lambda>g. sg_name g = grp) (\<lambda>g. g\<lparr>sg_services := ?ss\<rparr>) (dc_service_groups dc)\<rparr>"
    have r: "rename_service dc grp node from to = Inr (bump_version ?dc, dc_version dc + 1)"
      using new s lk [of "(from, node)"] unfolding rename_service_def Some
      by (simp add: dup [unfolded same_instance_pred] Let_def same_instance_pred)
    have ss: "find (\<lambda>s. svc_key s = k) ?ss = ((dc_lookup dc grp)
        ((from, node) := None, (to, node) \<mapsto> s\<lparr>svc_name := to\<rparr>)) k" for k
      using renamed_lookup [OF wf s] new by (simp add: lk fun_upd_def)
    have "dc_lookup ?dc grp' k = ((dc_lookup dc)(grp := (dc_lookup dc grp)
        ((from, node) := None, (to, node) \<mapsto> s\<lparr>svc_name := to\<rparr>))) grp' k" for grp' k
      using Some ss [of k] by (auto simp: dc_lookup_in_group same_instance_pred)
    then have "dc_lookup ?dc = (dc_lookup dc)(grp := (dc_lookup dc grp)
        ((from, node) := None, (to, node) \<mapsto> s\<lparr>svc_name := to\<rparr>))"
      by (intro ext)
    with r new s show ?thesis by (simp add: lk)
  qed
qed

theorem rename_service_spec_witness:
  "dc_wf sample_dc \<and>
   (\<exists>dc' v. rename_service sample_dc ''web'' ''n1'' ''api'' ''shop'' = Inr (dc', v) \<and>
      dc_lookup dc' ''web'' (''shop'', ''n1'') = Some (sample_service ''shop'' ''n1''))"
proof -
  have wf: "dc_wf sample_dc"
    by (simp add: dc_wf_def group_wf_def sample_dc_def svc_key_def sample_service_def)
  have "\<exists>dc' v. rename_service sample_dc ''web'' ''n1'' ''api'' ''shop'' = Inr (dc', v)"
    by (simp add: rename_service_def sample_dc_def sample_service_def same_instance_def Let_def)
  then obtain dc' v where r: "rename_service sample_dc ''web'' ''n1'' ''api'' ''shop'' = Inr (dc', v)"
    by blast
  have "dc_lookup sample_dc ''web'' (''api'', ''n1'') = Some (sample_service ''api'' ''n1'')"
    by (simp add: dc_lookup_def sample_dc_def sample_service_def same_instance_def)
  with rename_service_spec [OF wf, of "''web''" "''shop''" "''n1''" "''api''"] wf r show ?thesis
    by (auto simp: sample_service_def)
qed

text \<open>
  Replacing the routes of a service. It is rejected, as invalid, when a new route is
  malformed or when there are new routes and the service is unknown or has an instance that does
  not speak HTTP. Otherwise the service's routes are exactly the new list, the other services'
  routes keep their order, and the new ones stand where the service's first old route stood (at
  the end when it had none); services are untouched and the version is one higher.
\<close>

theorem set_routes_spec:
  "case set_routes lib dc service routes of
     Inl e \<Rightarrow> (\<exists>msg. e = Invalid msg) \<and>
       \<not> (list_all (route_ok lib service) routes \<and> (routes = [] \<or> routable dc service))
   | Inr (dc', v) \<Rightarrow>
       list_all (route_ok lib service) routes \<and> (routes = [] \<or> routable dc service) \<and>
       v = dc_version dc + 1 \<and> dc_version dc' = v \<and> dc_service_groups dc' = dc_service_groups dc \<and>
       filter (\<lambda>r. rt_service r = service) (dc_routes dc') = routes \<and>
       filter (\<lambda>r. rt_service r \<noteq> service) (dc_routes dc') = filter (\<lambda>r. rt_service r \<noteq> service) (dc_routes dc) \<and>
       (\<exists>rest. dc_routes dc' = takeWhile (\<lambda>r. rt_service r \<noteq> service) (dc_routes dc) @ routes @ rest)"
proof (cases "set_routes lib dc service routes")
  case (Inl e)
  then show ?thesis
    using validate_routes_ok [of lib service routes "()"] validate_route_target_ok [of dc service "()"]
    by (auto simp: set_routes_def Let_def try_then_def map_err_def list_all_iff
        split: sum.splits if_splits)
next
  case (Inr r)
  obtain dc' v where r: "set_routes lib dc service routes = Inr (dc', v)" using Inr by (cases r) simp
  have ok: "list_all (route_ok lib service) routes"
    using set_routes_valid [OF r] by (simp add: validate_routes_ok list_all_iff)
  have tgt: "routes = [] \<or> routable dc service"
    using r by (auto simp: set_routes_def loop_simps validate_route_target_ok split: if_splits)
  have mine: "filter (\<lambda>r. rt_service r = service) routes = routes"
    "filter (\<lambda>r. rt_service r \<noteq> service) routes = []"
    using ok by (auto simp: list_all_iff route_ok_def filter_id_conv)
  have pre: "filter (\<lambda>r. rt_service r = service) (takeWhile (\<lambda>r. rt_service r \<noteq> service) rs) = []" for rs
    by (auto simp: filter_empty_conv dest: set_takeWhileD)
  show ?thesis
    using r ok tgt set_routes_frame [OF r] set_routes_layout [OF r] mine
    by (auto simp: filter_other_services pre)
qed

text \<open>
  Inserting an instance that was not there and removing it again restores every lookup and
  every route.
\<close>

theorem upsert_then_remove:
  assumes "dc_lookup dc grp (svc_key s) = None"
  shows "\<exists>dc' v. remove_service (fst (upsert_service dc grp s)) grp (svc_node_id s) (svc_name s) = Inr (dc', v)
    \<and> dc_lookup dc' = dc_lookup dc \<and> dc_routes dc' = dc_routes dc"
proof -
  obtain dc' where d: "dc_drop (dc_put dc grp s) grp (svc_key s) = Some dc'" "dc_lookup dc' = dc_lookup dc"
    using dcat.drop_after_put [OF assms] by blast
  then obtain v where r: "remove_service (fst (upsert_service dc grp s)) grp (svc_node_id s) (svc_name s) = Inr (dc', v)"
    by (auto simp: dc_drop_def dc_put_def svc_key_def split: sum.splits)
  then have "dc_routes dc' = dc_routes dc"
    by (auto simp: remove_service_def upsert_service_def Let_def split: option.splits if_splits)
  with r d(2) show ?thesis by blast
qed

theorem upsert_then_remove_witness:
  "\<exists>dc' v. remove_service (fst (upsert_service sample_dc ''web'' (sample_service ''db'' ''n1''))) ''web'' ''n1'' ''db''
     = Inr (dc', v) \<and> dc_lookup dc' = dc_lookup sample_dc \<and> dc_routes dc' = []"
proof -
  have "dc_lookup sample_dc ''web'' (svc_key (sample_service ''db'' ''n1'')) = None"
    by (simp add: dc_lookup_def sample_dc_def sample_service_def same_instance_def svc_key_def)
  from upsert_then_remove [OF this] show ?thesis
    by (simp add: sample_service_def sample_dc_def)
qed

end
