(* ===== verification/Config_Validation.thy ===== *)
theory Config_Validation
  imports Config_Catalog
begin

text \<open>
  \<^verbatim>\<open>Config::validate\<close> of \<^verbatim>\<open>src/config.rs\<close>: the loops over groups, instances and
  domains, over the routed services, over the reserved and the pinned ports, and the mode checks,
  each with the source's error message. \<open>config_valid\<close> states the same constraints without
  any loop or accumulator, and the equivalence theorem shows that the loops decide exactly it.
  The second half of the theory relates validity to the mutations of the configuration.
\<close>

section \<open>Validation\<close>

definition claim_domain ::
  "string \<Rightarrow> string \<Rightarrow> (string \<rightharpoonup> string) \<Rightarrow> string \<Rightarrow> string + (string \<rightharpoonup> string)" where
  "claim_domain grp name owners domain =
     (case owners domain of
        Some owner \<Rightarrow>
          if owner \<noteq> name
          then Inl (''domain '' @ quoted domain @ '' is claimed by both '' @ quoted owner
                      @ '' and '' @ quoted (grp @ ''/'' @ name))
          else Inr (owners(domain \<mapsto> name))
      | None \<Rightarrow> Inr (owners(domain \<mapsto> name)))"

definition check_service ::
  "string \<Rightarrow> (string \<times> string) set \<times> (string \<rightharpoonup> string) \<Rightarrow> Service
     \<Rightarrow> string + (string \<times> string) set \<times> (string \<rightharpoonup> string)" where
  "check_service grp st svc =
     (case st of (instances, owners) \<Rightarrow>
        if (svc_node_id svc, svc_name svc) \<in> instances
        then Inl (''duplicate service '' @ quoted (svc_name svc) @ '' on node ''
                    @ quoted (svc_node_id svc) @ '' in group '' @ quoted grp)
        else try_then
          (case svc_health_path svc of
             Some path \<Rightarrow>
               map_err (\<lambda>e. ''service '' @ quoted (grp @ ''/'' @ svc_name svc) @ '' on node ''
                              @ quoted (svc_node_id svc) @ '': '' @ e) (validate_health_path path)
           | None \<Rightarrow> Inr ()) (\<lambda>_.
        try_then (try_fold (claim_domain grp (svc_name svc)) owners (svc_domains svc)) (\<lambda>owners'.
          Inr (insert (svc_node_id svc, svc_name svc) instances, owners'))))"

definition check_group ::
  "string set \<times> (string \<rightharpoonup> string) \<Rightarrow> ServiceGroup \<Rightarrow> string + string set \<times> (string \<rightharpoonup> string)" where
  "check_group st grp =
     (case st of (group_names, owners) \<Rightarrow>
        if sg_name grp \<in> group_names
        then Inl (''duplicate service group name: '' @ quoted (sg_name grp))
        else try_then (try_fold (check_service (sg_name grp)) ({}, owners) (sg_services grp))
               (\<lambda>(_, owners'). Inr (insert (sg_name grp) group_names, owners')))"

definition check_routed :: "http_lib \<Rightarrow> DynamicConfig \<Rightarrow> string \<Rightarrow> string + unit" where
  "check_routed lib dc service =
     try_then (validate_route_target dc service) (\<lambda>_.
       validate_routes lib service (filter (\<lambda>r. rt_service r = service) (dc_routes dc)))"

definition subscribes :: "Config \<Rightarrow> bool" where
  "subscribes cfg \<longleftrightarrow> cfg_mode cfg = Subscribe \<or> cfg_mode cfg = NodeSubscribe"

definition reserved_ports :: "Config \<Rightarrow> string + (u16 \<rightharpoonup> string)" where
  "reserved_ports cfg =
     (let owners0 = (if subscribes cfg then [api_port cfg \<mapsto> ''the REST API (apiPort)''] else Map.empty) in
      case cfg_http_listen cfg of
        None \<Rightarrow> Inr owners0
      | Some listen \<Rightarrow>
          (case parse_socket_addr listen of
             None \<Rightarrow> Inl (''httpListen '' @ quoted listen
                           @ '' is not an address like 127.0.0.1:15001: invalid socket address syntax'')
           | Some addr \<Rightarrow>
               let owners1 = (if ip_is_loopback (sa_ip addr) \<or> ip_is_unspecified (sa_ip addr)
                              then owners0(sa_port addr \<mapsto> ''httpListen'') else owners0) in
               if \<not> subscribes cfg
               then Inl ''`httpListen` is only valid in subscribe or nodeSubscribe mode''
               else Inr owners1))"

definition check_local_port ::
  "DynamicConfig \<Rightarrow> (u16 \<rightharpoonup> string) \<Rightarrow> string \<Rightarrow> string + (u16 \<rightharpoonup> string)" where
  "check_local_port dc owners name =
     try_then (local_port_for dc name) (\<lambda>p.
       case p of
         None \<Rightarrow> Inr owners
       | Some port \<Rightarrow>
           if port = 0 then Inl (''localPort of '' @ quoted name @ '' must not be 0'')
           else (case owners port of
                   Some other \<Rightarrow> Inl (''localPort '' @ dec_string (unat port) @ '' of '' @ quoted name
                                       @ '' is already used by '' @ other)
                 | None \<Rightarrow> Inr (owners(port \<mapsto> name))))"

definition validate :: "http_lib \<Rightarrow> Config \<Rightarrow> string + unit" where
  "validate lib cfg =
     (let dc = cfg_dynamic_config cfg in
      try_then (try_fold check_group ({}, Map.empty) (dc_service_groups dc)) (\<lambda>_.
      try_then (try_each (check_routed lib dc) (remdups_adj (sort (map rt_service (dc_routes dc))))) (\<lambda>_.
      try_then (reserved_ports cfg) (\<lambda>owners.
      try_then (try_fold (check_local_port dc) owners
                  (remdups_adj (sort (map svc_name (all_services dc))))) (\<lambda>_.
      try_then (case cfg_tracing cfg of Some t \<Rightarrow> tracing_validate lib t | None \<Rightarrow> Inr ()) (\<lambda>_.
        if cfg_subscribe_filter cfg \<noteq> None \<and> \<not> subscribes cfg
        then Inl ''`subscribeFilter` is only valid in subscribe or nodeSubscribe mode''
        else Inr ()))))))"


section \<open>What a valid configuration is\<close>

definition health_path_ok :: "Service \<Rightarrow> bool" where
  "health_path_ok s \<longleftrightarrow> (\<forall>p. svc_health_path s = Some p \<longrightarrow> validate_health_path p = Inr ())"

definition domains_agree :: "Service list \<Rightarrow> bool" where
  "domains_agree ss \<longleftrightarrow> (\<forall>s \<in> set ss. \<forall>t \<in> set ss. \<forall>d \<in> set (svc_domains s).
     d \<in> set (svc_domains t) \<longrightarrow> svc_name s = svc_name t)"

definition routes_valid :: "http_lib \<Rightarrow> DynamicConfig \<Rightarrow> bool" where
  "routes_valid lib dc \<longleftrightarrow>
     (\<forall>r \<in> set (dc_routes dc). routable dc (rt_service r) \<and> route_ok lib (rt_service r) r)"

definition local_ports_agree :: "Service list \<Rightarrow> bool" where
  "local_ports_agree ss \<longleftrightarrow> (\<forall>s \<in> set ss. \<forall>t \<in> set ss. \<forall>p q.
     svc_local_port s = Some p \<longrightarrow> svc_local_port t = Some q \<longrightarrow> (p = q \<longleftrightarrow> svc_name s = svc_name t))"

definition port_reserved :: "Config \<Rightarrow> u16 \<Rightarrow> bool" where
  "port_reserved cfg p \<longleftrightarrow> (subscribes cfg \<and> p = api_port cfg) \<or>
     (\<exists>listen addr. cfg_http_listen cfg = Some listen \<and> parse_socket_addr listen = Some addr \<and>
        (ip_is_loopback (sa_ip addr) \<or> ip_is_unspecified (sa_ip addr)) \<and> p = sa_port addr)"

definition config_valid :: "http_lib \<Rightarrow> Config \<Rightarrow> bool" where
  "config_valid lib cfg \<longleftrightarrow>
     (let dc = cfg_dynamic_config cfg; ss = all_services dc in
      dc_wf dc \<and> (\<forall>s \<in> set ss. health_path_ok s) \<and> domains_agree ss \<and> routes_valid lib dc \<and>
      (\<forall>listen. cfg_http_listen cfg = Some listen \<longrightarrow> subscribes cfg \<and> parse_socket_addr listen \<noteq> None) \<and>
      local_ports_agree ss \<and>
      (\<forall>s \<in> set ss. \<forall>p. svc_local_port s = Some p \<longrightarrow> p \<noteq> 0 \<and> \<not> port_reserved cfg p) \<and>
      (\<forall>t. cfg_tracing cfg = Some t \<longrightarrow> tracing_validate lib t = Inr ()) \<and>
      (cfg_subscribe_filter cfg \<noteq> None \<longrightarrow> subscribes cfg))"

section \<open>The loop over groups, instances and domains\<close>

definition claimed :: "string \<Rightarrow> string list \<Rightarrow> (string \<rightharpoonup> string) \<Rightarrow> (string \<rightharpoonup> string)" where
  "claimed name ds owners = (\<lambda>d. if d \<in> set ds then Some name else owners d)"

fun claim_all :: "(string \<rightharpoonup> string) \<Rightarrow> Service list \<Rightarrow> (string \<rightharpoonup> string)" where
  "claim_all owners [] = owners"
| "claim_all owners (s # ss) = claim_all (claimed (svc_name s) (svc_domains s) owners) ss"

definition unclaimed_by_others :: "(string \<rightharpoonup> string) \<Rightarrow> Service \<Rightarrow> bool" where
  "unclaimed_by_others owners s \<longleftrightarrow>
     (\<forall>d \<in> set (svc_domains s). owners d = None \<or> owners d = Some (svc_name s))"

fun domains_ok :: "(string \<rightharpoonup> string) \<Rightarrow> Service list \<Rightarrow> bool" where
  "domains_ok owners [] = True"
| "domains_ok owners (s # ss) \<longleftrightarrow>
     unclaimed_by_others owners s \<and> domains_ok (claimed (svc_name s) (svc_domains s) owners) ss"

lemma claim_domain_ok:
  "claim_domain grp name owners d = Inr o' \<longleftrightarrow>
     (owners d = None \<or> owners d = Some name) \<and> o' = owners(d \<mapsto> name)"
  by (auto simp: claim_domain_def split: option.splits if_splits)

lemma claim_domains_ok:
  "try_fold (claim_domain grp name) owners ds = Inr o' \<longleftrightarrow>
     (\<forall>d \<in> set ds. owners d = None \<or> owners d = Some name) \<and> o' = claimed name ds owners"
proof (induction ds arbitrary: owners)
  case Nil
  then show ?case by (auto simp: claimed_def)
next
  case (Cons d ds)
  have "try_fold (claim_domain grp name) owners (d # ds) = Inr o' \<longleftrightarrow>
      (\<exists>o1. claim_domain grp name owners d = Inr o1 \<and> try_fold (claim_domain grp name) o1 ds = Inr o')"
    by (auto split: sum.splits)
  also have "\<dots> \<longleftrightarrow> (owners d = None \<or> owners d = Some name) \<and>
      try_fold (claim_domain grp name) (owners(d \<mapsto> name)) ds = Inr o'"
    by (auto simp: claim_domain_ok)
  also have "\<dots> \<longleftrightarrow> (\<forall>e \<in> set (d # ds). owners e = None \<or> owners e = Some name) \<and>
      o' = claimed name (d # ds) owners"
    unfolding Cons.IH by (auto simp: claimed_def fun_eq_iff)
  finally show ?case .
qed

lemma domains_agree_Cons:
  "domains_agree (s # ss) \<longleftrightarrow> domains_agree ss \<and>
     (\<forall>t \<in> set ss. \<forall>d \<in> set (svc_domains t). d \<in> set (svc_domains s) \<longrightarrow> svc_name t = svc_name s)"
  unfolding domains_agree_def list.set by (safe; (blast | metis insert_iff))

lemma unclaimed_after_claim:
  assumes "unclaimed_by_others owners s"
  shows "unclaimed_by_others (claimed (svc_name s) (svc_domains s) owners) t \<longleftrightarrow>
     unclaimed_by_others owners t \<and>
     (\<forall>d \<in> set (svc_domains t). d \<in> set (svc_domains s) \<longrightarrow> svc_name t = svc_name s)"
  using assms unfolding unclaimed_by_others_def claimed_def by (safe; (metis option.inject option.distinct(1)))

lemma domains_ok_iff: "domains_ok owners ss \<longleftrightarrow> (\<forall>s \<in> set ss. unclaimed_by_others owners s) \<and> domains_agree ss"
proof (induction ss arbitrary: owners)
  case Nil
  then show ?case by (simp add: domains_agree_def)
next
  case (Cons s ss)
  show ?case
  proof (cases "unclaimed_by_others owners s")
    case True
    then show ?thesis
      by (simp add: Cons.IH unclaimed_after_claim domains_agree_Cons ball_conj_distrib) blast
  qed simp
qed

lemma claim_all_append: "claim_all owners (xs @ ys) = claim_all (claim_all owners xs) ys"
  by (induction xs arbitrary: owners) auto

lemma domains_ok_append: "domains_ok owners (xs @ ys) \<longleftrightarrow> domains_ok owners xs \<and> domains_ok (claim_all owners xs) ys"
  by (induction xs arbitrary: owners) auto

lemma check_service_ok:
  "check_service grp (is, owners) s = Inr st \<longleftrightarrow>
     (svc_node_id s, svc_name s) \<notin> is \<and> health_path_ok s \<and> unclaimed_by_others owners s \<and>
     st = (insert (svc_node_id s, svc_name s) is, claimed (svc_name s) (svc_domains s) owners)"
  by (auto simp: check_service_def loop_simps claim_domains_ok health_path_ok_def unclaimed_by_others_def
      split: option.splits)

definition instance_of :: "Service \<Rightarrow> string \<times> string" where
  "instance_of s = (svc_node_id s, svc_name s)"

lemma distinct_instance_of: "distinct (map instance_of ss) \<longleftrightarrow> distinct (map svc_key ss)"
  by (induction ss) (auto simp: instance_of_def svc_key_def)

lemma try_fold_Cons_ok: "try_fold f s (x # xs) = Inr t \<longleftrightarrow> (\<exists>s'. f s x = Inr s' \<and> try_fold f s' xs = Inr t)"
  by (auto split: sum.splits)

lemma check_services_ok:
  "try_fold (check_service grp) (is, owners) ss = Inr st \<longleftrightarrow>
     distinct (map instance_of ss) \<and> is \<inter> instance_of ` set ss = {} \<and>
     (\<forall>s \<in> set ss. health_path_ok s) \<and> domains_ok owners ss \<and>
     st = (is \<union> instance_of ` set ss, claim_all owners ss)"
proof (induction ss arbitrary: "is" owners)
  case Nil
  then show ?case by auto
next
  case (Cons s ss)
  show ?case
    unfolding try_fold_Cons_ok check_service_ok
    by (simp add: Cons.IH instance_of_def [symmetric] del: try_fold.simps) blast
qed

lemma check_group_ok:
  "check_group (names, owners) g = Inr st \<longleftrightarrow>
     sg_name g \<notin> names \<and> group_wf g \<and> (\<forall>s \<in> set (sg_services g). health_path_ok s) \<and>
     domains_ok owners (sg_services g) \<and>
     st = (insert (sg_name g) names, claim_all owners (sg_services g))"
  by (auto simp: check_group_def loop_simps check_services_ok group_wf_def distinct_instance_of
      split: prod.splits)

lemma check_groups_ok:
  "try_fold check_group (names, owners) gs = Inr st \<longleftrightarrow>
     distinct (map sg_name gs) \<and> names \<inter> sg_name ` set gs = {} \<and> (\<forall>g \<in> set gs. group_wf g) \<and>
     (\<forall>s \<in> set (concat (map sg_services gs)). health_path_ok s) \<and>
     domains_ok owners (concat (map sg_services gs)) \<and>
     st = (names \<union> sg_name ` set gs, claim_all owners (concat (map sg_services gs)))"
proof (induction gs arbitrary: names owners)
  case Nil
  then show ?case by auto
next
  case (Cons g gs)
  show ?case
    unfolding try_fold_Cons_ok check_group_ok
    by (simp add: Cons.IH domains_ok_append claim_all_append ball_Un del: try_fold.simps) blast
qed

lemma groups_ok_iff:
  "(\<exists>st. try_fold check_group ({}, Map.empty) (dc_service_groups dc) = Inr st) \<longleftrightarrow>
     dc_wf dc \<and> (\<forall>s \<in> set (all_services dc). health_path_ok s) \<and> domains_agree (all_services dc)"
  by (auto simp: check_groups_ok dc_wf_def all_services_def domains_ok_iff unclaimed_by_others_def)

section \<open>The loop over routed services\<close>

lemma check_routed_ok:
  "check_routed lib dc service = Inr u \<longleftrightarrow> routable dc service \<and>
     (\<forall>r \<in> set (dc_routes dc). rt_service r = service \<longrightarrow> route_ok lib service r)"
  by (auto simp: check_routed_def loop_simps validate_route_target_ok validate_routes_ok)

lemma routed_ok_iff:
  "try_each (check_routed lib dc) (remdups_adj (sort (map rt_service (dc_routes dc)))) = Inr u \<longleftrightarrow>
     routes_valid lib dc"
  by (auto simp: try_each_ok check_routed_ok routes_valid_def)

section \<open>The loop over pinned ports\<close>

definition pinned :: "DynamicConfig \<Rightarrow> string \<Rightarrow> u16 set" where
  "pinned dc name =
     {p. \<exists>s \<in> set (all_services dc). svc_name s = name \<and> svc_local_port s = Some p}"

lemma set_pinned_ports:
  "set (remdups_adj (sort (List.map_filter svc_local_port
     (filter (\<lambda>s. svc_name s = name) (all_services dc))))) = pinned dc name"
  by (force simp: pinned_def List.map_filter_def)

lemma local_port_for_ok:
  "local_port_for dc name = Inr p \<longleftrightarrow> (case p of None \<Rightarrow> pinned dc name = {} | Some q \<Rightarrow> pinned dc name = {q})"
proof -
  let ?ps = "remdups_adj (sort (List.map_filter svc_local_port
     (filter (\<lambda>s. svc_name s = name) (all_services dc))))"
  have d: "distinct ?ps" by (rule distinct_remdups_adj_sort)
  have s: "pinned dc name = set ?ps" by (simp only: set_pinned_ports)
  consider "?ps = []" | q where "?ps = [q]" | a b qs where "?ps = a # b # qs"
    by (cases ?ps rule: remdups_adj.cases) auto
  then show ?thesis
  proof cases
    case 3
    with d have "a \<noteq> b" by simp
    then show ?thesis unfolding s local_port_for_def Let_def 3 by (auto split: option.splits)
  next
    case 1
    then show ?thesis unfolding s local_port_for_def Let_def 1 by (auto split: option.splits)
  next
    case 2
    then show ?thesis unfolding s local_port_for_def Let_def 2 by (auto split: option.splits)
  qed
qed

lemma check_local_port_ok:
  "check_local_port dc owners name = Inr o' \<longleftrightarrow>
     pinned dc name = {} \<and> o' = owners \<or>
     (\<exists>q. pinned dc name = {q} \<and> q \<noteq> 0 \<and> owners q = None \<and> o' = owners(q \<mapsto> name))"
proof (cases "local_port_for dc name")
  case (Inl e)
  have "pinned dc name \<noteq> {}" using Inl local_port_for_ok [of dc name None] by simp
  moreover have "pinned dc name \<noteq> {q}" for q using Inl local_port_for_ok [of dc name "Some q"] by simp
  ultimately show ?thesis using Inl by (auto simp: check_local_port_def)
next
  case (Inr p)
  then show ?thesis
    using Inr [unfolded local_port_for_ok]
    by (cases p) (auto simp: check_local_port_def split: option.splits)
qed

definition names_pin_ok :: "DynamicConfig \<Rightarrow> (u16 \<rightharpoonup> string) \<Rightarrow> string set \<Rightarrow> bool" where
  "names_pin_ok dc owners names \<longleftrightarrow>
     (\<forall>n \<in> names. \<forall>q \<in> pinned dc n. q \<noteq> 0 \<and> owners q = None \<and> pinned dc n = {q} \<and>
        (\<forall>m \<in> names. q \<in> pinned dc m \<longrightarrow> m = n))"

lemma check_local_ports_ok:
  assumes "distinct names"
  shows "(\<exists>o'. try_fold (check_local_port dc) owners names = Inr o') \<longleftrightarrow> names_pin_ok dc owners (set names)"
  using assms
proof (induction names arbitrary: owners)
  case Nil
  then show ?case by (simp add: names_pin_ok_def)
next
  case (Cons n names)
  then have n: "n \<notin> set names" and IH: "\<And>owners.
      (\<exists>o'. try_fold (check_local_port dc) owners names = Inr o') \<longleftrightarrow> names_pin_ok dc owners (set names)"
    by auto
  have step: "(\<exists>o'. try_fold (check_local_port dc) owners (n # names) = Inr o') \<longleftrightarrow>
      (\<exists>o1. check_local_port dc owners n = Inr o1 \<and> names_pin_ok dc o1 (set names))"
    unfolding try_fold_Cons_ok IH [symmetric] by blast
  show ?case
    unfolding step check_local_port_ok
  proof
    assume "\<exists>o1. (pinned dc n = {} \<and> o1 = owners \<or>
       (\<exists>q. pinned dc n = {q} \<and> q \<noteq> 0 \<and> owners q = None \<and> o1 = owners(q \<mapsto> n))) \<and> names_pin_ok dc o1 (set names)"
    then consider (free) "pinned dc n = {}" "names_pin_ok dc owners (set names)"
      | (fixed) q where "pinned dc n = {q}" "q \<noteq> 0" "owners q = None" "names_pin_ok dc (owners(q \<mapsto> n)) (set names)"
      by blast
    then show "names_pin_ok dc owners (set (n # names))"
    proof cases
      case fixed
      then have "\<forall>m \<in> set names. q \<notin> pinned dc m \<and> (\<forall>q' \<in> pinned dc m. q' \<noteq> 0 \<and> owners q' = None
          \<and> pinned dc m = {q'} \<and> (\<forall>l \<in> set names. q' \<in> pinned dc l \<longrightarrow> l = m))"
        unfolding names_pin_ok_def by (metis fun_upd_apply option.distinct(1))
      with fixed(1-3) show ?thesis unfolding names_pin_ok_def by auto
    qed (auto simp: names_pin_ok_def)
  next
    assume ok: "names_pin_ok dc owners (set (n # names))"
    show "\<exists>o1. (pinned dc n = {} \<and> o1 = owners \<or>
       (\<exists>q. pinned dc n = {q} \<and> q \<noteq> 0 \<and> owners q = None \<and> o1 = owners(q \<mapsto> n))) \<and> names_pin_ok dc o1 (set names)"
    proof (cases "pinned dc n = {}")
      case True
      with ok show ?thesis by (intro exI [of _ owners]) (simp add: names_pin_ok_def)
    next
      case False
      then obtain q where q: "pinned dc n = {q}" "q \<noteq> 0" "owners q = None"
        using ok unfolding names_pin_ok_def by (metis ex_in_conv list.set_intros(1))
      have "names_pin_ok dc (owners(q \<mapsto> n)) (set names)"
        using ok n q unfolding names_pin_ok_def by auto
      with q show ?thesis by blast
    qed
  qed
qed

lemma names_pin_ok_iff:
  "names_pin_ok dc owners (svc_name ` set (all_services dc)) \<longleftrightarrow>
     local_ports_agree (all_services dc) \<and>
     (\<forall>s \<in> set (all_services dc). \<forall>p. svc_local_port s = Some p \<longrightarrow> p \<noteq> 0 \<and> owners p = None)"
  (is "?l \<longleftrightarrow> ?a \<and> ?b")
proof
  assume l: ?l
  then have u: "pinned dc (svc_name s) = {p} \<and> (svc_name t = svc_name s \<or> p \<notin> pinned dc (svc_name t))
      \<and> p \<noteq> 0 \<and> owners p = None"
    if "s \<in> set (all_services dc)" "t \<in> set (all_services dc)" "svc_local_port s = Some p" for s t p
    using that unfolding names_pin_ok_def pinned_def by blast
  show "?a \<and> ?b"
  proof
    show ?b using u by blast
    show ?a unfolding local_ports_agree_def using u by (fastforce simp: pinned_def)
  qed
next
  assume r: "?a \<and> ?b"
  then show ?l
    unfolding names_pin_ok_def pinned_def local_ports_agree_def by blast
qed

lemma reserved_ports_ok:
  "reserved_ports cfg = Inr owners \<Longrightarrow> owners p = None \<longleftrightarrow> \<not> port_reserved cfg p"
  by (auto simp: reserved_ports_def port_reserved_def Let_def split: option.splits if_splits)

lemma reserved_ports_succeeds:
  "(\<exists>owners. reserved_ports cfg = Inr owners) \<longleftrightarrow>
     (\<forall>listen. cfg_http_listen cfg = Some listen \<longrightarrow> subscribes cfg \<and> parse_socket_addr listen \<noteq> None)"
  by (auto simp: reserved_ports_def Let_def split: option.splits if_splits)

lemma ports_ok_iff:
  "(\<exists>owners o'. reserved_ports cfg = Inr owners \<and> try_fold (check_local_port dc) owners
       (remdups_adj (sort (map svc_name (all_services dc)))) = Inr o') \<longleftrightarrow>
     (\<forall>listen. cfg_http_listen cfg = Some listen \<longrightarrow> subscribes cfg \<and> parse_socket_addr listen \<noteq> None) \<and>
     local_ports_agree (all_services dc) \<and>
     (\<forall>s \<in> set (all_services dc). \<forall>p. svc_local_port s = Some p \<longrightarrow> p \<noteq> 0 \<and> \<not> port_reserved cfg p)"
proof (cases "reserved_ports cfg")
  case (Inl e)
  then show ?thesis using reserved_ports_succeeds [of cfg] by auto
next
  case (Inr owners)
  have "(\<exists>o'. try_fold (check_local_port dc) owners (remdups_adj (sort (map svc_name (all_services dc)))) = Inr o')
      \<longleftrightarrow> names_pin_ok dc owners (svc_name ` set (all_services dc))"
    by (subst check_local_ports_ok [OF distinct_remdups_adj_sort]) simp
  with Inr reserved_ports_succeeds [of cfg] show ?thesis
    by (simp add: names_pin_ok_iff reserved_ports_ok [OF Inr])
qed

section \<open>Validation decides validity\<close>

lemma validate_ok_iff: "validate lib cfg = Inr () \<longleftrightarrow> config_valid lib cfg"
proof -
  let ?dc = "cfg_dynamic_config cfg"
  have t: "(case cfg_tracing cfg of Some t \<Rightarrow> tracing_validate lib t | None \<Rightarrow> Inr ()) = Inr () \<longleftrightarrow>
      (\<forall>t. cfg_tracing cfg = Some t \<longrightarrow> tracing_validate lib t = Inr ())"
    by (auto split: option.splits)
  have "validate lib cfg = Inr () \<longleftrightarrow>
      (\<exists>st. try_fold check_group ({}, Map.empty) (dc_service_groups ?dc) = Inr st) \<and> routes_valid lib ?dc \<and>
      (\<exists>owners o'. reserved_ports cfg = Inr owners \<and> try_fold (check_local_port ?dc) owners
         (remdups_adj (sort (map svc_name (all_services ?dc)))) = Inr o') \<and>
      (\<forall>t. cfg_tracing cfg = Some t \<longrightarrow> tracing_validate lib t = Inr ()) \<and>
      (cfg_subscribe_filter cfg \<noteq> None \<longrightarrow> subscribes cfg)"
    unfolding validate_def Let_def try_then_ok routed_ok_iff t [symmetric]
    by (auto simp: loop_simps split: if_splits)
  then show ?thesis
    unfolding groups_ok_iff ports_ok_iff config_valid_def Let_def by blast
qed

text \<open>
  C6. Validation accepts a configuration exactly when it is valid: group names are unique and so
  are the instances of a group; health paths are well formed; a domain is claimed under one service
  name only; every route is well formed and targets a service all of whose instances speak HTTP;
  instances pin the same local port exactly when they carry the same name, and no pinned port is
  zero or one the daemon itself listens on; \<open>httpListen\<close> parses, and it and
  \<open>subscribeFilter\<close> are set in a subscribing mode only; tracing is well formed.
\<close>

theorem validate_iff: "validate lib cfg = Inr () \<longleftrightarrow> config_valid lib cfg"
  by (rule validate_ok_iff)

section \<open>Path prefixes\<close>

lemma path_has_prefix_Some:
  "path_has_prefix path pre \<longleftrightarrow>
     (\<exists>rest. path = pre @ rest \<and> (rest = [] \<or> ends_with pre CHR ''/'' \<or> starts_with rest CHR ''/''))"
  by (auto simp: path_has_prefix_def strip_prefix_Some [symmetric] split: option.splits)

text \<open>
  A path prefix matches whole segments. A prefix without a trailing slash matches the paths
  whose list of slash-separated segments extends the prefix's list; one with a trailing slash
  matches the paths that have at least one further, possibly empty, segment.
\<close>

theorem path_prefix_segments:
  "path_has_prefix path pre \<longleftrightarrow>
     (if ends_with pre CHR ''/''
      then strict_prefix (butlast (split_on CHR ''/'' pre)) (split_on CHR ''/'' path)
      else prefix (split_on CHR ''/'' pre) (split_on CHR ''/'' path))"
proof (cases "ends_with pre CHR ''/''")
  case True
  then obtain p where p: "pre = p @ [CHR ''/'']" by (auto simp: ends_with_def) (metis append_butlast_last_id)
  then have "butlast (split_on CHR ''/'' pre) = split_on CHR ''/'' p"
    by (simp add: split_on_append)
  with True p show ?thesis
    by (auto simp: strict_prefix_split_on path_has_prefix_Some)
next
  case False
  then show ?thesis
    by (auto simp: prefix_split_on path_has_prefix_Some starts_with_iff)
qed

section \<open>Mutations and validity\<close>

definition with_dc :: "Config \<Rightarrow> DynamicConfig \<Rightarrow> Config" where
  "with_dc cfg dc = cfg\<lparr>cfg_dynamic_config := dc\<rparr>"

lemma with_dc_simps [simp]:
  "cfg_dynamic_config (with_dc cfg dc) = dc" "cfg_tracing (with_dc cfg dc) = cfg_tracing cfg"
  "cfg_http_listen (with_dc cfg dc) = cfg_http_listen cfg"
  "cfg_subscribe_filter (with_dc cfg dc) = cfg_subscribe_filter cfg"
  "subscribes (with_dc cfg dc) = subscribes cfg" "port_reserved (with_dc cfg dc) = port_reserved cfg"
  by (auto simp: with_dc_def subscribes_def port_reserved_def api_port_def fun_eq_iff)

lemma all_services_cong: "dc_service_groups dc' = dc_service_groups dc \<Longrightarrow> all_services dc' = all_services dc"
  by (simp add: all_services_def)

lemma routable_cong: "dc_service_groups dc' = dc_service_groups dc \<Longrightarrow> routable dc' = routable dc"
  by (simp add: routable_def all_services_def fun_eq_iff)

lemma all_services_update_group:
  "set (all_services (bump_version (dc\<lparr>dc_service_groups := update_first p f gs\<rparr>))) \<subseteq>
     \<Union> (set ` sg_services ` set gs) \<union> \<Union> (set ` sg_services ` f ` {g \<in> set gs. p g})"
  using set_update_first_subset [of p f gs] by (auto simp: all_services_def bump_version_def)

lemma remove_service_subset:
  assumes "remove_service dc grp node name = Inr (dc', v)"
  shows "set (all_services dc') \<subseteq> set (all_services dc)"
  using assms all_services_update_group
  by (fastforce simp: remove_service_def Let_def all_services_def bump_version_def
      split: option.splits if_splits dest: find_set)

text \<open>Validity of everything but the routes is inherited by a subset of the instances.\<close>

lemma config_valid_subset:
  assumes "config_valid lib cfg" and "dc_wf dc'"
    and "set (all_services dc') \<subseteq> set (all_services (cfg_dynamic_config cfg))"
  shows "config_valid lib (with_dc cfg dc') \<longleftrightarrow> routes_valid lib dc'"
  using assms unfolding config_valid_def domains_agree_def local_ports_agree_def Let_def
  by (simp add: subset_iff) blast

text \<open>A valid configuration with one routed service, for the witnesses.\<close>

definition sample_route :: Route where
  "sample_route =
     \<lparr>rt_name = None, rt_service = ''api'',
      rt_matches = \<lparr>rm_path_prefix = Some ''/v1'', rm_method = None, rm_headers = []\<rparr>,
      rt_backends = [\<lparr>rb_labels = [], rb_weight = 1\<rparr>]\<rparr>"

definition routed_dc :: "DynamicConfig" where
  "routed_dc =
     \<lparr>dc_version = 7,
      dc_service_groups = [\<lparr>sg_name = ''web'', sg_services = [sample_service ''api'' ''n1'']\<rparr>],
      dc_routes = [sample_route]\<rparr>"

definition routed_config :: Config where
  "routed_config = with_dc default_config routed_dc"

definition lib0 :: http_lib where
  "lib0 = \<lparr>header_name_ok = (\<lambda>_. True), parse_uri = (\<lambda>_. Inl ''empty string''),
     fmt_f64 = (\<lambda>_. ''NaN'')\<rparr>"

lemma route_ok_sample: "route_ok lib ''api'' sample_route"
  by (simp add: route_ok_def sample_route_def starts_with_def)

lemma config_valid_routed: "config_valid lib routed_config"
  by (auto simp: config_valid_def Let_def routed_config_def with_dc_def routed_dc_def dc_wf_def group_wf_def
      all_services_def health_path_ok_def sample_service_def domains_agree_def routes_valid_def routable_def
      local_ports_agree_def default_config_def sample_route_def route_ok_def starts_with_def)

text \<open>
  Setting the routes of a service keeps a valid configuration valid.
\<close>

theorem set_routes_keeps_valid:
  assumes "config_valid lib cfg"
    and "set_routes lib (cfg_dynamic_config cfg) service routes = Inr (dc', v)"
  shows "validate lib (with_dc cfg dc') = Inr ()"
proof -
  let ?dc = "cfg_dynamic_config cfg"
  have g: "dc_service_groups dc' = dc_service_groups ?dc" using set_routes_frame [OF assms(2)] by blast
  have ok: "\<forall>r \<in> set routes. route_ok lib service r"
    using set_routes_valid [OF assms(2)] by (simp add: validate_routes_ok)
  have tgt: "routes = [] \<or> routable ?dc service"
    using assms(2) by (auto simp: set_routes_def loop_simps validate_route_target_ok split: if_splits)
  have "set (dc_routes dc') \<subseteq> set routes \<union> set (dc_routes ?dc)"
    using set_routes_layout [OF assms(2)] by (auto dest: set_takeWhileD set_dropWhileD)
  moreover have "routable ?dc (rt_service r) \<and> route_ok lib (rt_service r) r"
    if "r \<in> set routes" for r
    using that ok tgt by (auto simp: route_ok_def)
  moreover have "routes_valid lib ?dc" using assms(1) by (simp add: config_valid_def Let_def)
  ultimately have "routes_valid lib dc'"
    by (auto simp: routes_valid_def routable_cong [OF g])
  moreover have "dc_wf dc'" using assms by (auto simp: config_valid_def Let_def intro: dc_wf_set_routes)
  ultimately show ?thesis
    using config_valid_subset [OF assms(1)] by (simp add: validate_ok_iff all_services_cong [OF g])
qed

theorem set_routes_keeps_valid_witness:
  "\<exists>dc' v. config_valid lib0 routed_config \<and>
     set_routes lib0 (cfg_dynamic_config routed_config) ''api'' [] = Inr (dc', v) \<and>
     validate lib0 (with_dc routed_config dc') = Inr ()"
proof -
  obtain dc' v where r: "set_routes lib0 (cfg_dynamic_config routed_config) ''api'' [] = Inr (dc', v)"
    by (simp add: set_routes_def Let_def validate_routes_def map_err_def)
  from set_routes_keeps_valid [OF config_valid_routed r] r config_valid_routed show ?thesis by blast
qed

text \<open>
  C39. Removing an instance from a valid configuration leaves it valid exactly when every routed
  service still has an instance: the removal itself does not look at the routes.
\<close>

theorem remove_service_validity:
  assumes "config_valid lib cfg"
    and "remove_service (cfg_dynamic_config cfg) grp node name = Inr (dc', v)"
  shows "validate lib (with_dc cfg dc') = Inr () \<longleftrightarrow>
    rt_service ` set (dc_routes (cfg_dynamic_config cfg)) \<subseteq> svc_name ` set (all_services dc')"
proof -
  let ?dc = "cfg_dynamic_config cfg"
  have r: "dc_routes dc' = dc_routes ?dc"
    using assms(2) by (auto simp: remove_service_def Let_def split: option.splits if_splits)
  have sub: "set (all_services dc') \<subseteq> set (all_services ?dc)"
    by (rule remove_service_subset [OF assms(2)])
  have old: "routes_valid lib ?dc" and wf: "dc_wf dc'"
    using assms by (auto simp: config_valid_def Let_def intro: dc_wf_remove)
  have still: "routable dc' n \<longleftrightarrow> n \<in> svc_name ` set (all_services dc')" if "routable ?dc n" for n
    using that sub unfolding routable_def by blast
  have "routes_valid lib dc' \<longleftrightarrow> rt_service ` set (dc_routes ?dc) \<subseteq> svc_name ` set (all_services dc')"
    using old still by (auto simp: routes_valid_def r image_subset_iff)
  then show ?thesis using config_valid_subset [OF assms(1) wf sub] by (simp add: validate_ok_iff)
qed


theorem remove_service_validity_witness:
  "\<exists>dc' v. remove_service (cfg_dynamic_config routed_config) ''web'' ''n1'' ''api'' = Inr (dc', v) \<and>
     validate lib0 routed_config = Inr () \<and> validate lib0 (with_dc routed_config dc') \<noteq> Inr ()"
proof -
  obtain dc' v where r: "remove_service (cfg_dynamic_config routed_config) ''web'' ''n1'' ''api'' = Inr (dc', v)"
    and e: "all_services dc' = []"
    by (simp add: remove_service_def Let_def routed_config_def with_dc_def routed_dc_def same_instance_def
        sample_service_def all_services_def bump_version_def)
  have "rt_service sample_route \<in> rt_service ` set (dc_routes (cfg_dynamic_config routed_config))"
    by (simp add: routed_config_def routed_dc_def)
  with remove_service_validity [OF config_valid_routed r, of lib0] e r show ?thesis
    by (auto simp: validate_ok_iff config_valid_routed)
qed

end
