(* ===== verification/Shared_State.thy ===== *)
theory Shared_State
  imports Config_Validation
begin

text \<open>
  The state shared by the tasks of a daemon (\<^verbatim>\<open>src/state.rs\<close>): pools of idle connections, the
  counter of work in progress, the two indexes derived from the dynamic configuration, and the view
  of the other nodes. A connection is an opaque handle, numbered. \<open>Vec\<close> is a list whose last
  element is the one \<open>pop\<close> returns. The locks make each operation atomic.
\<close>

section \<open>Pools of idle connections\<close>

type_synonym conn = nat

record StreamPool =
  sp_connections :: "string \<rightharpoonup> conn list"

definition new_pool :: StreamPool where
  "new_pool = \<lparr>sp_connections = Map.empty\<rparr>"

definition pool_list :: "StreamPool \<Rightarrow> string \<Rightarrow> conn list" where
  "pool_list pool key = (case sp_connections pool key of Some v \<Rightarrow> v | None \<Rightarrow> [])"

definition pool_push :: "StreamPool \<Rightarrow> string \<Rightarrow> conn \<Rightarrow> StreamPool" where
  "pool_push pool key stream =
     pool\<lparr>sp_connections := (sp_connections pool)(key \<mapsto> pool_list pool key @ [stream])\<rparr>"

definition try_take :: "StreamPool \<Rightarrow> string \<Rightarrow> StreamPool \<times> conn option" where
  "try_take pool key =
     (case sp_connections pool key of
        None \<Rightarrow> (pool, None)
      | Some v \<Rightarrow>
          if v = [] then (pool, None)
          else (pool\<lparr>sp_connections := (sp_connections pool)(key \<mapsto> butlast v)\<rparr>, Some (last v)))"

text \<open>
  The waiting variant looks once, and again at every wake-up that arrives before the deadline:
  \<open>wakes\<close> are the pools that those wake-ups find.
\<close>

fun pool_take :: "StreamPool \<Rightarrow> string \<Rightarrow> StreamPool list \<Rightarrow> StreamPool \<times> conn option" where
  "pool_take pool key [] = try_take pool key"
| "pool_take pool key (w # wakes) =
     (case try_take pool key of
        (pool', Some stream) \<Rightarrow> (pool', Some stream)
      | (_, None) \<Rightarrow> pool_take w key wakes)"

definition pool_count :: "StreamPool \<Rightarrow> string \<Rightarrow> nat" where
  "pool_count pool key = (case sp_connections pool key of Some v \<Rightarrow> length v | None \<Rightarrow> 0)"

section \<open>Work in progress\<close>

text \<open>The counter is an \<open>AtomicUsize\<close>; \<open>fetch_add\<close> and \<open>fetch_sub\<close> wrap.\<close>

definition in_flight_track :: "u64 \<Rightarrow> u64" where
  "in_flight_track n = n + 1"

definition in_flight_drop :: "u64 \<Rightarrow> u64 \<times> bool" where
  "in_flight_drop n = (n - 1, n = 1)"

section \<open>Indexes\<close>

definition build_service_index :: "DynamicConfig \<Rightarrow> (string \<times> string, Service) hash_map" where
  "build_service_index dc =
     fold (\<lambda>grp idx. fold (\<lambda>svc idx. hm_insert idx (svc_node_id svc, svc_name svc) svc) (sg_services grp) idx)
       (dc_service_groups dc) []"

definition build_route_index :: "DynamicConfig \<Rightarrow> (string \<rightharpoonup> Route list)" where
  "build_route_index dc =
     fold (\<lambda>route idx. idx(rt_service route \<mapsto>
             (case idx (rt_service route) of Some rs \<Rightarrow> rs | None \<Rightarrow> []) @ [route]))
       (dc_routes dc) Map.empty"

section \<open>The shared state\<close>

text \<open>
  The configuration file is part of the state: its contents (None when it cannot be read) and
  whether it can be written.
\<close>

record SharedState =
  ss_config :: Config
  ss_dynamic_config :: DynamicConfig
  ss_known_nodes :: "(string, NodeInfo) hash_map"
  ss_service_index :: "(string \<times> string, Service) hash_map"
  ss_routes :: "string \<rightharpoonup> Route list"
  ss_local_health :: ServiceHealth
  ss_bootstrap_peers :: "string list"
  ss_reverse_pool :: StreamPool
  ss_tunnel_pool :: StreamPool
  ss_shutdown :: bool
  ss_in_flight :: u64
  ss_tls :: bool
  ss_file :: "string option"
  ss_file_writable :: bool

definition new_state :: "Config \<Rightarrow> bool \<Rightarrow> string option \<Rightarrow> bool \<Rightarrow> SharedState" where
  "new_state config tls file writable =
     \<lparr>ss_config = config, ss_dynamic_config = cfg_dynamic_config config, ss_known_nodes = [],
      ss_service_index = build_service_index (cfg_dynamic_config config),
      ss_routes = build_route_index (cfg_dynamic_config config),
      ss_local_health = default_service_health, ss_bootstrap_peers = cfg_known_nodes config,
      ss_reverse_pool = new_pool, ss_tunnel_pool = new_pool, ss_shutdown = False, ss_in_flight = 0,
      ss_tls = tls, ss_file = file, ss_file_writable = writable\<rparr>"

definition own_id :: "SharedState \<Rightarrow> string" where
  "own_id st = cfg_node_id (ss_config st)"

definition rebuild_service_index :: "SharedState \<Rightarrow> SharedState" where
  "rebuild_service_index st =
     st\<lparr>ss_service_index := build_service_index (ss_dynamic_config st),
        ss_routes := build_route_index (ss_dynamic_config st)\<rparr>"

definition service_unhealthy :: "SharedState \<Rightarrow> string \<Rightarrow> string \<Rightarrow> bool" where
  "service_unhealthy st node_id service_name =
     (if node_id = own_id st then sh_is_unhealthy (ss_local_health st) service_name
      else (case hm_get (ss_known_nodes st) node_id of
              Some n \<Rightarrow> sh_is_unhealthy (ni_health n) service_name | None \<Rightarrow> False))"

definition update_known_nodes ::
  "SharedState \<Rightarrow> ((string, NodeInfo) hash_map \<Rightarrow> (string, NodeInfo) hash_map \<times> 'r) \<Rightarrow> SharedState \<times> 'r" where
  "update_known_nodes st f =
     (case f (ss_known_nodes st) of (kn, r) \<Rightarrow> (st\<lparr>ss_known_nodes := kn\<rparr>, r))"

section \<open>What a pool promises\<close>

locale idle_pool =
  fixes idle :: "'p \<Rightarrow> 'k \<Rightarrow> 'c list"
    and put_idle :: "'p \<Rightarrow> 'k \<Rightarrow> 'c \<Rightarrow> 'p"
    and take_idle :: "'p \<Rightarrow> 'k \<Rightarrow> 'p \<times> 'c option"
  assumes idle_put: "idle (put_idle p k c) k' = (if k' = k then idle p k @ [c] else idle p k')"
    and take_result: "snd (take_idle p k) = (if idle p k = [] then None else Some (last (idle p k)))"
    and idle_take: "idle (fst (take_idle p k)) k' = (if k' = k then butlast (idle p k) else idle p k')"
begin

lemma take_after_put: "snd (take_idle (put_idle p k c) k) = Some c"
  by (simp add: take_result idle_put)

lemma put_take_idle: "idle (fst (take_idle (put_idle p k c) k)) = idle p"
  by (rule ext) (simp add: idle_take idle_put)

lemma take_shrinks: "snd (take_idle p k) = Some c \<Longrightarrow> idle p k = idle (fst (take_idle p k)) k @ [c]"
  by (auto simp: take_result idle_take split: if_splits)

lemma take_None: "snd (take_idle p k) = None \<longleftrightarrow> idle p k = []"
  by (simp add: take_result)

end

interpretation streams: idle_pool pool_list pool_push try_take
  by unfold_locales (auto simp: pool_list_def pool_push_def try_take_def split: option.splits)

lemma pool_count_length: "pool_count pool key = length (pool_list pool key)"
  by (simp add: pool_count_def pool_list_def split: option.splits)

section \<open>What the indexes contain\<close>

lemma fold_insert_last:
  "hm_get (fold (\<lambda>x idx. hm_insert idx (key x) x) xs m) k =
     (case find (\<lambda>x. key x = k) (rev xs) of Some x \<Rightarrow> Some x | None \<Rightarrow> hm_get m k)"
  by (induction xs arbitrary: m) (auto simp: find_append_case split: option.splits)

lemma hm_wf_fold_insert: "hm_wf m \<Longrightarrow> hm_wf (fold (\<lambda>x idx. hm_insert idx (key x) x) xs m)"
  by (induction xs arbitrary: m) (auto intro: hm_wf_insert)

lemma build_service_index_flat:
  "build_service_index dc = fold (\<lambda>svc idx. hm_insert idx (svc_node_id svc, svc_name svc) svc) (all_services dc) []"
proof -
  have "fold (\<lambda>grp idx. fold (\<lambda>svc idx. hm_insert idx (svc_node_id svc, svc_name svc) svc) (sg_services grp) idx) gs m =
      fold (\<lambda>svc idx. hm_insert idx (svc_node_id svc, svc_name svc) svc) (concat (map sg_services gs)) m" for gs m
    by (induction gs arbitrary: m) auto
  then show ?thesis by (simp add: build_service_index_def all_services_def)
qed

lemma hm_wf_service_index: "hm_wf (build_service_index dc)"
  unfolding build_service_index_flat by (rule hm_wf_fold_insert) simp

lemma service_index_find:
  "hm_get (build_service_index dc) (node_id, name) = find (same_instance name node_id) (rev (all_services dc))"
proof -
  have "(\<lambda>s. (svc_node_id s, svc_name s) = (node_id, name)) = same_instance name node_id"
    by (auto simp: same_instance_def)
  then show ?thesis
    unfolding build_service_index_flat fold_insert_last by (simp split: option.splits)
qed

lemma route_index_filter:
  "build_route_index dc name =
     (let rs = filter (\<lambda>r. rt_service r = name) (dc_routes dc) in if rs = [] then None else Some rs)"
proof -
  have "fold (\<lambda>route idx. idx(rt_service route \<mapsto>
      (case idx (rt_service route) of Some rs \<Rightarrow> rs | None \<Rightarrow> []) @ [route])) xs m name =
     (let rs = filter (\<lambda>r. rt_service r = name) xs in
      if rs = [] then m name else Some ((case m name of Some rs \<Rightarrow> rs | None \<Rightarrow> []) @ rs))" for xs m
    by (induction xs arbitrary: m) (auto simp: Let_def)
  from this [of "dc_routes dc" Map.empty] show ?thesis by (simp add: build_route_index_def Let_def)
qed

text \<open>
  The indexes that request handling reads are determined by the dynamic configuration: a
  node's service is the last declared instance of that name on that node, and a service's routes
  are its routes in declaration order, with no entry for a service without routes.
\<close>

theorem indexes_spec:
  "hm_get (build_service_index dc) (node_id, name) = find (same_instance name node_id) (rev (all_services dc)) \<and>
   build_route_index dc name =
     (case filter (\<lambda>r. rt_service r = name) (dc_routes dc) of [] \<Rightarrow> None | rs \<Rightarrow> Some rs)"
  by (auto simp: service_index_find route_index_filter Let_def split: list.splits)

text \<open>
  A pooled connection is handed out at most once: putting one and taking gives it back and
  leaves every pool as it was, a take removes exactly the connection it returns, most recent
  first, and it finds nothing exactly when the pool is empty.
\<close>

theorem stream_pool_spec:
  "snd (try_take (pool_push pool key c) key) = Some c \<and>
   pool_list (fst (try_take (pool_push pool key c) key)) = pool_list pool \<and>
   pool_list pool k = pool_list (fst (try_take pool k)) k @ (case snd (try_take pool k) of Some d \<Rightarrow> [d] | None \<Rightarrow> []) \<and>
   (snd (try_take pool k) = None \<longleftrightarrow> pool_count pool k = 0)"
proof (cases "snd (try_take pool k)")
  case None
  then show ?thesis
    using streams.take_None [of pool k]
    by (simp add: streams.take_after_put streams.put_take_idle streams.idle_take pool_count_length)
next
  case (Some d)
  then show ?thesis
    using streams.take_shrinks [OF Some] streams.take_None [of pool k]
    by (simp add: streams.take_after_put streams.put_take_idle pool_count_length)
qed

end
