(* ===== verification/Wire.thy ===== *)
theory Wire
  imports Config_Model
begin

text \<open>
  Messages between daemons (\<^verbatim>\<open>src/gossip/messages.rs\<close>) and their framing on a connection
  (\<open>send_message\<close> and \<open>recv_message\<close> of \<^verbatim>\<open>src/gossip/mod.rs\<close>): a four-byte
  big-endian length and a MessagePack payload of at most 1 MiB. MessagePack is the
  \<^verbatim>\<open>rmp_serde\<close> crate's, a parameter of the model; the round trips assume that decoding
  inverts encoding. A transport takes bytes until it fails, and delivers bytes until it ends.
\<close>

section \<open>Messages\<close>

datatype AdminErrCode = Unauthorized | Validation | NotFound | Internal

datatype AdminOp =
    ServiceAdd (sa_group: string) (sa_name: string) (sa_owner_node_id: string) (sa_port: u16)
      (sa_domains: "string list") (sa_weight: u32) (sa_max_connections: "u32 option")
      (sa_protocol: Protocol) (sa_request_timeout_ms: "u64 option") (sa_health_path: "string option")
      (sa_labels: string_map) (sa_meta: string_map) (sa_local_port: "u16 option")
  | RoutesSet string "Route list"
  | ServiceRename string string string string
  | ServiceRemove string string string

datatype AdminResult = AdminOk u64 | AdminErr AdminErrCode string

datatype Message =
    Sync DynamicConfig "NodeInfo list"
  | ConfigUpdate DynamicConfig
  | NodeJoin string string
  | NodeLeave string
  | TunnelRequest string string u64
  | ReverseRegistration string u64
  | StatusRequest
  | StatusResponse string string string DynamicConfig "NodeInfo list"
  | MuxTunnel
  | AdminRequest AdminOp
  | AdminResponse AdminResult

definition service_add :: "string \<Rightarrow> Service \<Rightarrow> AdminOp" where
  "service_add grp svc =
     ServiceAdd grp (svc_name svc) (svc_node_id svc) (svc_node_port svc) (svc_domains svc) (svc_weight svc)
       (svc_max_connections svc) (svc_protocol svc) (svc_request_timeout_ms svc) (svc_health_path svc)
       (svc_labels svc) (svc_meta svc) (svc_local_port svc)"

text \<open>
  What of a message is serialised: \<open>NodeInfo::last_seen\<close> is skipped, so it reads as unset at
  the receiver, and a health report of version 0 is left out, so it reads as the default one.
\<close>

definition unseen :: "NodeInfo \<Rightarrow> NodeInfo" where
  "unseen n = n\<lparr>ni_last_seen := None, ni_health := (if sh_is_unset (ni_health n) then default_service_health else ni_health n)\<rparr>"

definition on_wire :: "Message \<Rightarrow> Message" where
  "on_wire msg =
     (case msg of
        Sync config nodes \<Rightarrow> Sync config (map unseen nodes)
      | StatusResponse mode node_id bind dc nodes \<Rightarrow> StatusResponse mode node_id bind dc (map unseen nodes)
      | other \<Rightarrow> other)"

section \<open>Framing\<close>

record wire_lib =
  to_vec_named :: "Message \<Rightarrow> string + bytes"
  from_slice :: "bytes \<Rightarrow> string + Message"

definition MAX_MSG_BYTES :: u32 where
  "MAX_MSG_BYTES = 1024 * 1024"

definition to_be_bytes :: "u32 \<Rightarrow> bytes" where
  "to_be_bytes n = [ucast (drop_bit 24 n), ucast (drop_bit 16 n), ucast (drop_bit 8 n), ucast n]"

definition from_be_bytes :: "bytes \<Rightarrow> u32" where
  "from_be_bytes bs = word_of_nat (foldl (\<lambda>n b. n * 256 + unat b) 0 bs)"

text \<open>A transport that still accepts \<open>tr_room\<close> bytes (None: all), and whether it can be flushed.\<close>

record transport =
  tr_sent :: bytes
  tr_room :: "nat option"
  tr_flushes :: bool

definition write_all :: "transport \<Rightarrow> bytes \<Rightarrow> transport \<times> (string + unit)" where
  "write_all tr bs =
     (case tr_room tr of
        None \<Rightarrow> (tr\<lparr>tr_sent := tr_sent tr @ bs\<rparr>, Inr ())
      | Some n \<Rightarrow>
          if length bs \<le> n then (tr\<lparr>tr_sent := tr_sent tr @ bs, tr_room := Some (n - length bs)\<rparr>, Inr ())
          else (tr\<lparr>tr_sent := tr_sent tr @ take n bs, tr_room := Some 0\<rparr>, Inl ''broken pipe''))"

definition flush :: "transport \<Rightarrow> string + unit" where
  "flush tr = (if tr_flushes tr then Inr () else Inl ''broken pipe'')"

definition encode_message :: "wire_lib \<Rightarrow> Message \<Rightarrow> string + bytes" where
  "encode_message lib msg = map_err (\<lambda>_. ''serialize Message'') (to_vec_named lib msg)"

definition send_message :: "wire_lib \<Rightarrow> transport \<Rightarrow> Message \<Rightarrow> transport \<times> (string + unit)" where
  "send_message lib tr msg =
     (case encode_message lib msg of
        Inl e \<Rightarrow> (tr, Inl e)
      | Inr payload \<Rightarrow>
          if length payload < 2 ^ 32
          then (case write_all tr (to_be_bytes (word_of_nat (length payload))) of
                  (tr1, Inl _) \<Rightarrow> (tr1, Inl ''write length prefix'')
                | (tr1, Inr _) \<Rightarrow>
                    (case write_all tr1 payload of
                       (tr2, Inl _) \<Rightarrow> (tr2, Inl ''write payload'')
                     | (tr2, Inr _) \<Rightarrow> (tr2, map_err (\<lambda>_. ''flush message'') (flush tr2))))
          else (tr, Inl ''message too large''))"

definition read_exact :: "bytes \<Rightarrow> nat \<Rightarrow> string + bytes \<times> bytes" where
  "read_exact input n = (if n \<le> length input then Inr (take n input, drop n input) else Inl ''early eof'')"

definition recv_message :: "wire_lib \<Rightarrow> bytes \<Rightarrow> string + Message \<times> bytes" where
  "recv_message lib input =
     try_then (map_err (\<lambda>_. ''read length prefix'') (read_exact input 4)) (\<lambda>(len_buf, input1).
       let len = from_be_bytes len_buf in
       if len > MAX_MSG_BYTES then Inl (''message too large: '' @ dec_string (unat len) @ '' bytes'')
       else try_then (map_err (\<lambda>_. ''read payload'') (read_exact input1 (unat len))) (\<lambda>(payload, input2).
         try_then (map_err (\<lambda>_. ''deserialize Message'') (from_slice lib payload)) (\<lambda>msg.
           Inr (msg, input2))))"

section \<open>Byte order\<close>

lemma length_to_be_bytes [simp]: "length (to_be_bytes n) = 4"
  by (simp add: to_be_bytes_def)

lemma byte_of_word: "unat (ucast (drop_bit k (w :: u32)) :: u8) = unat w div 2 ^ k mod 256"
proof -
  have "unat (drop_bit k w) = unat w div 2 ^ k"
  proof -
    have "unat w < 2 ^ 32" by (rule order.strict_trans2 [OF unsigned_less]) simp
    then have "take_bit LENGTH(32) (unat w) = unat w" by (intro take_bit_nat_eq_self) simp
    then show ?thesis unfolding unsigned_drop_bit_eq by (simp only: drop_bit_eq_div)
  qed
  then show ?thesis by (simp add: unsigned_ucast_eq take_bit_eq_mod)
qed

lemma bytes_recombine:
  fixes u :: nat
  shows "((u div 2 ^ 24 * 256 + u div 2 ^ 16 mod 256) * 256 + u div 2 ^ 8 mod 256) * 256 + u mod 256 = u"
proof -
  have "u div 2 ^ 16 = u div 2 ^ 8 div 256" "u div 2 ^ 24 = u div 2 ^ 16 div 256"
    by (simp_all flip: div_mult2_eq)
  then show ?thesis by simp
qed

lemma from_to_be_bytes [simp]: "from_be_bytes (to_be_bytes n) = n"
proof -
  have u: "unat n < 2 ^ 32" using unsigned_less [of n] by simp
  have b0: "unat (ucast n :: u8) = unat n mod 256" using byte_of_word [of 0 n] by simp
  have "unat n div 2 ^ 24 mod 256 = unat n div 2 ^ 24" using u by simp
  then have "foldl (\<lambda>n b. n * 256 + unat b) 0 (to_be_bytes n) = unat n"
    using bytes_recombine [of "unat n"] by (simp only: to_be_bytes_def foldl.simps byte_of_word b0 mult_zero_left add_0)
  then show ?thesis by (simp add: from_be_bytes_def)
qed

section \<open>Frames\<close>

definition frame :: "bytes \<Rightarrow> bytes" where
  "frame payload = to_be_bytes (word_of_nat (length payload)) @ payload"

lemma write_all_fits: "tr_room tr = None \<or> (\<exists>n. tr_room tr = Some n \<and> length bs \<le> n) \<Longrightarrow>
   \<exists>tr'. write_all tr bs = (tr', Inr ()) \<and> tr_sent tr' = tr_sent tr @ bs \<and>
     tr_room tr' = map_option (\<lambda>n. n - length bs) (tr_room tr) \<and> tr_flushes tr' = tr_flushes tr"
  by (auto simp: write_all_def)

lemma write_all_ok:
  "write_all tr bs = (tr', Inr u) \<Longrightarrow> tr_sent tr' = tr_sent tr @ bs"
  by (auto simp: write_all_def split: option.splits if_splits)

lemma write_all_err:
  "write_all tr bs = (tr', Inl e) \<Longrightarrow> \<exists>n < length bs. tr_sent tr' = tr_sent tr @ take n bs"
  by (auto simp: write_all_def not_le split: option.splits if_splits)

lemma recv_frame:
  assumes "length payload \<le> 2 ^ 20"
  shows "recv_message lib (frame payload @ rest) =
    (case from_slice lib payload of Inl _ \<Rightarrow> Inl ''deserialize Message'' | Inr msg \<Rightarrow> Inr (msg, rest))"
proof -
  have n: "unat (word_of_nat (length payload) :: u32) = length payload"
    using assms by (simp add: unat_of_nat)
  have "\<not> (word_of_nat (length payload) :: u32) > MAX_MSG_BYTES"
    using assms n by (simp add: word_less_nat_alt MAX_MSG_BYTES_def)
  then show ?thesis
    by (simp add: recv_message_def frame_def read_exact_def n map_err_def split: sum.splits)
qed

lemma recv_oversized:
  assumes "2 ^ 20 < length payload" "length payload < 2 ^ 32"
  shows "recv_message lib (frame payload @ rest) =
    Inl (''message too large: '' @ dec_string (length payload) @ '' bytes'')"
proof -
  have n: "unat (word_of_nat (length payload) :: u32) = length payload"
    using assms by (simp add: unat_of_nat)
  have "(word_of_nat (length payload) :: u32) > MAX_MSG_BYTES"
    using assms n by (simp add: word_less_nat_alt MAX_MSG_BYTES_def)
  then show ?thesis
    by (simp add: recv_message_def frame_def read_exact_def n map_err_def)
qed

lemma recv_truncated:
  assumes "length payload \<le> 2 ^ 20" "k < length (frame payload)"
  shows "recv_message lib (take k (frame payload)) \<in> {Inl ''read length prefix'', Inl ''read payload''}"
proof (cases "k < 4")
  case True
  then show ?thesis by (simp add: recv_message_def read_exact_def map_err_def frame_def)
next
  case False
  have n: "unat (word_of_nat (length payload) :: u32) = length payload"
    using assms by (simp add: unat_of_nat)
  have big: "\<not> (word_of_nat (length payload) :: u32) > MAX_MSG_BYTES"
    using assms n by (simp add: word_less_nat_alt MAX_MSG_BYTES_def)
  have f: "take k (frame payload) = to_be_bytes (word_of_nat (length payload)) @ take (k - 4) payload"
    using False by (simp add: frame_def)
  have "k - 4 < length payload" using assms(2) False by (simp add: frame_def)
  then show ?thesis
    unfolding f using big by (simp add: recv_message_def read_exact_def map_err_def n)
qed

text \<open>
  A message that is sent arrives: the receiver reads exactly the bytes the sender wrote,
  recovers the message (less the liveness markers, which are not serialised), and leaves what follows in the stream untouched, for every message whose
  payload is at most 1 MiB.
\<close>

theorem wire_roundtrip:
  assumes "to_vec_named lib msg = Inr payload" "from_slice lib payload = Inr (on_wire msg)" "length payload \<le> 2 ^ 20"
    and "tr_room tr = None" "tr_flushes tr"
  shows "\<exists>tr' sent. send_message lib tr msg = (tr', Inr ()) \<and> tr_sent tr' = tr_sent tr @ sent \<and>
    recv_message lib (sent @ rest) = Inr (on_wire msg, rest)"
proof -
  let ?n = "to_be_bytes (word_of_nat (length payload))"
  obtain tr1 where 1: "write_all tr ?n = (tr1, Inr ())" "tr_sent tr1 = tr_sent tr @ ?n" "tr_room tr1 = None" "tr_flushes tr1"
    using write_all_fits [of tr ?n] assms(4,5) by auto
  obtain tr2 where 2: "write_all tr1 payload = (tr2, Inr ())" "tr_sent tr2 = tr_sent tr1 @ payload" "tr_flushes tr2"
    using write_all_fits [of tr1 payload] 1(3,4) by auto
  have "send_message lib tr msg = (tr2, Inr ())"
    using assms(1,3) 1 2 by (simp add: send_message_def encode_message_def map_err_def flush_def)
  moreover have "tr_sent tr2 = tr_sent tr @ frame payload" using 1 2 by (simp add: frame_def)
  moreover have "recv_message lib (frame payload @ rest) = Inr (on_wire msg, rest)"
    using recv_frame [OF assms(3)] assms(2) by simp
  ultimately show ?thesis by blast
qed

text \<open>
  Failures on either end are detected. A send that reports success has put the whole frame on
  the wire. A receiver that gets only part of a frame reports an error, and so it does for a payload
  beyond 1 MiB, which the sender does not refuse.
\<close>

theorem wire_failures:
  assumes "to_vec_named lib msg = Inr payload" "length payload < 2 ^ 32"
  shows "(case send_message lib tr msg of
            (tr', Inr _) \<Rightarrow> tr_sent tr' = tr_sent tr @ frame payload
          | (tr', Inl _) \<Rightarrow> (\<exists>k \<le> length (frame payload). tr_sent tr' = tr_sent tr @ take k (frame payload))) \<and>
    (if length payload \<le> 2 ^ 20
     then \<forall>k < length (frame payload). \<exists>e. recv_message lib (take k (frame payload)) = Inl e
     else recv_message lib (frame payload @ rest) =
       Inl (''message too large: '' @ dec_string (length payload) @ '' bytes''))"
proof (intro conjI)
  let ?n = "to_be_bytes (word_of_nat (length payload))"
  obtain tr1 r1 where w1: "write_all tr ?n = (tr1, r1)" by fastforce
  obtain tr2 r2 where w2: "write_all tr1 payload = (tr2, r2)" by fastforce
  have s: "send_message lib tr msg = (case r1 of Inl _ \<Rightarrow> (tr1, Inl ''write length prefix'')
      | Inr _ \<Rightarrow> (case r2 of Inl _ \<Rightarrow> (tr2, Inl ''write payload'') | Inr _ \<Rightarrow> (tr2, map_err (\<lambda>_. ''flush message'') (flush tr2))))"
    using assms w1 w2 by (simp add: send_message_def encode_message_def map_err_def split: sum.splits)
  show "case send_message lib tr msg of
      (tr', Inr _) \<Rightarrow> tr_sent tr' = tr_sent tr @ frame payload
    | (tr', Inl _) \<Rightarrow> (\<exists>k \<le> length (frame payload). tr_sent tr' = tr_sent tr @ take k (frame payload))"
  proof (cases r1)
    case (Inl e)
    then obtain k where "k < 4" "tr_sent tr1 = tr_sent tr @ take k ?n" using write_all_err [of tr ?n] w1 by auto
    then show ?thesis using Inl by (auto simp: s frame_def intro!: exI [of _ k])
  next
    case (Inr u)
    then have t1: "tr_sent tr1 = tr_sent tr @ ?n" using write_all_ok w1 by blast
    show ?thesis
    proof (cases r2)
      case (Inl e)
      then obtain k where "k < length payload" "tr_sent tr2 = tr_sent tr1 @ take k payload"
        using write_all_err [of tr1 payload] w2 by auto
      then show ?thesis using Inl Inr t1 by (auto simp: s frame_def intro!: exI [of _ "k + 4"])
    next
      case (Inr u')
      then have "tr_sent tr2 = tr_sent tr1 @ payload" using write_all_ok w2 by blast
      then have "tr_sent tr2 = tr_sent tr @ frame payload" using t1 by (simp add: frame_def)
      then show ?thesis using \<open>r1 = Inr u\<close> Inr
        by (auto simp: s flush_def map_err_def intro!: exI [of _ "length (frame payload)"])
    qed
  qed
  show "if length payload \<le> 2 ^ 20
     then \<forall>k < length (frame payload). \<exists>e. recv_message lib (take k (frame payload)) = Inl e
     else recv_message lib (frame payload @ rest) =
       Inl (''message too large: '' @ dec_string (length payload) @ '' bytes'')"
  proof (cases "length payload \<le> 2 ^ 20")
    case True
    have "\<exists>e. recv_message lib (take k (frame payload)) = Inl e" if "k < length (frame payload)" for k
      using recv_truncated [OF True that, of lib] by blast
    then show ?thesis unfolding if_P [OF True] by blast
  next
    case False
    then have "2 ^ 20 < length payload" by simp
    from recv_oversized [OF this assms(2), of lib rest] False show ?thesis by (simp only: if_False)
  qed
qed

text \<open>A codec for two messages, for the witnesses.\<close>

definition sample_wire :: wire_lib where
  "sample_wire =
     \<lparr>to_vec_named = (\<lambda>m. if m = MuxTunnel then Inr [1, 2] else Inr [7]),
      from_slice = (\<lambda>b. if b = [1, 2] then Inr MuxTunnel else Inr StatusRequest)\<rparr>"

theorem wire_roundtrip_witness:
  "\<exists>tr' sent. send_message sample_wire \<lparr>tr_sent = [], tr_room = None, tr_flushes = True\<rparr> MuxTunnel = (tr', Inr ()) \<and>
     tr_sent tr' = sent \<and> recv_message sample_wire (sent @ [9]) = Inr (MuxTunnel, [9])"
  using wire_roundtrip [of sample_wire MuxTunnel "[1, 2]" "\<lparr>tr_sent = [], tr_room = None, tr_flushes = True\<rparr>" "[9]"]
  by (simp add: sample_wire_def on_wire_def)

theorem wire_failures_witness:
  "to_vec_named sample_wire MuxTunnel = Inr [1, 2] \<and>
   (\<exists>e. recv_message sample_wire (take 3 (frame [1, 2])) = Inl e)"
proof -
  have v: "to_vec_named sample_wire MuxTunnel = Inr [1, 2]" by (simp add: sample_wire_def)
  from wire_failures [OF v]
  have "\<forall>k < length (frame [1, 2]). \<exists>e. recv_message sample_wire (take k (frame [1, 2])) = Inl e"
    by simp
  moreover have "3 < length (frame [1, 2])" by (simp add: frame_def)
  ultimately show ?thesis using v by blast
qed

end
