(* ===== verification/Gossip.thy ===== *)
theory Gossip
  imports Shared_State Wire
begin

text \<open>
  Gossip between daemons (\<^verbatim>\<open>src/gossip/mod.rs\<close>): merging a peer's configuration and node list,
  the other gossip messages, the admin RPC, the poll of the configuration file, and the messages a
  daemon builds about itself. A handler is a function from the shared state to the new state and
  what it sends; broadcasts are lists of (address, message). JSON is the \<^verbatim>\<open>serde_json\<close> crate's,
  a parameter. Connections that fail only drop a message, so the model leaves them to the caller:
  a step happens when its message has arrived.
\<close>

section \<open>The configuration file\<close>

record json_lib =
  to_json :: "Config \<Rightarrow> string"
  from_json :: "string \<Rightarrow> Config option"

definition config_load :: "json_lib \<Rightarrow> SharedState \<Rightarrow> Config option" where
  "config_load json st = Option.bind (ss_file st) (from_json json)"

definition config_save :: "json_lib \<Rightarrow> SharedState \<Rightarrow> Config \<Rightarrow> SharedState" where
  "config_save json st cfg = (if ss_file_writable st then st\<lparr>ss_file := Some (to_json json cfg)\<rparr> else st)"

definition persist_state_with :: "json_lib \<Rightarrow> SharedState \<Rightarrow> DynamicConfig \<Rightarrow> SharedState" where
  "persist_state_with json st dc =
     (case config_load json st of
        None \<Rightarrow> st
      | Some cfg \<Rightarrow> config_save json st (cfg\<lparr>cfg_dynamic_config := dc\<rparr>))"

definition persist_state :: "json_lib \<Rightarrow> SharedState \<Rightarrow> SharedState" where
  "persist_state json st = persist_state_with json st (ss_dynamic_config st)"

section \<open>Merging what peers say\<close>

definition is_valid_node_id :: "string \<Rightarrow> bool" where
  "is_valid_node_id node_id \<longleftrightarrow> node_id \<noteq> [] \<and> CHR '':'' \<notin> set node_id"

definition adopt_config :: "json_lib \<Rightarrow> SharedState \<Rightarrow> DynamicConfig \<Rightarrow> SharedState" where
  "adopt_config json st config =
     (if dc_version config > dc_version (ss_dynamic_config st)
      then rebuild_service_index (persist_state_with json (st\<lparr>ss_dynamic_config := config\<rparr>) config)
      else st)"

definition merge_health :: "NodeInfo \<Rightarrow> NodeInfo \<Rightarrow> NodeInfo" where
  "merge_health existing incoming =
     (if sh_version (ni_health incoming) \<le> sh_version (ni_health existing) then existing
      else existing\<lparr>ni_health := ni_health incoming\<rparr>)"

definition merge_node ::
  "string \<Rightarrow> instant \<Rightarrow> NodeInfo \<Rightarrow> (string, NodeInfo) hash_map \<times> bool \<Rightarrow> (string, NodeInfo) hash_map \<times> bool" where
  "merge_node self now node0 acc =
     (case acc of (kn, changed) \<Rightarrow>
      if \<not> is_valid_node_id (ni_id node0) then (kn, changed)
      else
        let node = (if ni_id node0 = self then node0\<lparr>ni_health := default_service_health\<rparr> else node0) in
        case hm_get kn (ni_id node) of
          Some existing0 \<Rightarrow>
            let existing = merge_health existing0 node;
                has_addr = ni_addr node \<noteq> [];
                addr_changed = (ni_addr existing \<noteq> ni_addr node);
                existing1 = existing\<lparr>ni_addr := ni_addr node\<rparr>;
                relay_changed = (ni_relay existing \<noteq> ni_relay node \<and> (ni_relay node \<noteq> None \<or> has_addr));
                existing2 = (if relay_changed then existing1\<lparr>ni_relay := ni_relay node\<rparr> else existing1)
            in (hm_insert kn (ni_id node) existing2, changed \<or> addr_changed \<or> relay_changed)
        | None \<Rightarrow> (hm_insert kn (ni_id node) (node\<lparr>ni_last_seen := Some now\<rparr>), True))"

definition refresh_contact ::
  "instant \<Rightarrow> string option \<Rightarrow> (string, NodeInfo) hash_map \<Rightarrow> (string, NodeInfo) hash_map" where
  "refresh_contact now contact_addr kn =
     (case contact_addr of
        None \<Rightarrow> kn
      | Some addr \<Rightarrow> map (\<lambda>(k, node).
          (k, if ni_addr node \<noteq> [] \<and> ni_addr node = addr then node\<lparr>ni_last_seen := Some now\<rparr> else node)) kn)"

definition merge_sync ::
  "json_lib \<Rightarrow> instant \<Rightarrow> SharedState \<Rightarrow> DynamicConfig \<Rightarrow> NodeInfo list \<Rightarrow> string option \<Rightarrow> SharedState" where
  "merge_sync json now st config nodes contact_addr =
     (let st1 = adopt_config json st config;
          (st2, nodes_changed) = update_known_nodes st1 (\<lambda>kn.
             let (kn1, changed) = fold (merge_node (own_id st1) now) nodes (kn, False)
             in (refresh_contact now contact_addr kn1, changed))
      in if nodes_changed then persist_state json st2 else st2)"

definition join_node ::
  "instant \<Rightarrow> string \<Rightarrow> string \<Rightarrow> (string, NodeInfo) hash_map \<Rightarrow> (string, NodeInfo) hash_map \<times> bool" where
  "join_node now node_id addr kn =
     (case hm_get kn node_id of
        Some existing \<Rightarrow>
          if ni_addr existing \<noteq> addr then (hm_insert kn node_id (existing\<lparr>ni_addr := addr\<rparr>), True)
          else (kn, False)
      | None \<Rightarrow>
          (hm_insert kn node_id
             \<lparr>ni_id = node_id, ni_addr = addr, ni_relay = None, ni_last_seen = Some now,
              ni_health = default_service_health\<rparr>, True))"

definition apply_message :: "json_lib \<Rightarrow> instant \<Rightarrow> SharedState \<Rightarrow> Message \<Rightarrow> SharedState" where
  "apply_message json now st msg =
     (case msg of
        ConfigUpdate config \<Rightarrow> adopt_config json st config
      | NodeJoin node_id addr \<Rightarrow>
          if \<not> is_valid_node_id node_id then st
          else (case update_known_nodes st (join_node now node_id addr) of
                  (st1, changed) \<Rightarrow> if changed then persist_state json st1 else st1)
      | NodeLeave node_id \<Rightarrow> fst (update_known_nodes st (\<lambda>kn. (hm_remove kn node_id, ())))
      | Sync config nodes \<Rightarrow> merge_sync json now st config nodes None
      | _ \<Rightarrow> st)"

section \<open>What a daemon says about itself\<close>

definition self_addr :: "SharedState \<Rightarrow> string" where
  "self_addr st = (if cfg_outbound_only (ss_config st) then [] else peer_addr (ss_config st))"

definition snapshot_nodes :: "SharedState \<Rightarrow> NodeInfo list" where
  "snapshot_nodes st =
     (let nodes = hm_values (ss_known_nodes st) in
      if own_id st = [] then nodes
      else
        case find (\<lambda>n. ni_id n = own_id st) nodes of
          Some _ \<Rightarrow> update_first (\<lambda>n. ni_id n = own_id st)
                      (\<lambda>n. n\<lparr>ni_addr := self_addr st, ni_health := ss_local_health st\<rparr>) nodes
        | None \<Rightarrow> nodes @ [\<lparr>ni_id = own_id st, ni_addr = self_addr st, ni_relay = None,
                            ni_last_seen = None, ni_health = ss_local_health st\<rparr>])"

definition build_sync_msg :: "SharedState \<Rightarrow> Message" where
  "build_sync_msg st = Sync (ss_dynamic_config st) (snapshot_nodes st)"

definition mode_string :: "Mode \<Rightarrow> string" where
  "mode_string m = (case m of Node \<Rightarrow> ''node'' | Subscribe \<Rightarrow> ''subscribe'' | NodeSubscribe \<Rightarrow> ''nodesubscribe'')"

definition handle_status_request :: "SharedState \<Rightarrow> Message" where
  "handle_status_request st =
     StatusResponse (mode_string (cfg_mode (ss_config st))) (own_id st) (cfg_bind (ss_config st))
       (ss_dynamic_config st) (snapshot_nodes st)"

definition add_peer :: "NodeInfo \<Rightarrow> string list \<Rightarrow> string list" where
  "add_peer node addrs =
     (if ni_addr node \<noteq> [] \<and> ni_addr node \<notin> set addrs then addrs @ [ni_addr node] else addrs)"

definition peer_addrs :: "SharedState \<Rightarrow> string list" where
  "peer_addrs st = fold add_peer (hm_values (ss_known_nodes st)) (ss_bootstrap_peers st)"

definition broadcast_message :: "SharedState \<Rightarrow> Message \<Rightarrow> (string \<times> Message) list" where
  "broadcast_message st msg = map (\<lambda>addr. (addr, msg)) (peer_addrs st)"

definition broadcast_sync :: "SharedState \<Rightarrow> (string \<times> Message) list" where
  "broadcast_sync st = broadcast_message st (build_sync_msg st)"

definition fix_unroutable_addr :: "string \<Rightarrow> NodeInfo \<Rightarrow> NodeInfo" where
  "fix_unroutable_addr connected_addr node =
     (case strip_prefix ''0.0.0.0:'' (ni_addr node) of
        None \<Rightarrow> node
      | Some port \<Rightarrow>
          (case rsplit_once CHR '':'' connected_addr of
             None \<Rightarrow> node
           | Some (host, _) \<Rightarrow> node\<lparr>ni_addr := host @ '':'' @ port\<rparr>))"

definition fix_unroutable_addrs :: "NodeInfo list \<Rightarrow> string \<Rightarrow> NodeInfo list" where
  "fix_unroutable_addrs nodes connected_addr = map (fix_unroutable_addr connected_addr) nodes"

section \<open>Handlers\<close>

definition handle_gossip_message ::
  "json_lib \<Rightarrow> instant \<Rightarrow> SharedState \<Rightarrow> string \<Rightarrow> Message \<Rightarrow> SharedState \<times> Message option" where
  "handle_gossip_message json now st peer msg =
     (case msg of
        Sync config nodes \<Rightarrow>
          let nodes' = (if peer \<noteq> [] then fix_unroutable_addrs nodes peer else nodes);
              st' = merge_sync json now st config nodes' None
          in (st', Some (build_sync_msg st'))
      | other \<Rightarrow> (apply_message json now st other, None))"

text \<open>An outbound sync, given the peer's reply (None: the connection failed).\<close>

definition sync_with_peer :: "json_lib \<Rightarrow> instant \<Rightarrow> SharedState \<Rightarrow> string \<Rightarrow> Message option \<Rightarrow> SharedState" where
  "sync_with_peer json now st addr reply =
     (case reply of
        Some (Sync config nodes) \<Rightarrow> merge_sync json now st config (fix_unroutable_addrs nodes addr) (Some addr)
      | _ \<Rightarrow> st)"

fun run_sync_round :: "json_lib \<Rightarrow> (string \<Rightarrow> SharedState \<Rightarrow> Message option) \<Rightarrow> instant \<Rightarrow> string list \<Rightarrow> SharedState \<Rightarrow> SharedState" where
  "run_sync_round json reply now [] st = st"
| "run_sync_round json reply now (addr # peers) st =
     run_sync_round json reply now peers (sync_with_peer json now st addr (reply addr st))"

definition service_of_add :: "AdminOp \<Rightarrow> Service" where
  "service_of_add op =
     \<lparr>svc_name = sa_name op, svc_node_id = sa_owner_node_id op, svc_node_port = sa_port op,
      svc_domains = sa_domains op, svc_weight = sa_weight op, svc_max_connections = sa_max_connections op,
      svc_protocol = sa_protocol op, svc_request_timeout_ms = sa_request_timeout_ms op,
      svc_health_path = sa_health_path op, svc_labels = sa_labels op, svc_meta = sa_meta op,
      svc_local_port = sa_local_port op\<rparr>"

definition apply_admin_op :: "http_lib \<Rightarrow> DynamicConfig \<Rightarrow> AdminOp \<Rightarrow> MutateErr + DynamicConfig \<times> u64" where
  "apply_admin_op lib dc op =
     (case op of
        ServiceAdd grp _ _ _ _ _ _ _ _ _ _ _ _ \<Rightarrow>
          (case map_option validate_health_path (svc_health_path (service_of_add op)) of
             Some (Inl msg) \<Rightarrow> Inl (Invalid msg)
           | _ \<Rightarrow> Inr (upsert_service dc grp (service_of_add op)))
      | RoutesSet service routes \<Rightarrow> set_routes lib dc service routes
      | ServiceRename grp owner_node_id from to \<Rightarrow> rename_service dc grp owner_node_id from to
      | ServiceRemove grp owner_node_id name \<Rightarrow> remove_service dc grp owner_node_id name)"

definition admin_err_code :: "MutateErr \<Rightarrow> AdminErrCode" where
  "admin_err_code err =
     (case err of
        GroupNotFound _ \<Rightarrow> NotFound
      | ServiceNotFound _ _ _ \<Rightarrow> NotFound
      | DuplicateService _ _ _ \<Rightarrow> Validation
      | Invalid _ \<Rightarrow> Validation)"

definition admin_allowed :: "SharedState \<Rightarrow> string option \<Rightarrow> bool" where
  "admin_allowed st peer_cn =
     (case peer_cn of Some cn \<Rightarrow> cn \<in> set (cfg_admin_cns (ss_config st)) | None \<Rightarrow> False)"

definition handle_admin_request ::
  "json_lib \<Rightarrow> http_lib \<Rightarrow> SharedState \<Rightarrow> string option \<Rightarrow> AdminOp \<Rightarrow>
     SharedState \<times> AdminResult \<times> (string \<times> Message) list" where
  "handle_admin_request json lib st peer_cn op =
     (if \<not> admin_allowed st peer_cn
      then (st, AdminErr Unauthorized ''client cert CN not in adminCns allowlist'', [])
      else if cfg_mode (ss_config st) = Subscribe
      then (st, AdminErr Validation ''admin RPC not supported in subscribe-only mode'', [])
      else
        (case apply_admin_op lib (ss_dynamic_config st) op of
           Inr (dc, new_version) \<Rightarrow>
             let st1 = rebuild_service_index
                         (persist_state_with json (st\<lparr>ss_dynamic_config := dc\<rparr>) dc)
             in (st1, AdminOk new_version, broadcast_message st1 (ConfigUpdate dc))
         | Inl err \<Rightarrow> (st, AdminErr (admin_err_code err) (mutate_err_string err), [])))"

text \<open>One poll of the configuration file; \<open>warned\<close> is the pair of versions last warned about.\<close>

definition config_poll ::
  "json_lib \<Rightarrow> SharedState \<Rightarrow> (u64 \<times> u64) option \<Rightarrow>
     SharedState \<times> (u64 \<times> u64) option \<times> (string \<times> Message) list" where
  "config_poll json st warned =
     (case config_load json st of
        None \<Rightarrow> (st, warned, [])
      | Some c \<Rightarrow>
          let file_dc = cfg_dynamic_config c;
              dc = ss_dynamic_config st;
              current_version = dc_version dc;
              adopt = (\<lambda>_::unit.
                let new_dc = (if dc_version file_dc \<le> current_version
                              then file_dc\<lparr>dc_version := current_version + 1\<rparr> else file_dc);
                    st1 = rebuild_service_index
                            (persist_state_with json (st\<lparr>ss_dynamic_config := new_dc\<rparr>) new_dc)
                in (st1, warned, broadcast_message st1 (ConfigUpdate new_dc)))
          in if dc_version file_dc > current_version then adopt ()
             else if dc_version file_dc = current_version \<and> dc_service_groups file_dc \<noteq> dc_service_groups dc
             then adopt ()
             else (st, if dc_version file_dc < current_version then Some (dc_version file_dc, current_version) else warned, []))"

end
