(* ===== verification/Registration.thy ===== *)
theory Registration
  imports Gossip
begin

text \<open>
  Reverse connections (\<^verbatim>\<open>handle_reverse_registration\<close> in \<^verbatim>\<open>src/node/relay.rs\<close>): a node behind NAT keeps
  connections open to a relay, which enters it into its table of nodes under the id it gives and
  pools the connection.
\<close>

definition MAX_SKEW_MS :: u64 where
  "MAX_SKEW_MS = 30000"

definition register_node :: "instant \<Rightarrow> string \<Rightarrow> string \<Rightarrow> (string, NodeInfo) hash_map \<Rightarrow> (string, NodeInfo) hash_map" where
  "register_node now our_addr nid kn =
     (case hm_get kn nid of
        Some node \<Rightarrow> hm_insert kn nid (node\<lparr>ni_relay := Some our_addr, ni_last_seen := Some now\<rparr>)
      | None \<Rightarrow> hm_insert kn nid
          \<lparr>ni_id = nid, ni_addr = [], ni_relay = Some our_addr, ni_last_seen = Some now,
           ni_health = default_service_health\<rparr>)"

definition handle_reverse_registration ::
  "instant \<Rightarrow> u64 \<Rightarrow> SharedState \<Rightarrow> conn \<Rightarrow> string \<Rightarrow> u64 \<Rightarrow> SharedState \<times> (string + unit)" where
  "handle_reverse_registration now now_ms st stream node_id timestamp_ms =
     (let skew = abs_diff now_ms timestamp_ms in
      if skew > MAX_SKEW_MS
      then (st, Inl (''reverse registration timestamp skew too large: '' @ dec_string (unat skew)
                       @ ''ms (node '' @ node_id @ '')''))
      else
        let st1 = st\<lparr>ss_known_nodes := register_node now (peer_addr (ss_config st)) node_id (ss_known_nodes st)\<rparr>
        in (st1\<lparr>ss_reverse_pool := pool_push (ss_reverse_pool st1) node_id stream\<rparr>, Inr ()))"

end
