(* ===== verification/Gossip_Laws.thy ===== *)
theory Gossip_Laws
  imports Registration
begin

text \<open>
  What gossip guarantees. The locale \<open>versioned_store\<close> is the contract that both replicated
  values obey, the dynamic configuration and a node's health report: a delivery is adopted exactly
  when its version is greater. Convergence is proved once inside it and holds for both through its
  interpretations. The rest of the theory is the invariant of the shared state under every gossip
  event and the behaviour of the single handlers.
\<close>

section \<open>Replicated values ordered by version\<close>

locale versioned_store =
  fixes content :: "'s \<Rightarrow> 'c"
    and deliver :: "'s \<Rightarrow> 'c \<Rightarrow> 's"
    and version :: "'c \<Rightarrow> 'v::linorder"
  assumes content_deliver: "content (deliver s c) = (if version c > version (content s) then c else content s)"
begin

lemma deliver_version: "version (content (deliver s c)) = max (version (content s)) (version c)"
  by (auto simp: content_deliver max_def)

lemma deliver_again: "content (deliver (deliver s c) c) = content (deliver s c)"
  by (auto simp: content_deliver)

lemma deliver_all_version:
  "version (content (foldl deliver s cs)) = Max (version ` set (content s # cs))"
proof (induction cs arbitrary: s)
  case (Cons c cs)
  have "Max (insert (max (version (content s)) (version c)) (version ` set cs)) =
      Max (insert (version (content s)) (insert (version c) (version ` set cs)))"
    by (cases "cs = []") (simp_all add: max.assoc max.left_commute)
  with Cons [of "deliver s c"] show ?case by (simp add: deliver_version)
qed simp

lemma deliver_all_mem: "content (foldl deliver s cs) \<in> set (content s # cs)"
proof (induction cs arbitrary: s)
  case (Cons c cs)
  from Cons [of "deliver s c"] show ?case by (auto simp: content_deliver split: if_splits)
qed simp

text \<open>
  Replicas that have heard of the same values hold the same value, whatever the order and number
  of deliveries, as long as no two of the values share a version.
\<close>

lemma convergence:
  assumes "set (content s # cs) = set (content t # ds)" "inj_on version (set (content s # cs))"
  shows "content (foldl deliver s cs) = content (foldl deliver t ds)"
proof (rule inj_onD [OF assms(2)])
  show "version (content (foldl deliver s cs)) = version (content (foldl deliver t ds))"
    using assms(1) by (simp only: deliver_all_version)
  show "content (foldl deliver s cs) \<in> set (content s # cs)" by (rule deliver_all_mem)
  show "content (foldl deliver t ds) \<in> set (content s # cs)" unfolding assms(1) by (rule deliver_all_mem)
qed

end

section \<open>Frames\<close>

lemma persist_frame [simp]:
  "ss_config (persist_state_with json st dc) = ss_config st"
  "ss_dynamic_config (persist_state_with json st dc) = ss_dynamic_config st"
  "ss_known_nodes (persist_state_with json st dc) = ss_known_nodes st"
  "ss_service_index (persist_state_with json st dc) = ss_service_index st"
  "ss_routes (persist_state_with json st dc) = ss_routes st"
  "ss_local_health (persist_state_with json st dc) = ss_local_health st"
  "ss_bootstrap_peers (persist_state_with json st dc) = ss_bootstrap_peers st"
  "ss_file_writable (persist_state_with json st dc) = ss_file_writable st"
  by (simp_all add: persist_state_with_def config_save_def split: option.splits)

lemma rebuild_frame [simp]:
  "ss_config (rebuild_service_index st) = ss_config st"
  "ss_dynamic_config (rebuild_service_index st) = ss_dynamic_config st"
  "ss_known_nodes (rebuild_service_index st) = ss_known_nodes st"
  "ss_service_index (rebuild_service_index st) = build_service_index (ss_dynamic_config st)"
  "ss_routes (rebuild_service_index st) = build_route_index (ss_dynamic_config st)"
  "ss_local_health (rebuild_service_index st) = ss_local_health st"
  "ss_bootstrap_peers (rebuild_service_index st) = ss_bootstrap_peers st"
  "ss_file_writable (rebuild_service_index st) = ss_file_writable st"
  "ss_file (rebuild_service_index st) = ss_file st"
  by (simp_all add: rebuild_service_index_def)

lemma adopt_frame [simp]:
  "ss_config (adopt_config json st c) = ss_config st"
  "ss_known_nodes (adopt_config json st c) = ss_known_nodes st"
  "ss_local_health (adopt_config json st c) = ss_local_health st"
  "ss_bootstrap_peers (adopt_config json st c) = ss_bootstrap_peers st"
  "ss_file_writable (adopt_config json st c) = ss_file_writable st"
  by (simp_all add: adopt_config_def)

lemma adopt_content:
  "ss_dynamic_config (adopt_config json st c) =
     (if dc_version c > dc_version (ss_dynamic_config st) then c else ss_dynamic_config st)"
  by (simp add: adopt_config_def)

lemma own_id_frame [simp]:
  "own_id (persist_state_with json st dc) = own_id st" "own_id (adopt_config json st c) = own_id st"
  "own_id (rebuild_service_index st) = own_id st"
  "own_id (st\<lparr>ss_known_nodes := kn\<rparr>) = own_id st" "own_id (st\<lparr>ss_dynamic_config := dc\<rparr>) = own_id st"
  by (simp_all add: own_id_def)

interpretation configs: versioned_store ss_dynamic_config "adopt_config json" dc_version for json
  by unfold_locales (rule adopt_content)

interpretation healths: versioned_store ni_health "\<lambda>n h. merge_health n (incoming\<lparr>ni_health := h\<rparr>)" sh_version
  for incoming
  by unfold_locales (simp add: merge_health_def not_le)

definition merged_nodes ::
  "instant \<Rightarrow> SharedState \<Rightarrow> NodeInfo list \<Rightarrow> string option \<Rightarrow> (string, NodeInfo) hash_map" where
  "merged_nodes now st nodes contact =
     refresh_contact now contact (fst (fold (merge_node (own_id st) now) nodes (ss_known_nodes st, False)))"

lemma merge_sync_eq:
  "merge_sync json now st config nodes contact =
     (let st2 = (adopt_config json st config)\<lparr>ss_known_nodes := merged_nodes now st nodes contact\<rparr> in
      if snd (fold (merge_node (own_id st) now) nodes (ss_known_nodes st, False)) then persist_state json st2 else st2)"
  by (simp add: merge_sync_def update_known_nodes_def merged_nodes_def Let_def own_id_def split: prod.splits)

lemma merge_sync_frame [simp]:
  "ss_config (merge_sync json now st config nodes contact) = ss_config st"
  "ss_dynamic_config (merge_sync json now st config nodes contact) = ss_dynamic_config (adopt_config json st config)"
  "ss_known_nodes (merge_sync json now st config nodes contact) = merged_nodes now st nodes contact"
  "ss_service_index (merge_sync json now st config nodes contact) = ss_service_index (adopt_config json st config)"
  "ss_routes (merge_sync json now st config nodes contact) = ss_routes (adopt_config json st config)"
  "ss_local_health (merge_sync json now st config nodes contact) = ss_local_health st"
  by (simp_all add: merge_sync_eq Let_def persist_state_def)

section \<open>Known nodes\<close>

text \<open>Entries are filed under their own id, and no peer's word about us is kept.\<close>

definition nodes_ok :: "string \<Rightarrow> (string, NodeInfo) hash_map \<Rightarrow> bool" where
  "nodes_ok self kn \<longleftrightarrow> hm_wf kn \<and>
     (\<forall>(k, n) \<in> set kn. ni_id n = k \<and> (k = self \<longrightarrow> ni_health n = default_service_health))"

lemma set_update_subset: "set (hm_insert m k v) \<subseteq> insert (k, v) (set m)"
  by (induction m) auto

lemma set_delete_subset: "set (hm_remove m k) \<subseteq> set m"
  by (auto simp: AList.delete_eq)

lemma nodes_ok_insert:
  assumes "nodes_ok self kn" "ni_id n = k" "k = self \<Longrightarrow> ni_health n = default_service_health"
  shows "nodes_ok self (hm_insert kn k n)"
  using assms set_update_subset [of k n kn] unfolding nodes_ok_def by (auto intro: hm_wf_insert)

lemma nodes_ok_get:
  "nodes_ok self kn \<Longrightarrow> hm_get kn k = Some n \<Longrightarrow>
     ni_id n = k \<and> (k = self \<longrightarrow> ni_health n = default_service_health)"
  by (auto simp: nodes_ok_def dest: map_of_SomeD)

lemma nodes_ok_merge_node: "nodes_ok self kn \<Longrightarrow> nodes_ok self (fst (merge_node self now node (kn, b)))"
  unfolding merge_node_def Let_def
  by (auto split: option.splits intro!: nodes_ok_insert dest: nodes_ok_get simp: merge_health_def default_service_health_def)

lemma nodes_ok_merge: "nodes_ok self kn \<Longrightarrow> nodes_ok self (fst (fold (merge_node self now) nodes (kn, b)))"
proof (induction nodes arbitrary: kn b)
  case (Cons node nodes)
  obtain kn' b' where s: "merge_node self now node (kn, b) = (kn', b')" by fastforce
  have "nodes_ok self kn'" using nodes_ok_merge_node [OF Cons.prems, of now node b] s by simp
  from Cons.IH [OF this] s show ?case by simp
qed simp

lemma nodes_ok_refresh: "nodes_ok self kn \<Longrightarrow> nodes_ok self (refresh_contact now contact kn)"
  unfolding nodes_ok_def refresh_contact_def hm_wf_def
  by (auto split: option.splits simp: comp_def case_prod_unfold)

lemma nodes_ok_join: "nodes_ok self kn \<Longrightarrow> nodes_ok self (fst (join_node now k addr kn))"
  unfolding join_node_def by (auto split: option.splits intro!: nodes_ok_insert dest: nodes_ok_get)

lemma nodes_ok_remove: "nodes_ok self kn \<Longrightarrow> nodes_ok self (hm_remove kn k)"
  unfolding nodes_ok_def by (auto intro: hm_wf_remove dest: set_delete_subset [THEN subsetD])

lemma nodes_ok_register: "nodes_ok self kn \<Longrightarrow> nodes_ok self (register_node now addr k kn)"
  unfolding register_node_def by (auto split: option.splits intro!: nodes_ok_insert dest: nodes_ok_get)

section \<open>Every gossip event\<close>

text \<open>
  What happens to the configuration, the node table, the health report and the file of a daemon: the
  first message of a connection is dispatched on (with the peer's address, the name in its
  certificate, the connection, and the wall clock), a peer replies to a sync, the file is polled, a
  round of health checks ends. Other tasks touch the pools, the counters and the shutdown flag only.
  Every change of the configuration is made and written to the file under one lock; an event is
  taken to include the rebuilding of the indexes, which the code does just after releasing it.
\<close>

datatype gossip_event =
    Received string "string option" conn u64 Message
  | SyncReply string "Message option"
  | Poll
  | HealthReport ServiceHealth

definition received ::
  "json_lib \<Rightarrow> http_lib \<Rightarrow> instant \<Rightarrow> SharedState \<Rightarrow> string \<Rightarrow> string option \<Rightarrow> conn \<Rightarrow> u64 \<Rightarrow> Message \<Rightarrow> SharedState" where
  "received json lib now st peer cn stream now_ms msg =
     (case msg of
        ReverseRegistration node_id timestamp_ms \<Rightarrow> fst (handle_reverse_registration now now_ms st stream node_id timestamp_ms)
      | AdminRequest op \<Rightarrow> fst (handle_admin_request json lib st cn op)
      | _ \<Rightarrow> fst (handle_gossip_message json now st peer msg))"

definition gossip_step :: "json_lib \<Rightarrow> http_lib \<Rightarrow> SharedState \<Rightarrow> instant \<times> gossip_event \<Rightarrow> SharedState" where
  "gossip_step json lib st ev =
     (case ev of
        (now, Received peer cn stream now_ms msg) \<Rightarrow> received json lib now st peer cn stream now_ms msg
      | (now, SyncReply addr reply) \<Rightarrow> sync_with_peer json now st addr reply
      | (_, Poll) \<Rightarrow> fst (config_poll json st None)
      | (_, HealthReport h) \<Rightarrow> st\<lparr>ss_local_health := h\<rparr>)"

definition coherent :: "SharedState \<Rightarrow> bool" where
  "coherent st \<longleftrightarrow> ss_service_index st = build_service_index (ss_dynamic_config st) \<and>
     ss_routes st = build_route_index (ss_dynamic_config st) \<and> nodes_ok (own_id st) (ss_known_nodes st)"

lemma coherent_adopt: "coherent st \<Longrightarrow> coherent (adopt_config json st c)"
  by (auto simp: coherent_def adopt_config_def)

lemma own_id_merge_sync [simp]: "own_id (merge_sync json now st config nodes contact) = own_id st"
  by (simp add: own_id_def)

lemma coherent_merge_sync: "coherent st \<Longrightarrow> coherent (merge_sync json now st config nodes contact)"
  using coherent_adopt [of st json config]
  by (simp add: coherent_def merged_nodes_def nodes_ok_refresh nodes_ok_merge)

lemma coherent_persist [simp]: "coherent (persist_state json st) = coherent st"
  by (simp add: coherent_def persist_state_def)

lemma coherent_known: "coherent st \<Longrightarrow> nodes_ok (own_id st) kn \<Longrightarrow> coherent (st\<lparr>ss_known_nodes := kn\<rparr>)"
  by (simp add: coherent_def)

lemma coherent_apply: "coherent st \<Longrightarrow> coherent (apply_message json now st msg)"
proof (cases msg)
  case (NodeJoin node_id addr)
  assume c: "coherent st"
  obtain kn b where j: "join_node now node_id addr (ss_known_nodes st) = (kn, b)" by fastforce
  have "nodes_ok (own_id st) kn"
    using nodes_ok_join [of "own_id st" "ss_known_nodes st" now node_id addr] c j by (simp add: coherent_def)
  with c NodeJoin j show ?thesis
    by (auto simp: apply_message_def update_known_nodes_def coherent_known)
next
  case (NodeLeave node_id)
  assume "coherent st"
  with NodeLeave show ?thesis
    by (simp add: apply_message_def update_known_nodes_def coherent_def nodes_ok_remove)
qed (auto simp: apply_message_def coherent_adopt coherent_merge_sync)

lemma coherent_rewrite:
  "coherent st \<Longrightarrow> coherent (rebuild_service_index (persist_state_with json (st\<lparr>ss_dynamic_config := dc\<rparr>) dc))"
  by (simp add: coherent_def)

lemma coherent_admin: "coherent st \<Longrightarrow> coherent (fst (handle_admin_request json lib st cn op))"
  by (auto simp: handle_admin_request_def Let_def coherent_rewrite split: sum.split)

lemma register_frame [simp]:
  "ss_config (fst (handle_reverse_registration now now_ms st stream k ts)) = ss_config st"
  "ss_dynamic_config (fst (handle_reverse_registration now now_ms st stream k ts)) = ss_dynamic_config st"
  "ss_file (fst (handle_reverse_registration now now_ms st stream k ts)) = ss_file st"
  "ss_file_writable (fst (handle_reverse_registration now now_ms st stream k ts)) = ss_file_writable st"
  by (simp_all add: handle_reverse_registration_def Let_def)

lemma coherent_register: "coherent st \<Longrightarrow> coherent (fst (handle_reverse_registration now now_ms st stream k ts))"
  by (auto simp: handle_reverse_registration_def Let_def coherent_def nodes_ok_register own_id_def)

lemma coherent_step: "coherent st \<Longrightarrow> coherent (gossip_step json lib st ev)"
proof -
  assume c: "coherent st"
  obtain now e where ev: "ev = (now, e)" by fastforce
  show ?thesis
  proof (cases e)
    case (Received peer cn stream now_ms msg)
    with c ev show ?thesis
      by (cases msg) (simp_all add: gossip_step_def received_def handle_gossip_message_def Let_def coherent_merge_sync coherent_apply
          coherent_admin coherent_register)
  next
    case (SyncReply addr reply)
    with c ev show ?thesis
      by (auto simp: gossip_step_def sync_with_peer_def coherent_merge_sync split: option.splits Message.splits)
  next
    case Poll
    with c ev show ?thesis
      by (auto simp: gossip_step_def config_poll_def Let_def coherent_rewrite split: option.splits)
  next
    case (HealthReport h)
    with c ev show ?thesis by (simp add: gossip_step_def coherent_def own_id_def)
  qed
qed

text \<open>The ids in the node table, and those that reverse registrations brought in.\<close>

abbreviation node_ids :: "SharedState \<Rightarrow> string set" where
  "node_ids st \<equiv> fst ` set (ss_known_nodes st)"

fun registered_id :: "gossip_event \<Rightarrow> string set" where
  "registered_id (Received _ _ _ _ (ReverseRegistration k _)) = {k}"
| "registered_id _ = {}"

lemma ids_insert: "fst ` set (hm_insert kn k n) = insert k (fst ` set kn)"
  by (simp add: dom_update)

lemma ids_merge_node: "fst ` set (fst (merge_node self now node (kn, b))) \<subseteq> fst ` set kn \<union> {k. is_valid_node_id k}"
  unfolding merge_node_def Let_def by (auto simp: ids_insert split: option.split)

lemma ids_merge: "fst ` set (fst (fold (merge_node self now) nodes (kn, b))) \<subseteq> fst ` set kn \<union> {k. is_valid_node_id k}"
proof (induction nodes arbitrary: kn b)
  case (Cons node nodes)
  obtain kn' b' where s: "merge_node self now node (kn, b) = (kn', b')" by fastforce
  have "fst ` set kn' \<subseteq> fst ` set kn \<union> {k. is_valid_node_id k}" using ids_merge_node [of self now node kn b] s by simp
  with Cons.IH [of kn' b'] s show ?case by auto
qed simp

lemma ids_refresh: "fst ` set (refresh_contact now contact kn) = fst ` set kn"
  by (auto simp: refresh_contact_def image_image case_prod_unfold split: option.split)

lemma ids_merge_sync: "node_ids (merge_sync json now st config nodes contact) \<subseteq> node_ids st \<union> {k. is_valid_node_id k}"
  using ids_merge [of "own_id st" now nodes "ss_known_nodes st" False] by (simp add: merged_nodes_def ids_refresh)

lemma ids_apply: "node_ids (apply_message json now st msg) \<subseteq> node_ids st \<union> {k. is_valid_node_id k}"
proof (cases msg)
  case (Sync config nodes)
  then show ?thesis using ids_merge_sync by (simp add: apply_message_def)
next
  case (NodeLeave k)
  then show ?thesis using set_delete_subset [of k "ss_known_nodes st"]
    by (auto simp: apply_message_def update_known_nodes_def)
qed (auto simp: apply_message_def update_known_nodes_def join_node_def persist_state_def ids_insert split: option.splits prod.splits)

lemma ids_admin: "ss_known_nodes (fst (handle_admin_request json lib st cn op)) = ss_known_nodes st"
  by (auto simp: handle_admin_request_def Let_def split: sum.split)

lemma ids_register: "node_ids (fst (handle_reverse_registration now now_ms st stream k ts)) \<subseteq> insert k (node_ids st)"
  by (auto simp: handle_reverse_registration_def Let_def register_node_def ids_insert split: option.split)

lemma ids_sync_reply: "node_ids (sync_with_peer json now st addr reply) \<subseteq> node_ids st \<union> {k. is_valid_node_id k}"
proof -
  have "sync_with_peer json now st addr reply = st \<or>
      (\<exists>c ns contact. sync_with_peer json now st addr reply = merge_sync json now st c ns contact)"
    by (auto simp: sync_with_peer_def split: option.split Message.split)
  then show ?thesis using ids_merge_sync by (metis sup_ge1)
qed

lemma ids_step: "node_ids (gossip_step json lib st ev) \<subseteq> node_ids st \<union> {k. is_valid_node_id k} \<union> registered_id (snd ev)"
proof -
  obtain now e where ev: "ev = (now, e)" by fastforce
  show ?thesis
  proof (cases e)
    case (Received peer cn stream now_ms msg)
    have "node_ids (received json lib now st peer cn stream now_ms msg) \<subseteq> node_ids st \<union> {k. is_valid_node_id k} \<union> registered_id e"
    proof (cases msg)
      case (Sync config nodes)
      let ?ns = "if peer \<noteq> [] then fix_unroutable_addrs nodes peer else nodes"
      have "node_ids (merge_sync json now st config ?ns None) \<subseteq> node_ids st \<union> {k. is_valid_node_id k}"
        by (rule ids_merge_sync)
      moreover have "received json lib now st peer cn stream now_ms msg = merge_sync json now st config ?ns None"
        using Sync by (simp add: received_def handle_gossip_message_def Let_def)
      ultimately show ?thesis by (metis le_supI1)
    next
      case (ReverseRegistration j ts)
      then show ?thesis using Received ids_register [of now now_ms st stream j ts] by (auto simp: received_def)
    next
      case (AdminRequest op)
      then show ?thesis by (auto simp: received_def ids_admin)
    qed (use ids_apply [of json now st msg] in \<open>auto simp: received_def handle_gossip_message_def\<close>)
    with Received ev show ?thesis by (simp add: gossip_step_def)
  next
    case (SyncReply addr reply)
    with ev ids_sync_reply [of json now st addr reply] show ?thesis by (auto simp: gossip_step_def)
  next
    case Poll
    with ev show ?thesis by (auto simp: gossip_step_def config_poll_def Let_def split: option.splits)
  next
    case (HealthReport h)
    with ev show ?thesis by (simp add: gossip_step_def)
  qed
qed

text \<open>
  C14. Whatever messages, registrations, admin calls, file polls and health reports a daemon handles,
  in whatever order, its service and route indexes are those of its current configuration, its node
  table has one entry per node filed under that node's own id, and it never keeps a peer's report of
  its own health. Every id in the table is valid, except that a reverse registration enters whatever
  id it gives.
\<close>

theorem gossip_coherent:
  "coherent (foldl (gossip_step json lib) (new_state config tls file writable) evs) \<and>
   node_ids (foldl (gossip_step json lib) (new_state config tls file writable) evs) \<subseteq>
     {k. is_valid_node_id k} \<union> (\<Union>ev \<in> set evs. registered_id (snd ev))"
proof (induction evs rule: rev_induct)
  case Nil
  show ?case by (simp add: coherent_def new_state_def nodes_ok_def)
next
  case (snoc ev evs)
  let ?st = "foldl (gossip_step json lib) (new_state config tls file writable) evs"
  have "node_ids (gossip_step json lib ?st ev) \<subseteq>
      {k. is_valid_node_id k} \<union> (\<Union>ev \<in> set evs. registered_id (snd ev)) \<union> registered_id (snd ev)"
    using snoc.IH ids_step [of json lib ?st ev] by blast
  with snoc.IH show ?case by (auto simp: coherent_step)
qed

section \<open>Versions only grow\<close>

lemma apply_admin_op_version:
  "apply_admin_op lib dc op = Inr (dc', v) \<Longrightarrow> dc_version dc' = dc_version dc + 1 \<and> v = dc_version dc'"
  by (auto simp: apply_admin_op_def upsert_service_def set_routes_def rename_service_def remove_service_def
      loop_simps Let_def bump_version_def split: AdminOp.splits option.splits sum.splits if_splits)

lemma version_succ: "v \<noteq> - 1 \<Longrightarrow> v < v + (1 :: u64)"
proof -
  assume "v \<noteq> - 1"
  then have "v + 1 \<noteq> 0" by (metis add_eq_0_iff2)
  then show ?thesis by (simp add: word_less_nat_alt unatSuc add.commute [of v])
qed

lemma apply_message_config:
  "ss_dynamic_config (apply_message json now st msg) =
     (case msg of ConfigUpdate c \<Rightarrow> ss_dynamic_config (adopt_config json st c)
      | Sync c nodes \<Rightarrow> ss_dynamic_config (adopt_config json st c) | _ \<Rightarrow> ss_dynamic_config st)"
  by (cases msg) (auto simp: apply_message_def update_known_nodes_def persist_state_def split: prod.splits)

lemma admin_version:
  assumes "dc_version (ss_dynamic_config st) \<noteq> - 1"
  shows "ss_dynamic_config (fst (handle_admin_request json lib st cn op)) = ss_dynamic_config st \<or>
    dc_version (ss_dynamic_config st) < dc_version (ss_dynamic_config (fst (handle_admin_request json lib st cn op)))"
  using version_succ [OF assms]
  by (auto simp: handle_admin_request_def Let_def dest!: apply_admin_op_version split: sum.splits)

lemma gossip_step_version:
  assumes "dc_version (ss_dynamic_config st) \<noteq> - 1"
  shows "ss_dynamic_config (gossip_step json lib st ev) = ss_dynamic_config st \<or>
    dc_version (ss_dynamic_config st) < dc_version (ss_dynamic_config (gossip_step json lib st ev))"
proof -
  note s = version_succ [OF assms]
  obtain now e where ev: "ev = (now, e)" by fastforce
  show ?thesis
  proof (cases e)
    case (Received peer cn stream now_ms msg)
    with ev admin_version [OF assms] show ?thesis
      by (cases msg) (auto simp: gossip_step_def received_def handle_gossip_message_def Let_def adopt_content apply_message_config)
  next
    case (SyncReply addr reply)
    with ev show ?thesis
      by (auto simp: gossip_step_def sync_with_peer_def adopt_content split: option.splits Message.splits)
  next
    case Poll
    with ev s show ?thesis
      by (auto simp: gossip_step_def config_poll_def Let_def split: option.splits)
  next
    case (HealthReport h)
    with ev show ?thesis by (simp add: gossip_step_def)
  qed
qed

text \<open>
  No gossip event changes the configuration without raising its version (as long as the 64-bit
  version has not reached its maximum).
\<close>

theorem config_version_grows:
  assumes "dc_version (ss_dynamic_config st) \<noteq> - 1"
  shows "ss_dynamic_config (gossip_step json lib st ev) = ss_dynamic_config st \<or>
    dc_version (ss_dynamic_config st) < dc_version (ss_dynamic_config (gossip_step json lib st ev))"
  using assms by (rule gossip_step_version)

section \<open>Convergence\<close>

lemma deliver_updates:
  "foldl (\<lambda>st c. apply_message json now st (ConfigUpdate c)) st cs = foldl (adopt_config json) st cs"
  by (induction cs arbitrary: st) (simp_all add: apply_message_def)

text \<open>
  C2. Two daemons that have heard of the same configurations hold the same one, in whatever order
  and however often the updates reached them, provided no two of the configurations share a version.
\<close>

theorem config_convergence:
  assumes "set (ss_dynamic_config a # cs) = set (ss_dynamic_config b # ds)"
    and "inj_on dc_version (set (ss_dynamic_config a # cs))"
  shows "ss_dynamic_config (foldl (\<lambda>st c. apply_message json now st (ConfigUpdate c)) a cs) =
    ss_dynamic_config (foldl (\<lambda>st c. apply_message json now' st (ConfigUpdate c)) b ds)"
  unfolding deliver_updates using assms by (rule configs.convergence)

text \<open>
  One sync exchange, initiated by one daemon and answered by the other, leaves both with the
  newer of their configurations; configurations of equal version are both kept, even when they differ.
\<close>

theorem sync_exchange:
  "case handle_gossip_message json now b peer (on_wire (build_sync_msg a)) of
     (b', reply) \<Rightarrow>
       ss_dynamic_config b' =
         (if dc_version (ss_dynamic_config a) > dc_version (ss_dynamic_config b)
          then ss_dynamic_config a else ss_dynamic_config b) \<and>
       ss_dynamic_config (sync_with_peer json' now' a addr (map_option on_wire reply)) =
         (if dc_version (ss_dynamic_config b) > dc_version (ss_dynamic_config a)
          then ss_dynamic_config b else ss_dynamic_config a)"
  by (auto simp: handle_gossip_message_def build_sync_msg_def sync_with_peer_def Let_def adopt_content on_wire_def)

section \<open>Health reports\<close>

definition health_grows :: "ServiceHealth \<Rightarrow> ServiceHealth \<Rightarrow> bool" where
  "health_grows h h' \<longleftrightarrow> h' = h \<or> sh_version h < sh_version h'"

lemma health_grows_trans: "health_grows a b \<Longrightarrow> health_grows b c \<Longrightarrow> health_grows a c"
  by (auto simp: health_grows_def)

lemma merge_node_health:
  assumes "hm_get kn k = Some n"
  shows "\<exists>n'. hm_get (fst (merge_node self now node (kn, b))) k = Some n' \<and> health_grows (ni_health n) (ni_health n')"
  using assms by (auto simp: merge_node_def Let_def merge_health_def health_grows_def not_le split: option.splits)

lemma merge_nodes_health:
  assumes "hm_get kn k = Some n"
  shows "\<exists>n'. hm_get (fst (fold (merge_node self now) nodes (kn, b))) k = Some n' \<and> health_grows (ni_health n) (ni_health n')"
  using assms
proof (induction nodes arbitrary: kn b n)
  case Nil
  then show ?case by (simp add: health_grows_def)
next
  case (Cons node nodes)
  obtain kn1 b1 where m: "merge_node self now node (kn, b) = (kn1, b1)" by fastforce
  obtain n1 where n1: "hm_get kn1 k = Some n1" "health_grows (ni_health n) (ni_health n1)"
    using merge_node_health [OF Cons.prems, of self now node b] m by auto
  from Cons.IH [OF n1(1), of b1] n1(2) m show ?case by (auto intro: health_grows_trans)
qed

lemma refresh_health:
  "hm_get kn k = Some n \<Longrightarrow> \<exists>n'. hm_get (refresh_contact now contact kn) k = Some n' \<and> ni_health n' = ni_health n"
  by (induction kn) (auto simp: refresh_contact_def split: option.splits if_splits)

lemma merged_nodes_health:
  assumes "hm_get (ss_known_nodes st) k = Some n"
  shows "\<exists>n'. hm_get (merged_nodes now st nodes contact) k = Some n' \<and> health_grows (ni_health n) (ni_health n')"
  using merge_nodes_health [OF assms, of "own_id st" now nodes False] refresh_health [of _ k _ now contact]
  unfolding merged_nodes_def by fastforce

lemma apply_message_health:
  assumes "hm_get (ss_known_nodes st) k = Some n"
  shows "(\<exists>n'. hm_get (ss_known_nodes (apply_message json now st msg)) k = Some n' \<and>
      health_grows (ni_health n) (ni_health n')) \<or> msg = NodeLeave k"
proof (cases msg)
  case (NodeJoin node_id addr)
  then show ?thesis using assms
    by (auto simp: apply_message_def update_known_nodes_def join_node_def persist_state_def health_grows_def
        split: option.splits)
next
  case (Sync config nodes)
  then show ?thesis using merged_nodes_health [OF assms] by (simp add: apply_message_def)
qed (use assms in \<open>auto simp: apply_message_def update_known_nodes_def health_grows_def\<close>)

lemma register_health:
  assumes "hm_get (ss_known_nodes st) k = Some n"
  shows "\<exists>n'. hm_get (ss_known_nodes (fst (handle_reverse_registration now now_ms st stream j ts))) k = Some n' \<and>
    ni_health n' = ni_health n"
  using assms by (auto simp: handle_reverse_registration_def Let_def register_node_def split: option.split)

lemma received_apply:
  assumes "\<nexists>c ns. msg = Sync c ns" "\<nexists>j ts. msg = ReverseRegistration j ts" "\<nexists>op. msg = AdminRequest op"
  shows "received json lib now st peer cn stream now_ms msg = apply_message json now st msg"
  using assms by (cases msg) (simp_all add: received_def handle_gossip_message_def)

text \<open>
  What a daemon believes about the health of a node's services only moves forward: while a node
  stays known, its report is replaced only by one of a greater version, and it is forgotten only when
  the node is announced to have left.
\<close>

theorem node_health_grows:
  assumes "hm_get (ss_known_nodes st) k = Some n"
  shows "(\<exists>n'. hm_get (ss_known_nodes (gossip_step json lib st ev)) k = Some n' \<and>
      health_grows (ni_health n) (ni_health n')) \<or> (\<exists>peer cn stream now_ms. snd ev = Received peer cn stream now_ms (NodeLeave k))"
proof -
  obtain now e where ev: "ev = (now, e)" by fastforce
  have refl: "health_grows h h" for h by (simp add: health_grows_def)
  show ?thesis
  proof (cases e)
    case (Received peer cn stream now_ms msg)
    consider c ns where "msg = Sync c ns" | j ts where "msg = ReverseRegistration j ts" | op where "msg = AdminRequest op"
      | "received json lib now st peer cn stream now_ms msg = apply_message json now st msg"
      using received_apply by blast
    then show ?thesis
    proof cases
      case 1
      with Received ev show ?thesis
        using merged_nodes_health [OF assms] by (auto simp: gossip_step_def received_def handle_gossip_message_def Let_def)
    next
      case 2
      with Received ev refl register_health [OF assms, of now now_ms stream j ts] show ?thesis
        by (auto simp: gossip_step_def received_def)
    next
      case 3
      with Received ev assms refl show ?thesis by (simp add: gossip_step_def received_def ids_admin)
    next
      case 4
      with Received ev show ?thesis using apply_message_health [OF assms, of json now msg] by (auto simp: gossip_step_def)
    qed
  next
    case (SyncReply addr reply)
    with ev show ?thesis
      using merged_nodes_health [OF assms] assms refl
      by (auto simp: gossip_step_def sync_with_peer_def split: option.splits Message.splits)
  next
    case Poll
    with ev assms refl show ?thesis
      by (auto simp: gossip_step_def config_poll_def Let_def split: option.splits)
  next
    case (HealthReport h)
    with ev assms refl show ?thesis by (simp add: gossip_step_def)
  qed
qed

section \<open>The file follows memory\<close>

text \<open>
  Writing a configuration to the file and reading it back gives that configuration: what
  \<^verbatim>\<open>serde_json\<close> promises for the value a step writes.
\<close>

definition json_faithful :: "json_lib \<Rightarrow> SharedState \<Rightarrow> DynamicConfig \<Rightarrow> bool" where
  "json_faithful json st dc \<longleftrightarrow>
     (\<forall>c. config_load json st = Some c \<longrightarrow>
        from_json json (to_json json (c\<lparr>cfg_dynamic_config := dc\<rparr>)) = Some (c\<lparr>cfg_dynamic_config := dc\<rparr>))"

text \<open>
  The file holds the configuration in memory, beside the daemon's own settings \<open>base\<close>. It is stable when
  it can also be written again.
\<close>

definition file_synced :: "json_lib \<Rightarrow> Config \<Rightarrow> SharedState \<Rightarrow> bool" where
  "file_synced json base st \<longleftrightarrow> ss_file_writable st \<and>
     config_load json st = Some (base\<lparr>cfg_dynamic_config := ss_dynamic_config st\<rparr>)"

definition file_stable :: "json_lib \<Rightarrow> Config \<Rightarrow> SharedState \<Rightarrow> bool" where
  "file_stable json base st \<longleftrightarrow> file_synced json base st \<and> json_faithful json st (ss_dynamic_config st)"

lemma persist_stable:
  assumes "json_faithful json st dc" "ss_file_writable st" "ss_dynamic_config st = dc"
    and "config_load json st = Some (base\<lparr>cfg_dynamic_config := old\<rparr>)"
  shows "file_stable json base (persist_state_with json st dc)"
  using assms
  by (auto simp: file_stable_def file_synced_def json_faithful_def persist_state_with_def config_save_def config_load_def)

lemma file_stable_cong:
  "ss_file st' = ss_file st \<Longrightarrow> ss_file_writable st' = ss_file_writable st \<Longrightarrow>
     ss_dynamic_config st' = ss_dynamic_config st \<Longrightarrow> file_stable json base st' = file_stable json base st"
  by (simp add: file_stable_def file_synced_def json_faithful_def config_load_def)

lemma synced_readable:
  "file_synced json base st \<Longrightarrow>
     ss_file_writable st \<and> config_load json st = Some (base\<lparr>cfg_dynamic_config := ss_dynamic_config st\<rparr>)"
  by (auto simp: file_synced_def)

lemma rewrite_stable:
  assumes "json_faithful json st dc" "file_synced json base st"
  shows "file_stable json base (rebuild_service_index (persist_state_with json (st\<lparr>ss_dynamic_config := dc\<rparr>) dc))"
proof -
  have "file_stable json base (persist_state_with json (st\<lparr>ss_dynamic_config := dc\<rparr>) dc)"
    using assms synced_readable [OF assms(2)]
    by (intro persist_stable) (auto simp: config_load_def json_faithful_def)
  then show ?thesis by (subst file_stable_cong) simp_all
qed

lemma adopt_stable:
  assumes "json_faithful json st (ss_dynamic_config (adopt_config json st c))" "file_synced json base st"
  shows "file_stable json base (adopt_config json st c)"
  using assms rewrite_stable [of json st c] by (auto simp: adopt_config_def file_stable_def)

lemma stable_known: "file_stable json base (st\<lparr>ss_known_nodes := kn\<rparr>) = file_stable json base st"
  by (rule file_stable_cong) simp_all

lemma persist_state_stable: "file_stable json base st \<Longrightarrow> file_stable json base (persist_state json st)"
  unfolding persist_state_def
  by (rule persist_stable) (auto simp: file_stable_def dest: synced_readable)

lemma merge_sync_stable:
  assumes "json_faithful json st (ss_dynamic_config (adopt_config json st c))" "file_synced json base st"
  shows "file_stable json base (merge_sync json now st c nodes contact)"
  using adopt_stable [OF assms] by (simp add: merge_sync_eq Let_def stable_known persist_state_stable)

lemma apply_message_stable:
  assumes "json_faithful json st (ss_dynamic_config (apply_message json now st msg))" "file_synced json base st"
  shows "file_stable json base (apply_message json now st msg)"
proof (cases msg)
  case (NodeJoin node_id addr)
  have "file_stable json base st"
    using assms NodeJoin by (simp add: apply_message_config file_stable_def)
  with NodeJoin show ?thesis
    by (auto simp: apply_message_def update_known_nodes_def stable_known persist_state_stable split: prod.splits)
next
  case (NodeLeave node_id)
  with assms show ?thesis
    by (simp add: apply_message_def update_known_nodes_def stable_known) (simp add: file_stable_def)
qed (use assms in \<open>auto simp: apply_message_config apply_message_def adopt_stable merge_sync_stable file_stable_def [of _ _ st]\<close>)

lemma synced_poll_idle: "file_synced json base st \<Longrightarrow> config_poll json st warned = (st, warned, [])"
  by (auto simp: file_synced_def config_poll_def Let_def)

lemma admin_stable:
  assumes "json_faithful json st (ss_dynamic_config (fst (handle_admin_request json lib st cn op)))" "file_synced json base st"
  shows "file_stable json base (fst (handle_admin_request json lib st cn op))"
  using assms
  by (auto simp: handle_admin_request_def Let_def rewrite_stable file_stable_def [of _ _ st] split: sum.splits if_splits)

lemma register_stable:
  "file_stable json base (fst (handle_reverse_registration now now_ms st stream k ts)) = file_stable json base st"
  by (rule file_stable_cong) simp_all

text \<open>
  While the configuration file is writable and readable, it holds the configuration in memory:
  every event that changes one writes the other, so a restart resumes from the latest configuration.
  A poll of such a file changes and broadcasts nothing.
\<close>

theorem file_follows_memory:
  assumes "file_synced json base st"
    and "json_faithful json st (ss_dynamic_config (gossip_step json lib st ev))"
  shows "file_synced json base (gossip_step json lib st ev) \<and> config_poll json st warned = (st, warned, [])"
proof
  obtain now e where ev: "ev = (now, e)" by fastforce
  have "file_stable json base (gossip_step json lib st ev)"
  proof (cases e)
    case (Received peer cn stream now_ms msg)
    with ev assms show ?thesis
      by (cases msg) (simp_all add: gossip_step_def received_def handle_gossip_message_def Let_def merge_sync_stable
          apply_message_stable admin_stable register_stable file_stable_def [of _ _ st])
  next
    case (SyncReply addr reply)
    with ev assms show ?thesis
      by (auto simp: gossip_step_def sync_with_peer_def merge_sync_stable file_stable_def [of _ _ st]
          split: option.splits Message.splits)
  next
    case Poll
    with ev assms show ?thesis by (simp add: gossip_step_def synced_poll_idle file_stable_def)
  next
    case (HealthReport h)
    with ev assms show ?thesis
      by (simp add: gossip_step_def file_stable_def file_synced_def json_faithful_def config_load_def)
  qed
  then show "file_synced json base (gossip_step json lib st ev)" by (simp add: file_stable_def)
  show "config_poll json st warned = (st, warned, [])" using assms(1) by (rule synced_poll_idle)
qed

text \<open>
  A poll adopts the file exactly when it is ahead of memory, or level with it with other
  services; the adopted version is then ahead of memory, every peer is told, and the file is written
  back. A file that is behind is never adopted. A file level with memory that differs in its routes
  only is not adopted either.
\<close>

theorem config_poll_spec:
  assumes "config_load json st = Some c" "dc_version (ss_dynamic_config st) \<noteq> - 1"
  shows "case config_poll json st warned of (st', warned', out) \<Rightarrow>
    if dc_version (cfg_dynamic_config c) > dc_version (ss_dynamic_config st) \<or>
       dc_version (cfg_dynamic_config c) = dc_version (ss_dynamic_config st) \<and>
       dc_service_groups (cfg_dynamic_config c) \<noteq> dc_service_groups (ss_dynamic_config st)
    then dc_version (ss_dynamic_config st') > dc_version (ss_dynamic_config st) \<and>
      ss_dynamic_config st' = (cfg_dynamic_config c)\<lparr>dc_version := dc_version (ss_dynamic_config st')\<rparr> \<and>
      out = map (\<lambda>addr. (addr, ConfigUpdate (ss_dynamic_config st'))) (peer_addrs st)
    else st' = st \<and> out = []"
  using assms version_succ [OF assms(2)]
  by (auto simp: config_poll_def Let_def broadcast_message_def peer_addrs_def)

section \<open>Admin requests\<close>

lemma admin_allowed_iff: "admin_allowed st cn \<longleftrightarrow> (\<exists>name. cn = Some name \<and> name \<in> set (cfg_admin_cns (ss_config st)))"
  by (simp add: admin_allowed_def split: option.split)

lemma persist_file:
  "ss_file (persist_state_with json (st\<lparr>ss_dynamic_config := dc\<rparr>) dc) =
     (case config_load json st of
        Some c \<Rightarrow> if ss_file_writable st then Some (to_json json (c\<lparr>cfg_dynamic_config := dc\<rparr>)) else ss_file st
      | None \<Rightarrow> ss_file st)"
  by (simp add: persist_state_with_def config_save_def config_load_def split: option.split)

lemma admin_err_code_eq:
  "admin_err_code e =
     (if (\<exists>g. e = GroupNotFound g) \<or> (\<exists>g n s. e = ServiceNotFound g n s) then NotFound else Validation)"
  by (cases e) (simp_all add: admin_err_code_def)

text \<open>
  C15. The outcome of an admin request on every branch. A caller whose certificate name is not on
  the allowlist is told so; on a daemon that only subscribes, a caller on the list is told that; an
  operation that fails is reported with its own code and message. In each of these cases the state is
  untouched and nothing is sent to the peers. Otherwise the reply carries the new version, one above
  the old; the daemon holds the configuration the operation gives, both its indexes are rebuilt from
  it, it is written to the file and sent to every peer, and the node table and the daemon's own
  settings stay as they are.
\<close>

theorem admin_request_spec:
  "case handle_admin_request json lib st cn op of (st', reply, out) \<Rightarrow>
     (if \<not> (\<exists>name. cn = Some name \<and> name \<in> set (cfg_admin_cns (ss_config st)))
      then st' = st \<and> out = [] \<and> reply = AdminErr Unauthorized ''client cert CN not in adminCns allowlist''
      else if cfg_mode (ss_config st) = Subscribe
      then st' = st \<and> out = [] \<and> reply = AdminErr Validation ''admin RPC not supported in subscribe-only mode''
      else case apply_admin_op lib (ss_dynamic_config st) op of
        Inl e \<Rightarrow> st' = st \<and> out = [] \<and>
          reply = AdminErr (if (\<exists>g. e = GroupNotFound g) \<or> (\<exists>g n s. e = ServiceNotFound g n s) then NotFound else Validation)
                    (mutate_err_string e)
      | Inr (dc, v) \<Rightarrow>
          reply = AdminOk v \<and> v = dc_version (ss_dynamic_config st) + 1 \<and> dc_version dc = v \<and>
          ss_dynamic_config st' = dc \<and>
          ss_service_index st' = build_service_index dc \<and> ss_routes st' = build_route_index dc \<and>
          ss_file st' = (case config_load json st of
             Some c \<Rightarrow> if ss_file_writable st then Some (to_json json (c\<lparr>cfg_dynamic_config := dc\<rparr>)) else ss_file st
           | None \<Rightarrow> ss_file st) \<and>
          out = map (\<lambda>addr. (addr, ConfigUpdate dc)) (peer_addrs st) \<and>
          ss_known_nodes st' = ss_known_nodes st \<and> ss_config st' = ss_config st)"
proof (cases "apply_admin_op lib (ss_dynamic_config st) op")
  case (Inl e)
  then show ?thesis
    unfolding admin_allowed_iff [symmetric] admin_err_code_eq [symmetric] by (simp add: handle_admin_request_def)
next
  case (Inr r)
  obtain dc v where r: "r = (dc, v)" by (cases r)
  with Inr have "v = dc_version dc" "dc_version dc = dc_version (ss_dynamic_config st) + 1"
    using apply_admin_op_version by blast+
  with Inr r show ?thesis
    unfolding admin_allowed_iff [symmetric] persist_file [symmetric]
    by (simp add: handle_admin_request_def Let_def broadcast_message_def peer_addrs_def)
qed

text \<open>
  A service survives its trip through the admin RPC: adding it with an operation built from a
  service inserts that very service, every field included, unless its health path is malformed.
\<close>

theorem service_add_carries:
  "apply_admin_op lib dc (service_add grp svc) =
     (case svc_health_path svc of
        None \<Rightarrow> Inr (upsert_service dc grp svc)
      | Some path \<Rightarrow>
          (case validate_health_path path of
             Inl msg \<Rightarrow> Inl (Invalid msg) | Inr _ \<Rightarrow> Inr (upsert_service dc grp svc)))"
proof -
  have "service_of_add (service_add grp svc) = svc"
    by (simp add: service_of_add_def service_add_def)
  moreover have "\<exists>a b c d e f g h i j k l. service_add grp svc = ServiceAdd grp a b c d e f g h i j k l"
    by (simp add: service_add_def)
  ultimately show ?thesis
    by (auto simp: apply_admin_op_def split: option.splits sum.splits)
qed

section \<open>Snapshots and peers\<close>

text \<open>
  A daemon that has an id tells its peers about every node it knows and, exactly once, about
  itself, with its own address and its own latest health.
\<close>

theorem snapshot_spec:
  assumes "coherent st" "own_id st \<noteq> []"
  shows "\<exists>self. filter (\<lambda>n. ni_id n = own_id st) (snapshot_nodes st) = [self] \<and>
    ni_addr self = self_addr st \<and> ni_health self = ss_local_health st \<and>
    filter (\<lambda>n. ni_id n \<noteq> own_id st) (snapshot_nodes st) =
      filter (\<lambda>n. ni_id n \<noteq> own_id st) (hm_values (ss_known_nodes st))"
proof -
  let ?kn = "hm_values (ss_known_nodes st)" and ?me = "\<lambda>n. ni_id n = own_id st"
  let ?upd = "\<lambda>n. n\<lparr>ni_addr := self_addr st, ni_health := ss_local_health st\<rparr>"
  have ids: "map ni_id ?kn = map fst (ss_known_nodes st)"
    using assms(1) by (auto simp: coherent_def nodes_ok_def)
  have dist: "distinct (map ni_id ?kn)"
    unfolding ids using assms(1) by (simp add: coherent_def nodes_ok_def hm_wf_def)
  show ?thesis
  proof (cases "find ?me ?kn")
    case None
    then have "filter ?me ?kn = []" by (auto simp: find_None_iff filter_empty_conv)
    with None assms(2) show ?thesis by (simp add: snapshot_nodes_def Let_def)
  next
    case (Some n)
    from update_first_split [OF this, of ?upd] obtain us vs where
      kn: "?kn = us @ n # vs" and n: "?me n" and us: "\<forall>u \<in> set us. \<not> ?me u"
      and upd: "update_first ?me ?upd ?kn = us @ ?upd n # vs" by blast
    have "\<forall>v \<in> set vs. \<not> ?me v" using dist n unfolding kn by (auto intro: rev_image_eqI)
    with us have "filter ?me us = []" "filter ?me vs = []" by (auto simp: filter_empty_conv)
    moreover have "snapshot_nodes st = us @ ?upd n # vs"
      using Some assms(2) upd by (simp add: snapshot_nodes_def)
    ultimately show ?thesis using n by (simp add: kn)
  qed
qed

lemma set_add_peers: "set (fold add_peer ns addrs) = set addrs \<union> {ni_addr n |n. n \<in> set ns \<and> ni_addr n \<noteq> []}"
  by (induction ns arbitrary: addrs) (auto simp: add_peer_def)

lemma distinct_add_peers: "distinct (fold add_peer ns addrs) = distinct addrs"
  by (induction ns arbitrary: addrs) (auto simp: add_peer_def)

text \<open>
  The peers a daemon syncs with are its bootstrap peers and every known address, each once.
\<close>

theorem peer_addrs_spec:
  "set (peer_addrs st) = set (ss_bootstrap_peers st) \<union> (ni_addr ` set (hm_values (ss_known_nodes st)) - {[]}) \<and>
   distinct (peer_addrs st) = distinct (ss_bootstrap_peers st)"
  by (auto simp: peer_addrs_def set_add_peers distinct_add_peers)

section \<open>Concrete daemons\<close>

definition sample_config :: Config where
  "sample_config = default_config\<lparr>cfg_node_id := ''n1'', cfg_dynamic_config := sample_dc\<rparr>"

text \<open>A file format in which every text stands for one configuration.\<close>

definition sample_json :: json_lib where
  "sample_json = \<lparr>to_json = (\<lambda>c. dec_string (unat (dc_version (cfg_dynamic_config c)))),
     from_json = (\<lambda>t. if t = ''7'' then Some sample_config else None)\<rparr>"

definition sample_state :: SharedState where
  "sample_state = new_state sample_config True (Some ''7'') True"

lemma sample_state_simps [simp]:
  "ss_dynamic_config sample_state = sample_dc" "ss_known_nodes sample_state = []" "own_id sample_state = ''n1''"
  "ss_file sample_state = Some ''7''" "ss_file_writable sample_state"
  by (simp_all add: sample_state_def new_state_def sample_config_def own_id_def)

lemma sample_version: "dc_version sample_dc = 7"
  by (simp add: sample_dc_def)

lemma coherent_sample_state: "coherent sample_state"
  by (simp add: coherent_def nodes_ok_def) (simp add: sample_state_def new_state_def sample_config_def)

theorem config_version_grows_witness:
  "dc_version (ss_dynamic_config sample_state) \<noteq> - 1 \<and>
   (ss_dynamic_config (gossip_step sample_json lib0 sample_state (0, Poll)) = ss_dynamic_config sample_state \<or>
    dc_version (ss_dynamic_config sample_state) <
      dc_version (ss_dynamic_config (gossip_step sample_json lib0 sample_state (0, Poll))))"
proof -
  have "dc_version (ss_dynamic_config sample_state) \<noteq> - 1" by (simp add: sample_version)
  with config_version_grows [OF this, of sample_json lib0 "(0, Poll)"] show ?thesis by blast
qed

theorem config_convergence_witness:
  "ss_dynamic_config (foldl (\<lambda>st c. apply_message sample_json 0 st (ConfigUpdate c)) sample_state
      [default_dynamic_config, sample_dc]) =
   ss_dynamic_config (foldl (\<lambda>st c. apply_message sample_json 1 st (ConfigUpdate c)) sample_state
      [default_dynamic_config])"
proof (rule config_convergence)
  show "set (ss_dynamic_config sample_state # [default_dynamic_config, sample_dc]) =
      set (ss_dynamic_config sample_state # [default_dynamic_config])" by auto
  show "inj_on dc_version (set (ss_dynamic_config sample_state # [default_dynamic_config, sample_dc]))"
    by (simp add: inj_on_def sample_version) (simp add: default_dynamic_config_def)
qed

theorem node_health_grows_witness:
  "\<exists>n'. hm_get (ss_known_nodes (gossip_step sample_json lib0
       (sample_state\<lparr>ss_known_nodes := [(''n2'', \<lparr>ni_id = ''n2'', ni_addr = ''a'', ni_relay = None,
          ni_last_seen = None, ni_health = default_service_health\<rparr>)]\<rparr>) (0, Poll))) ''n2'' = Some n'"
  using node_health_grows [of "sample_state\<lparr>ss_known_nodes := [(''n2'', \<lparr>ni_id = ''n2'', ni_addr = ''a'', ni_relay = None,
          ni_last_seen = None, ni_health = default_service_health\<rparr>)]\<rparr>" "''n2''" _ sample_json lib0 "(0, Poll)"]
  by auto

theorem file_follows_memory_witness:
  "file_synced sample_json sample_config sample_state \<and>
   file_synced sample_json sample_config (gossip_step sample_json lib0 sample_state (0, Received [] None 0 0 (NodeJoin ''n2'' ''10.0.0.2:80'')))"
proof -
  let ?ev = "(0, Received [] None 0 0 (NodeJoin ''n2'' ''10.0.0.2:80''))"
  have l: "config_load sample_json sample_state = Some sample_config" by (simp add: config_load_def sample_json_def)
  have dc: "ss_dynamic_config (gossip_step sample_json lib0 sample_state ?ev) = sample_dc"
    by (simp add: gossip_step_def received_def handle_gossip_message_def apply_message_config)
  have c: "sample_config\<lparr>cfg_dynamic_config := sample_dc\<rparr> = sample_config" by (simp add: sample_config_def)
  have "dec_string 7 = ''7''" by code_simp
  then have f: "json_faithful sample_json sample_state (ss_dynamic_config (gossip_step sample_json lib0 sample_state ?ev))"
    unfolding dc json_faithful_def l by (simp add: c) (simp add: sample_json_def sample_config_def sample_version)
  have s: "file_synced sample_json sample_config sample_state" using l by (simp add: file_synced_def sample_config_def)
  from file_follows_memory [OF s f] s show ?thesis by blast
qed

theorem config_poll_spec_witness:
  "config_load sample_json (sample_state\<lparr>ss_dynamic_config := default_dynamic_config\<rparr>) = Some sample_config \<and>
   dc_version (ss_dynamic_config (fst (config_poll sample_json
     (sample_state\<lparr>ss_dynamic_config := default_dynamic_config\<rparr>) None))) > 0"
proof -
  let ?st = "sample_state\<lparr>ss_dynamic_config := default_dynamic_config\<rparr>"
  have l: "config_load sample_json ?st = Some sample_config" by (simp add: config_load_def sample_json_def)
  have v: "dc_version (ss_dynamic_config ?st) \<noteq> - 1" by (simp add: default_dynamic_config_def)
  have "dc_version (cfg_dynamic_config sample_config) > dc_version (ss_dynamic_config ?st)"
    by (simp add: sample_config_def sample_version default_dynamic_config_def)
  with config_poll_spec [OF l v, of None]
  have "dc_version (ss_dynamic_config (fst (config_poll sample_json ?st None))) > dc_version (ss_dynamic_config ?st)"
    by (simp split: prod.splits)
  with l show ?thesis by (simp add: default_dynamic_config_def)
qed

theorem snapshot_spec_witness:
  "\<exists>self. filter (\<lambda>n. ni_id n = ''n1'') (snapshot_nodes sample_state) = [self] \<and> ni_addr self = ''0.0.0.0:8080''"
  using snapshot_spec [OF coherent_sample_state]
  by (auto simp: self_addr_def peer_addr_def sample_state_def new_state_def sample_config_def default_config_def own_id_def)

text \<open>
  C38. Configurations stay well formed. Whatever the admin operation, a configuration whose group
  names are unique and whose groups hold each instance, a name on a node, at most once, is changed
  only into another such configuration.
\<close>

theorem admin_ops_keep_wf:
  assumes "dc_wf dc" "apply_admin_op lib dc op = Inr (dc', v)"
  shows "dc_wf dc'"
  using assms
  by (auto simp: apply_admin_op_def intro: dc_wf_kept split: AdminOp.splits option.splits sum.splits)
    (metis dc_wf_put fst_conv)+

theorem admin_ops_keep_wf_witness:
  "\<exists>dc' v. apply_admin_op lib0 sample_dc (ServiceRename ''web'' ''n1'' ''api'' ''shop'') = Inr (dc', v) \<and> dc_wf dc'"
proof -
  have "dc_wf sample_dc"
    by (simp add: dc_wf_def group_wf_def sample_dc_def svc_key_def sample_service_def)
  moreover have "\<exists>dc' v. apply_admin_op lib0 sample_dc (ServiceRename ''web'' ''n1'' ''api'' ''shop'') = Inr (dc', v)"
    by (simp add: apply_admin_op_def rename_service_def sample_dc_def sample_service_def same_instance_def Let_def)
  ultimately show ?thesis using admin_ops_keep_wf by blast
qed

end
