(* ===== verification/Health.thy ===== *)
theory Health
  imports Gossip_Laws
begin

text \<open>
  Active health checks of the services a node hosts (\<^verbatim>\<open>src/health.rs\<close>): the tracker that
  counts consecutive failures, the probe of one backend, and a round of the checker, which probes
  every hosted service and publishes a new report when the set of unhealthy services changed. The
  network is a parameter: whether a port accepts connections, and what it answers to a request.
\<close>

section \<open>The tracker\<close>

definition UNHEALTHY_AFTER :: u32 where
  "UNHEALTHY_AFTER = 2"

type_synonym HealthTracker = "(string, u32) hash_map"

definition failures :: "HealthTracker \<Rightarrow> string \<Rightarrow> u32" where
  "failures tracker service = (case hm_get tracker service of Some n \<Rightarrow> n | None \<Rightarrow> 0)"

definition tracker_record :: "HealthTracker \<Rightarrow> string \<Rightarrow> bool \<Rightarrow> HealthTracker \<times> bool" where
  "tracker_record tracker service ok =
     (let n = failures tracker service;
          was_unhealthy = (n \<ge> UNHEALTHY_AFTER);
          n' = (if ok then 0 else saturating_add n 1)
      in (hm_insert tracker service n', was_unhealthy \<noteq> (n' \<ge> UNHEALTHY_AFTER)))"

definition unhealthy :: "HealthTracker \<Rightarrow> string list" where
  "unhealthy tracker = sort (map fst (filter (\<lambda>(_, f). f \<ge> UNHEALTHY_AFTER) tracker))"

definition tracker_retain :: "HealthTracker \<Rightarrow> string list \<Rightarrow> HealthTracker \<times> bool" where
  "tracker_retain tracker hosted =
     (let tracker' = hm_retain (\<lambda>s _. s \<in> set hosted) tracker in
      (tracker', unhealthy tracker \<noteq> unhealthy tracker'))"

section \<open>Probing one backend\<close>

text \<open>Reading stops at twelve bytes; a read of no bytes is the end of the stream.\<close>

fun read_fill :: "string \<Rightarrow> string list \<Rightarrow> string option" where
  "read_fill buf reads =
     (if length buf \<ge> 12 then Some (take 12 buf)
      else case reads of
        [] \<Rightarrow> None
      | r # rs \<Rightarrow> if r = [] then None else read_fill (buf @ r) rs)"

declare read_fill.simps [simp del]

definition parse_status_code :: "string \<Rightarrow> nat option" where
  "parse_status_code line =
     (if strip_prefix ''HTTP/1.'' line = None \<or> length line \<le> 8 \<or> line ! 8 \<noteq> CHR '' '' then None
      else if length line < 12 then None
      else from_str_radix 10 65535 (take 3 (drop 9 line)))"

definition read_status_code :: "string list \<Rightarrow> nat option" where
  "read_status_code reads = Option.bind (read_fill [] reads) parse_status_code"

definition CRLF :: string where
  "CRLF = [CHR 0x0D, CHR 0x0A]"

definition probe_request :: "u16 \<Rightarrow> string \<Rightarrow> string" where
  "probe_request port path =
     ''GET '' @ path @ '' HTTP/1.1'' @ CRLF @ ''Host: 127.0.0.1:'' @ dec_string (unat port) @ CRLF
       @ ''User-Agent: stouter-health'' @ CRLF @ ''Connection: close'' @ CRLF @ CRLF"

text \<open>
  The local network during a probe: does the port accept, and which pieces arrive after a request
  (None: nothing more before the time limit).
\<close>

record probe_net =
  accepts :: "u16 \<Rightarrow> bool"
  answers :: "u16 \<Rightarrow> string \<Rightarrow> string list option"

definition probe :: "probe_net \<Rightarrow> u16 \<Rightarrow> string option \<Rightarrow> bool" where
  "probe net port path =
     (if \<not> accepts net port then False
      else case path of
        None \<Rightarrow> True
      | Some p \<Rightarrow>
          (case validate_health_path p of
             Inl _ \<Rightarrow> False
           | Inr _ \<Rightarrow>
               (case Option.bind (answers net port (probe_request port p)) read_status_code of
                  None \<Rightarrow> False
                | Some status \<Rightarrow> 200 \<le> status \<and> status < 300)))"

section \<open>A round of the checker\<close>

definition next_version :: "u64 \<Rightarrow> u64 \<Rightarrow> u64" where
  "next_version now_ms prev = max now_ms (prev + 1)"

definition hosted_services :: "SharedState \<Rightarrow> (string \<times> u16 \<times> string option) list" where
  "hosted_services st =
     map (\<lambda>((_, name), svc). (name, svc_node_port svc, svc_health_path svc))
       (filter (\<lambda>((node_id, _), _). node_id = own_id st) (ss_service_index st))"

definition record_probe :: "probe_net \<Rightarrow> string \<times> u16 \<times> string option \<Rightarrow> HealthTracker \<times> bool \<Rightarrow> HealthTracker \<times> bool" where
  "record_probe net job acc =
     (case (job, acc) of ((name, port, path), (tracker, changed)) \<Rightarrow>
        case tracker_record tracker name (probe net port path) of
          (tracker', flipped) \<Rightarrow> (tracker', changed \<or> flipped))"

text \<open>\<open>completed\<close> lists the hosted services in the order in which their probes finish.\<close>

definition health_round ::
  "probe_net \<Rightarrow> u64 \<Rightarrow> (string \<times> u16 \<times> string option) list \<Rightarrow> SharedState \<Rightarrow> HealthTracker \<Rightarrow> bool \<Rightarrow>
     SharedState \<times> HealthTracker \<times> (string \<times> Message) list" where
  "health_round net now_ms completed st tracker first_round =
     (case tracker_retain tracker (map fst (hosted_services st)) of (tracker1, dropped) \<Rightarrow>
      case fold (record_probe net) completed (tracker1, dropped \<or> first_round) of (tracker2, changed) \<Rightarrow>
        if changed
        then let st' = st\<lparr>ss_local_health := \<lparr>sh_version = next_version now_ms (sh_version (ss_local_health st)),
                                              sh_unhealthy = unhealthy tracker2\<rparr>\<rparr>
             in (st', tracker2, broadcast_sync st')
        else (st, tracker2, []))"

section \<open>When a service is unhealthy\<close>

lemma mem_unhealthy: "hm_wf t \<Longrightarrow> s \<in> set (unhealthy t) \<longleftrightarrow> failures t s \<ge> UNHEALTHY_AFTER"
  using hm_wf_get_iff [of t s]
  by (auto simp: unhealthy_def failures_def UNHEALTHY_AFTER_def image_iff split: option.splits)

lemma failures_record [simp]:
  "failures (fst (tracker_record t s ok)) s' =
     (if s' = s then if ok then 0 else saturating_add (failures t s) 1 else failures t s')"
  by (simp add: tracker_record_def Let_def failures_def)

lemma hm_wf_record [intro]: "hm_wf t \<Longrightarrow> hm_wf (fst (tracker_record t s ok))"
  by (simp add: tracker_record_def Let_def hm_wf_insert)

lemma unhealthy_cong:
  assumes "hm_wf t" "hm_wf t'" "\<And>s. failures t s \<ge> UNHEALTHY_AFTER \<longleftrightarrow> failures t' s \<ge> UNHEALTHY_AFTER"
  shows "unhealthy t = unhealthy t'"
proof (rule sorted_distinct_set_unique)
  have d: "distinct (unhealthy u)" if "hm_wf u" for u
    using that by (simp add: unhealthy_def hm_wf_def distinct_map_filter_iff)
  show "distinct (unhealthy t)" "distinct (unhealthy t')" using d assms(1,2) by auto
  show "set (unhealthy t) = set (unhealthy t')" using mem_unhealthy assms by blast
qed (simp_all add: unhealthy_def)

lemma record_unflipped:
  assumes "hm_wf t" "\<not> snd (tracker_record t s ok)"
  shows "unhealthy (fst (tracker_record t s ok)) = unhealthy t"
  using assms(2)
  by (intro unhealthy_cong hm_wf_record assms(1))
    (auto simp: tracker_record_def Let_def failures_def split: if_splits)

definition replay :: "string \<Rightarrow> bool list \<Rightarrow> HealthTracker" where
  "replay service results = foldl (\<lambda>t ok. fst (tracker_record t service ok)) [] results"

lemma hm_wf_replay: "hm_wf (replay s rs)"
  unfolding replay_def by (induction rs rule: rev_induct) (auto intro: hm_wf_record)

lemma failures_replay: "unat (failures (replay s rs) s) = min (length (takeWhile Not (rev rs))) (2 ^ 32 - 1)"
proof (induction rs rule: rev_induct)
  case Nil
  then show ?case by (simp add: replay_def failures_def)
next
  case (snoc ok rs)
  have "failures (replay s (rs @ [ok])) s = (if ok then 0 else saturating_add (failures (replay s rs) s) 1)"
    by (simp add: replay_def)
  then show ?case using snoc by (simp add: unat_saturating_add min_def)
qed

text \<open>
  A service counts as unhealthy exactly when its two latest probes, at least, have failed; one
  success makes it healthy again, and one that has not been probed twice is healthy.
\<close>

theorem unhealthy_threshold:
  "service \<in> set (unhealthy (replay service results)) \<longleftrightarrow> 2 \<le> length (takeWhile Not (rev results))"
  using failures_replay [of service results]
  by (simp add: mem_unhealthy hm_wf_replay UNHEALTHY_AFTER_def word_le_nat_alt min_def split: if_splits)

section \<open>Probes send one request\<close>

lemma health_path_chars:
  "validate_health_path path = Inr () \<Longrightarrow> b \<in> set path \<Longrightarrow> \<not> is_ascii_control b \<and> \<not> is_ascii_whitespace b"
  by (auto simp: validate_health_path_def split: if_splits)

lemma dec_string_no_newline: "CHR 0x0A \<notin> set (dec_string n)"
  using dec_string_digits [of "CHR 0x0A" n] by auto

text \<open>
  A probe with a health path that passes validation sends exactly one request: whatever the
  path, the text has the request line, three headers and the empty line, so no path can smuggle in
  another header or request.
\<close>

theorem probe_request_lines:
  assumes "validate_health_path path = Inr ()"
  shows "split_on CHR 0x0A (probe_request port path) =
    [''GET '' @ path @ '' HTTP/1.1'' @ [CHR 0x0D], ''Host: 127.0.0.1:'' @ dec_string (unat port) @ [CHR 0x0D],
     ''User-Agent: stouter-health'' @ [CHR 0x0D], ''Connection: close'' @ [CHR 0x0D], [CHR 0x0D], []]"
proof -
  have p: "CHR 0x0A \<notin> set path" using health_path_chars [OF assms, of "CHR 0x0A"] by (auto simp: is_ascii_control_def)
  let ?ls = "[''GET '' @ path @ '' HTTP/1.1'' @ [CHR 0x0D], ''Host: 127.0.0.1:'' @ dec_string (unat port) @ [CHR 0x0D],
     ''User-Agent: stouter-health'' @ [CHR 0x0D], ''Connection: close'' @ [CHR 0x0D], [CHR 0x0D], []]"
  have "probe_request port path = join [CHR 0x0A] ?ls"
    by (simp add: probe_request_def CRLF_def)
  moreover have "\<forall>w \<in> set ?ls. CHR 0x0A \<notin> set w"
    using p dec_string_no_newline by simp
  ultimately show ?thesis by (simp only: split_on_join list.distinct not_False_eq_True)
qed

theorem probe_request_lines_witness:
  "length (split_on CHR 0x0A (probe_request 80 ''/healthz'')) = 6"
proof -
  have "validate_health_path ''/healthz'' = Inr ()" by code_simp
  from probe_request_lines [OF this] show ?thesis by simp
qed

section \<open>The published report is current\<close>

definition tracker_ok :: "SharedState \<Rightarrow> HealthTracker \<Rightarrow> bool \<Rightarrow> bool" where
  "tracker_ok st tracker first_round \<longleftrightarrow> hm_wf tracker \<and>
     (first_round \<or> sh_unhealthy (ss_local_health st) = unhealthy tracker)"

lemma record_probes:
  assumes "hm_wf t" "fold (record_probe net) jobs (t, b) = (t', b')"
  shows "hm_wf t' \<and> (b \<longrightarrow> b') \<and> (\<not> b' \<longrightarrow> unhealthy t' = unhealthy t)"
  using assms
proof (induction jobs arbitrary: t b)
  case (Cons job jobs)
  obtain name port path where job: "job = (name, port, path)" by (cases job)
  obtain t1 f where r: "tracker_record t name (probe net port path) = (t1, f)" by fastforce
  have wf: "hm_wf t1" using hm_wf_record [OF Cons.prems(1), of name "probe net port path"] r by simp
  have "\<not> f \<longrightarrow> unhealthy t1 = unhealthy t"
    using record_unflipped [OF Cons.prems(1), of name "probe net port path"] r by simp
  moreover have "fold (record_probe net) jobs (t1, b \<or> f) = (t', b')"
    using Cons.prems(2) r by (simp add: job record_probe_def [of net "(name, port, path)"])
  ultimately show ?case using Cons.IH [OF wf, of "b \<or> f"] by auto
qed simp

text \<open>
  C31. After every round the report that a node publishes lists exactly the services its tracker
  finds unhealthy, and a report is replaced only by one of a greater version, which goes to every
  peer; the first round always publishes.
\<close>

theorem health_report_current:
  assumes "tracker_ok st tracker first_round" "sh_version (ss_local_health st) \<noteq> - 1"
  shows "case health_round net now_ms completed st tracker first_round of (st', tracker', out) \<Rightarrow>
    tracker_ok st' tracker' False \<and>
    (if st' = st then \<not> first_round \<and> out = []
     else sh_version (ss_local_health st) < sh_version (ss_local_health st') \<and> out = broadcast_sync st')"
proof -
  obtain t1 d where r: "tracker_retain tracker (map fst (hosted_services st)) = (t1, d)" by fastforce
  obtain t2 c where f: "fold (record_probe net) completed (t1, d \<or> first_round) = (t2, c)" by fastforce
  have wf: "hm_wf tracker" using assms(1) by (simp add: tracker_ok_def)
  have wf1: "hm_wf t1" and d: "\<not> d \<longrightarrow> unhealthy t1 = unhealthy tracker"
    using r wf by (auto simp: tracker_retain_def Let_def intro: hm_wf_retain)
  note p = record_probes [OF wf1 f]
  have v: "sh_version (ss_local_health st) < next_version now_ms (sh_version (ss_local_health st))"
    using version_succ [OF assms(2)] by (auto simp: next_version_def less_max_iff_disj)
  have ne: "st\<lparr>ss_local_health := \<lparr>sh_version = next_version now_ms (sh_version (ss_local_health st)),
      sh_unhealthy = unhealthy t2\<rparr>\<rparr> \<noteq> st"
  proof
    assume "st\<lparr>ss_local_health := \<lparr>sh_version = next_version now_ms (sh_version (ss_local_health st)),
      sh_unhealthy = unhealthy t2\<rparr>\<rparr> = st"
    then have "ss_local_health st = \<lparr>sh_version = next_version now_ms (sh_version (ss_local_health st)),
      sh_unhealthy = unhealthy t2\<rparr>" by (metis SharedState.select_convs(6) SharedState.surjective SharedState.update_convs(6))
    then show False using v by (metis ServiceHealth.select_convs(1) less_irrefl)
  qed
  show ?thesis
  proof (cases c)
    case True
    then show ?thesis using r f p v ne by (simp add: health_round_def Let_def tracker_ok_def)
  next
    case False
    then have "\<not> d" "\<not> first_round" "unhealthy t2 = unhealthy tracker" using p d by auto
    with False r f p assms(1) show ?thesis by (simp add: health_round_def tracker_ok_def)
  qed
qed

theorem health_report_current_witness:
  "tracker_ok sample_state [] True \<and>
   (case health_round \<lparr>accepts = (\<lambda>_. True), answers = (\<lambda>_ _. None)\<rparr> 5 [] sample_state [] True of
      (st', tracker', out) \<Rightarrow> tracker_ok st' tracker' False)"
proof -
  have t: "tracker_ok sample_state [] True" by (simp add: tracker_ok_def)
  have v: "sh_version (ss_local_health sample_state) \<noteq> - 1"
    by (simp add: sample_state_def new_state_def default_service_health_def)
  from health_report_current [OF t v, of "\<lparr>accepts = (\<lambda>_. True), answers = (\<lambda>_ _. None)\<rparr>" 5 "[]"] t show ?thesis
    by (auto split: prod.splits)
qed

end
