(* ===== verification/Tunnel.thy ===== *)
theory Tunnel
  imports Gossip_Laws
begin

text \<open>
  The node side of a tunnel (\<^verbatim>\<open>src/node/tunnel.rs\<close>, \<^verbatim>\<open>src/node/relay.rs\<close>,
  \<^verbatim>\<open>src/node/reverse.rs\<close> and the stream handler of \<^verbatim>\<open>src/mux.rs\<close>): checking a
  request, connecting to the local service, relaying to a node behind NAT over one of its idle
  reverse connections. A handler is a function from the state and
  what its peers send to the bytes it writes and its outcome. \<open>local_net\<close> says whether a local
  port accepts a connection (and the error text if not).
\<close>

section \<open>Responses\<close>

definition as_bytes :: "string \<Rightarrow> bytes" where
  "as_bytes s = map (\<lambda>c. word_of_nat (code c)) s"

definition of_bytes :: "bytes \<Rightarrow> string" where
  "of_bytes bs = map (\<lambda>b. char_of (unat b)) bs"

definition tunnel_error :: "string \<Rightarrow> bytes" where
  "tunnel_error msg = [0x01] @ to_be_bytes (word_of_nat (length msg)) @ as_bytes msg"

text \<open>
  What a subscriber makes of the response, as in \<^verbatim>\<open>send_and_check_tunnel\<close>. (In an error text that is not
  UTF-8 the source puts replacement characters; here the bytes stay as they are.)
\<close>

definition check_tunnel :: "bytes \<Rightarrow> string + bytes" where
  "check_tunnel input =
     try_then (map_err (\<lambda>_. ''read tunnel status byte'') (read_exact input 1)) (\<lambda>(status, input1).
       if hd status \<noteq> 0x00
       then try_then (map_err (\<lambda>_. ''read tunnel error length'') (read_exact input1 4)) (\<lambda>(len_buf, input2).
            try_then (map_err (\<lambda>_. ''read tunnel error message'')
                        (read_exact input2 (unat (from_be_bytes len_buf)))) (\<lambda>(err_bytes, _).
              Inl (''node rejected tunnel: '' @ of_bytes err_bytes)))
       else Inr input1)"

section \<open>Requests\<close>

type_synonym local_net = "u16 \<Rightarrow> string + unit"

definition refuse_if_draining :: "SharedState \<Rightarrow> string + unit" where
  "refuse_if_draining st = (if ss_shutdown st then Inl ''node is shutting down'' else Inr ())"

definition check_skew :: "u64 \<Rightarrow> u64 \<Rightarrow> string + unit" where
  "check_skew now_ms timestamp_ms =
     (let skew = abs_diff now_ms timestamp_ms in
      if skew > MAX_SKEW_MS
      then Inl (''tunnel request timestamp skew too large: '' @ dec_string (unat skew) @ ''ms'')
      else Inr ())"

definition connect_local_service :: "local_net \<Rightarrow> SharedState \<Rightarrow> string \<Rightarrow> string + u16" where
  "connect_local_service net st service_name =
     (case hm_get (ss_service_index st) (own_id st, service_name) of
        None \<Rightarrow> Inl (''service '' @ quoted service_name @ '' not found on this node'')
      | Some service \<Rightarrow>
          let local_addr = ''127.0.0.1:'' @ dec_string (unat (svc_node_port service)) in
          (case net (svc_node_port service) of
             Inl e \<Rightarrow> Inl (''failed to connect to local service at '' @ local_addr @ '': '' @ e)
           | Inr _ \<Rightarrow> Inr (svc_node_port service)))"

text \<open>
  The outcome of a request: refused with an error response, to be relayed to another node, or
  connected to a local port (and then the bytes are copied both ways).
\<close>

datatype tunnel_outcome = Refused string | ToRelay string string u64 | Connected u16

definition handle_tunnel ::
  "local_net \<Rightarrow> SharedState \<Rightarrow> u64 \<Rightarrow> string \<Rightarrow> string \<Rightarrow> u64 \<Rightarrow> bytes \<times> tunnel_outcome" where
  "handle_tunnel net st now_ms node_id service_name timestamp_ms =
     (case refuse_if_draining st of
        Inl msg \<Rightarrow> (tunnel_error msg, Refused msg)
      | Inr _ \<Rightarrow>
          (case check_skew now_ms timestamp_ms of
             Inl msg \<Rightarrow> (tunnel_error msg, Refused msg)
           | Inr _ \<Rightarrow>
               if node_id \<noteq> [] \<and> node_id \<noteq> own_id st then ([], ToRelay node_id service_name timestamp_ms)
               else
                 (case connect_local_service net st service_name of
                    Inl msg \<Rightarrow> (tunnel_error msg, Refused msg)
                  | Inr port \<Rightarrow> ([0x00], Connected port))))"

section \<open>Multiplexed streams\<close>

text \<open>The handler of one stream of a multiplexed session repeats the checks on the message it reads.\<close>

definition handle_mux_stream ::
  "wire_lib \<Rightarrow> local_net \<Rightarrow> SharedState \<Rightarrow> u64 \<Rightarrow> bytes \<Rightarrow> string + bytes \<times> tunnel_outcome" where
  "handle_mux_stream lib net st now_ms input =
     (case recv_message lib input of
        Inl _ \<Rightarrow> Inl ''recv tunnel request on mux stream''
      | Inr (msg, _) \<Rightarrow>
          (case msg of
             TunnelRequest node_id service_name timestamp_ms \<Rightarrow>
               (case refuse_if_draining st of
                  Inl e \<Rightarrow> Inr (tunnel_error e, Refused e)
                | Inr _ \<Rightarrow>
                    let skew = abs_diff now_ms timestamp_ms in
                    if skew > MAX_SKEW_MS
                    then let e = ''tunnel request timestamp skew too large: '' @ dec_string (unat skew) @ ''ms''
                         in Inr (tunnel_error e, Refused e)
                    else if node_id \<noteq> [] \<and> node_id \<noteq> own_id st
                    then Inr ([], ToRelay node_id service_name timestamp_ms)
                    else (case connect_local_service net st service_name of
                            Inl e \<Rightarrow> Inr (tunnel_error e, Refused e)
                          | Inr port \<Rightarrow> Inr ([0x00], Connected port)))
           | _ \<Rightarrow> Inl ''unexpected message on mux stream''))"

section \<open>Relaying\<close>

text \<open>An error response whose writes may fail, which nobody looks at.\<close>

definition send_tunnel_error :: "transport \<Rightarrow> string \<Rightarrow> transport" where
  "send_tunnel_error tr msg =
     (let tr1 = fst (write_all tr [0x01]);
          tr2 = fst (write_all tr1 (to_be_bytes (word_of_nat (length msg))))
      in fst (write_all tr2 (as_bytes msg)))"

text \<open>
  Relaying. \<open>wakes\<close> are the pools found while waiting for an idle reverse connection, \<open>tr\<close> and
  \<open>input\<close> the two directions of the connection taken, \<open>sub\<close> the subscriber's. The result is the new
  pool, the subscriber's transport, and the rest of the reverse connection's input, which is then
  copied. The first definition forwards a refusal, the bytes after the status.
\<close>

definition relay_refusal :: "bytes \<Rightarrow> transport \<Rightarrow> transport \<times> string" where
  "relay_refusal input sub =
     (case read_exact input 4 of
        Inl _ \<Rightarrow> (sub, ''read tunnel error length from reverse'')
      | Inr (len_buf, input1) \<Rightarrow>
          (case write_all sub len_buf of
             (sub1, Inl _) \<Rightarrow> (sub1, ''forward tunnel error length'')
           | (sub1, Inr _) \<Rightarrow>
               (case read_exact input1 (unat (from_be_bytes len_buf)) of
                  Inl _ \<Rightarrow> (sub1, ''read tunnel error from reverse'')
                | Inr (err_bytes, _) \<Rightarrow>
                    (case write_all sub1 err_bytes of
                       (sub2, Inl _) \<Rightarrow> (sub2, ''forward tunnel error to subscriber'')
                     | (sub2, Inr _) \<Rightarrow>
                         (sub2, case flush sub2 of
                            Inl _ \<Rightarrow> ''flush tunnel error to subscriber''
                          | Inr _ \<Rightarrow> ''NAT'' @ CHR 0x27 # ''d node rejected tunnel'')))))"

definition relay_tunnel ::
  "wire_lib \<Rightarrow> SharedState \<Rightarrow> StreamPool list \<Rightarrow> transport \<Rightarrow> bytes \<Rightarrow> transport \<Rightarrow> string \<Rightarrow> string \<Rightarrow> u64 \<Rightarrow>
     StreamPool \<times> transport \<times> (string + bytes)" where
  "relay_tunnel lib st wakes tr input sub node_id service_name timestamp_ms =
     (case pool_take (ss_reverse_pool st) node_id wakes of
        (pool, None) \<Rightarrow>
          let msg = ''no idle reverse connections for node '' @ node_id in (pool, send_tunnel_error sub msg, Inl msg)
      | (pool, Some _) \<Rightarrow>
          (pool,
           case snd (send_message lib tr (TunnelRequest node_id service_name timestamp_ms)) of
             Inl _ \<Rightarrow> (sub, Inl ''forward tunnel request to reverse connection'')
           | Inr _ \<Rightarrow>
               (case read_exact input 1 of
                  Inl _ \<Rightarrow> (sub, Inl ''read tunnel status from reverse connection'')
                | Inr (status, input1) \<Rightarrow>
                    (case write_all sub status of
                       (sub1, Inl _) \<Rightarrow> (sub1, Inl ''forward tunnel status to subscriber'')
                     | (sub1, Inr _) \<Rightarrow>
                         (case flush sub1 of
                            Inl _ \<Rightarrow> (sub1, Inl ''flush tunnel status to subscriber'')
                          | Inr _ \<Rightarrow>
                              if hd status \<noteq> 0x00 then apsnd Inl (relay_refusal input1 sub1) else (sub1, Inr input1))))))"

section \<open>The pool a node behind NAT keeps\<close>

definition reverse_peers :: "SharedState \<Rightarrow> string list" where
  "reverse_peers st =
     map ni_addr (filter (\<lambda>n. ni_relay n = None \<and> ni_addr n \<noteq> []) (hm_values (ss_known_nodes st)))"

text \<open>One round of the pool loop: which workers it starts, each a peer and a slot.\<close>

definition reverse_pool_round :: "SharedState \<Rightarrow> (string \<times> nat) set \<Rightarrow> (string \<times> nat) set \<times> (string \<times> nat) list" where
  "reverse_pool_round st spawned =
     fold (\<lambda>key (sp, started). if key \<in> sp then (sp, started) else (insert key sp, started @ [key]))
       (List.product (reverse_peers st) [0..<pool_size (ss_config st)]) (spawned, [])"

text \<open>What a worker does with the first message on its connection.\<close>

definition reverse_dispatch ::
  "local_net \<Rightarrow> SharedState \<Rightarrow> u64 \<Rightarrow> Message \<Rightarrow> string + bytes \<times> tunnel_outcome" where
  "reverse_dispatch net st now_ms msg =
     (case msg of
        TunnelRequest node_id service_name timestamp_ms \<Rightarrow>
          Inr (handle_tunnel net st now_ms node_id service_name timestamp_ms)
      | _ \<Rightarrow> Inl ''unexpected message on reverse connection'')"

section \<open>Dispatching a connection\<close>

datatype dispatch_result =
    DGossip SharedState "Message option"
  | DTunnel bytes tunnel_outcome
  | DReverse SharedState "string + unit"
  | DStatus Message
  | DMux
  | DAdmin SharedState AdminResult "(string \<times> Message) list"
  | DIgnored
  | DClosed

text \<open>
  The first message of an accepted connection decides who handles it; the flag says whether the
  handling counts as work in progress.
\<close>

definition dispatch_connection ::
  "json_lib \<Rightarrow> http_lib \<Rightarrow> wire_lib \<Rightarrow> local_net \<Rightarrow> instant \<Rightarrow> u64 \<Rightarrow> SharedState \<Rightarrow> string \<Rightarrow> string option \<Rightarrow>
     conn \<Rightarrow> bytes \<Rightarrow> bool \<times> dispatch_result" where
  "dispatch_connection json hlib wlib net now now_ms st peer peer_cn stream input =
     (case recv_message wlib input of
        Inl _ \<Rightarrow> (False, DClosed)
      | Inr (msg, _) \<Rightarrow>
          (msg \<noteq> MuxTunnel,
           case msg of
             TunnelRequest node_id service_name timestamp_ms \<Rightarrow>
               case_prod DTunnel (handle_tunnel net st now_ms node_id service_name timestamp_ms)
           | ReverseRegistration node_id timestamp_ms \<Rightarrow>
               case_prod DReverse (handle_reverse_registration now now_ms st stream node_id timestamp_ms)
           | StatusRequest \<Rightarrow> DStatus (handle_status_request st)
           | StatusResponse _ _ _ _ _ \<Rightarrow> DIgnored
           | MuxTunnel \<Rightarrow> DMux
           | AdminRequest op \<Rightarrow>
               (case handle_admin_request json hlib st peer_cn op of (st', result, out) \<Rightarrow> DAdmin st' result out)
           | AdminResponse _ \<Rightarrow> DIgnored
           | gossip \<Rightarrow> case_prod DGossip (handle_gossip_message json now st peer gossip)))"

section \<open>Responses are understood\<close>

lemma length_as_bytes [simp]: "length (as_bytes s) = length s"
  by (simp add: as_bytes_def)

lemma of_as_bytes [simp]: "of_bytes (as_bytes s) = s"
proof -
  have "char_of (unat (word_of_nat (code c) :: u8)) = c" for c
  proof -
    have "code c < 256" by simp
    then show ?thesis by (simp add: unat_of_nat)
  qed
  then show ?thesis by (simp add: of_bytes_def as_bytes_def comp_def)
qed

lemma check_tunnel_error:
  "length msg < 2 ^ 32 \<Longrightarrow> check_tunnel (tunnel_error msg @ rest) = Inl (''node rejected tunnel: '' @ msg)"
  by (simp add: check_tunnel_def tunnel_error_def read_exact_def map_err_def unat_of_nat)

lemma check_tunnel_success: "check_tunnel ([0x00] @ rest) = Inr rest"
  by (simp add: check_tunnel_def read_exact_def map_err_def)

text \<open>
  The subscriber understands every response of a node: a refusal reaches it as the node's error
  text, and after an acceptance the rest of the stream is the service's, byte for byte.
\<close>

theorem tunnel_response_understood:
  "case handle_tunnel net st now_ms node_id service_name timestamp_ms of
     (response, Refused msg) \<Rightarrow>
       (if length msg < 2 ^ 32
        then check_tunnel (response @ rest) = Inl (''node rejected tunnel: '' @ msg) else True)
   | (response, Connected port) \<Rightarrow> check_tunnel (response @ rest) = Inr rest
   | (response, ToRelay _ _ _) \<Rightarrow> response = []"
proof -
  note ok = check_tunnel_success [of rest]
  note err = check_tunnel_error [where rest = rest]
  show ?thesis
    by (simp add: handle_tunnel_def ok [simplified] err split: sum.splits)
qed

text \<open>
  C13. A node opens a tunnel to a local port exactly when it is not shutting down, the request is at
  most 30 s off its clock, it addresses this node (or none), the node hosts the service, and the
  service's port accepts; it relays exactly the timely requests for other nodes.
\<close>

theorem handle_tunnel_spec:
  "(snd (handle_tunnel net st now_ms node_id service_name timestamp_ms) = Connected port \<longleftrightarrow>
      \<not> ss_shutdown st \<and> abs_diff now_ms timestamp_ms \<le> 30000 \<and> node_id \<in> {[], own_id st} \<and>
      (\<exists>s. hm_get (ss_service_index st) (own_id st, service_name) = Some s \<and> svc_node_port s = port \<and>
        net port = Inr ())) \<and>
   (snd (handle_tunnel net st now_ms node_id service_name timestamp_ms) = ToRelay node_id service_name timestamp_ms \<longleftrightarrow>
      \<not> ss_shutdown st \<and> abs_diff now_ms timestamp_ms \<le> 30000 \<and> node_id \<notin> {[], own_id st})"
  by (auto simp: handle_tunnel_def refuse_if_draining_def check_skew_def MAX_SKEW_MS_def Let_def
      connect_local_service_def not_less split: sum.splits option.splits)

text \<open>
  A stream of a multiplexed session is served exactly like a connection of its own: for a tunnel
  request on the stream, the response and the outcome are those of the dedicated handler.
\<close>

theorem mux_stream_same:
  assumes "recv_message lib input = Inr (TunnelRequest node_id service_name timestamp_ms, rest)"
  shows "handle_mux_stream lib net st now_ms input =
    Inr (handle_tunnel net st now_ms node_id service_name timestamp_ms)"
  using assms
  by (auto simp: handle_mux_stream_def handle_tunnel_def check_skew_def Let_def split: sum.splits)

section \<open>Relays are transparent\<close>

definition reliable :: "transport \<Rightarrow> bool" where
  "reliable tr \<longleftrightarrow> tr_room tr = None \<and> tr_flushes tr"

lemma write_reliable: "reliable tr \<Longrightarrow> write_all tr bs = (tr\<lparr>tr_sent := tr_sent tr @ bs\<rparr>, Inr ())"
  by (simp add: reliable_def write_all_def)

lemma flush_reliable: "reliable tr \<Longrightarrow> flush tr = Inr ()"
  by (simp add: reliable_def flush_def)

lemma reliable_sent [simp]: "reliable (tr\<lparr>tr_sent := bs\<rparr>) = reliable tr"
  by (simp add: reliable_def)

text \<open>A step that only ever forwards a part of its input, from the front.\<close>

definition forwards :: "bytes \<Rightarrow> transport \<Rightarrow> transport \<Rightarrow> bool" where
  "forwards input tr tr' \<longleftrightarrow> (\<exists>out. tr_sent tr' = tr_sent tr @ out \<and> prefix out input)"

lemma forwards_none: "forwards input tr tr"
  by (simp add: forwards_def)

lemma forwards_failed: "write_all tr bs = (tr', Inl e) \<Longrightarrow> forwards (bs @ rest) tr tr'"
  using write_all_err [of tr bs tr' e] by (auto simp: forwards_def intro: prefix_prefix [OF take_is_prefix])

lemma forwards_then: "write_all tr bs = (tr1, Inr u) \<Longrightarrow> forwards rest tr1 tr' \<Longrightarrow> forwards (bs @ rest) tr tr'"
  using write_all_ok [of tr bs tr1 u] by (auto simp: forwards_def)

lemma read_exact_split: "read_exact input n = Inr (bs, rest) \<Longrightarrow> input = bs @ rest"
  by (auto simp: read_exact_def split: if_splits)

lemma relay_refusal_forwards: "forwards input sub (fst (relay_refusal input sub))"
proof (cases "read_exact input 4")
  case (Inr r)
  obtain len_buf input1 where r: "r = (len_buf, input1)" by fastforce
  obtain sub1 r1 where w1: "write_all sub len_buf = (sub1, r1)" by fastforce
  show ?thesis
  proof (cases r1)
    case (Inl e)
    with Inr r w1 read_exact_split [of input 4] forwards_failed show ?thesis by (simp add: relay_refusal_def)
  next
    case ok: (Inr u)
    have "forwards input1 sub1 (fst (relay_refusal input sub))"
    proof (cases "read_exact input1 (unat (from_be_bytes len_buf))")
      case (Inl e)
      with Inr r w1 ok show ?thesis by (simp add: relay_refusal_def forwards_none)
    next
      case err: (Inr r2)
      obtain err_bytes input2 where r2: "r2 = (err_bytes, input2)" by fastforce
      obtain sub2 r3 where w2: "write_all sub1 err_bytes = (sub2, r3)" by fastforce
      then have "forwards (err_bytes @ input2) sub1 sub2"
        by (cases r3) (auto intro: forwards_failed forwards_then forwards_none)
      with Inr r w1 ok err r2 w2 read_exact_split [of input1] show ?thesis
        by (cases r3) (auto simp: relay_refusal_def)
    qed
    from forwards_then [OF w1 [unfolded ok] this] Inr r read_exact_split [of input 4] show ?thesis by simp
  qed
qed (simp add: relay_refusal_def forwards_none)

text \<open>
  C30. A relay is transparent: whatever the node behind it answers, complete or cut short, the
  subscriber draws from the relayed bytes the conclusion it would have drawn from the answer itself.
  If the connection to the subscriber fails on the way, what it has received is still the beginning
  of the answer.
\<close>

theorem relay_transparent:
  assumes "pool_take (ss_reverse_pool st) node_id wakes = (pool, Some stream)"
    and "snd (send_message lib tr (TunnelRequest node_id service_name timestamp_ms)) = Inr ()"
    and "relay_tunnel lib st wakes tr input sub node_id service_name timestamp_ms = (pool', sub', result)"
  shows "\<exists>out. tr_sent sub' = tr_sent sub @ out \<and> prefix out input \<and>
    (case result of Inr rest \<Rightarrow> input = out @ rest
     | Inl _ \<Rightarrow> if reliable sub then check_tunnel out = check_tunnel input else True)"
proof (cases input)
  case Nil
  then show ?thesis using assms by (auto simp: relay_tunnel_def read_exact_def)
next
  case (Cons b input1)
  obtain sub1 r where w: "write_all sub [b] = (sub1, r)" by fastforce
  have "forwards input sub sub'"
  proof (cases r)
    case (Inl e)
    with w assms Cons forwards_failed [of sub "[b]" sub1 e input1] show ?thesis
      by (auto simp: relay_tunnel_def read_exact_def)
  next
    case (Inr u)
    have "forwards input1 sub1 sub'"
      using w assms Cons Inr relay_refusal_forwards [of input1 sub1]
      by (cases "relay_refusal input1 sub1") (auto simp: relay_tunnel_def read_exact_def forwards_none split: sum.splits if_splits)
    from forwards_then [OF w [unfolded Inr] this] Cons show ?thesis by simp
  qed
  moreover have "tr_sent sub' = tr_sent sub @ [b] \<and> rest = input1" if "result = Inr rest" for rest
    using that w write_all_ok [of sub "[b]" sub1] assms Cons
    by (cases "relay_refusal input1 sub1") (auto simp: relay_tunnel_def read_exact_def split: sum.splits if_splits)
  moreover have "check_tunnel out = check_tunnel input" if "result = Inl e" "reliable sub" "tr_sent sub' = tr_sent sub @ out" for e out
    using that assms Cons
    by (auto simp: relay_tunnel_def relay_refusal_def read_exact_def write_reliable flush_reliable check_tunnel_def map_err_def
        split: if_splits)
  ultimately show ?thesis using Cons by (cases result) (auto simp: forwards_def)
qed

text \<open>
  A timely registration makes the node reachable through us: it is known with our address as its
  relay and as seen now, and the registered connection is the next one handed out for it. The id is
  not checked: a registration under an invalid id creates an entry under it.
\<close>

theorem reverse_registration_spec:
  assumes "abs_diff now_ms timestamp_ms \<le> 30000"
  shows "\<exists>st' n. handle_reverse_registration now now_ms st stream node_id timestamp_ms = (st', Inr ()) \<and>
    hm_get (ss_known_nodes st') node_id = Some n \<and> ni_relay n = Some (peer_addr (ss_config st)) \<and>
    ni_last_seen n = Some now \<and> snd (try_take (ss_reverse_pool st') node_id) = Some stream"
  using assms
  by (auto simp: handle_reverse_registration_def Let_def MAX_SKEW_MS_def not_less register_node_def
      streams.take_after_put split: option.splits)

section \<open>Concrete tunnels\<close>

definition request_wire :: wire_lib where
  "request_wire = \<lparr>to_vec_named = (\<lambda>_. Inr [7]), from_slice = (\<lambda>_. Inr (TunnelRequest ''n1'' ''api'' 1000))\<rparr>"

theorem mux_stream_same_witness:
  "handle_mux_stream request_wire (\<lambda>_. Inr ()) sample_state 2000 (frame [7]) =
     Inr (handle_tunnel (\<lambda>_. Inr ()) sample_state 2000 ''n1'' ''api'' 1000)"
proof -
  have "recv_message request_wire (frame [7] @ []) = Inr (TunnelRequest ''n1'' ''api'' 1000, [])"
    by (subst recv_frame) (simp_all add: request_wire_def)
  then have "recv_message request_wire (frame [7]) = Inr (TunnelRequest ''n1'' ''api'' 1000, [])" by simp
  from mux_stream_same [OF this] show ?thesis .
qed

theorem relay_transparent_witness:
  "\<exists>pool sub'. relay_tunnel request_wire (sample_state\<lparr>ss_reverse_pool := pool_push new_pool ''n9'' 5\<rparr>) []
       \<lparr>tr_sent = [], tr_room = None, tr_flushes = True\<rparr> [0, 42] \<lparr>tr_sent = [], tr_room = None, tr_flushes = True\<rparr>
       ''n9'' ''api'' 1000 = (pool, sub', Inr [42]) \<and> tr_sent sub' = [0]"
proof -
  let ?st = "sample_state\<lparr>ss_reverse_pool := pool_push new_pool ''n9'' 5\<rparr>" and ?tr = "\<lparr>tr_sent = [], tr_room = None, tr_flushes = True\<rparr>"
  obtain pool where t: "pool_take (ss_reverse_pool ?st) ''n9'' [] = (pool, Some 5)"
    using streams.take_after_put [of new_pool "''n9''" 5] by (cases "try_take (pool_push new_pool ''n9'' 5) ''n9''") simp
  have s: "snd (send_message request_wire ?tr (TunnelRequest ''n9'' ''api'' 1000)) = Inr ()"
    by (simp add: send_message_def encode_message_def map_err_def request_wire_def write_all_def flush_def)
  obtain sub' where r: "relay_tunnel request_wire ?st [] ?tr [0, 42] ?tr ''n9'' ''api'' 1000 = (pool, sub', Inr [42])"
    using t s by (simp add: relay_tunnel_def read_exact_def write_all_def flush_def)
  from relay_transparent [OF t s r] r show ?thesis by auto
qed

theorem reverse_registration_spec_witness:
  "\<exists>st' n. handle_reverse_registration 9 50000 sample_state 5 ''n9'' 40000 = (st', Inr ()) \<and>
     hm_get (ss_known_nodes st') ''n9'' = Some n \<and> snd (try_take (ss_reverse_pool st') ''n9'') = Some 5"
proof -
  have "abs_diff 50000 (40000 :: u64) \<le> 30000" by (simp add: abs_diff_def)
  from reverse_registration_spec [OF this, of 9 sample_state 5 "''n9''"] show ?thesis by blast
qed

end
