(* ===== verification/Round_Robin.thy ===== *)
theory Round_Robin
  imports Stouter_Prelude
begin

text \<open>
  Smooth weighted round-robin as a contract of its own: in a round every candidate gains its
  weight, a candidate of greatest running weight is chosen, and it pays back the total. The locale
  \<open>greatest_choice\<close> asks of the choice function only that it returns a candidate of greatest
  running weight; the quota of every candidate follows for any number of rounds. The theory
  \<open>Balancer\<close> interprets it with the choice that the balancer's loop makes.
\<close>

definition rr_gain :: "'a list \<Rightarrow> ('a \<Rightarrow> int) \<Rightarrow> ('a \<Rightarrow> int) \<Rightarrow> 'a \<Rightarrow> int" where
  "rr_gain xs w cur = (\<lambda>x. if x \<in> set xs then cur x + w x else cur x)"

definition rr_total :: "'a list \<Rightarrow> ('a \<Rightarrow> int) \<Rightarrow> int" where
  "rr_total xs w = (\<Sum>x \<leftarrow> xs. w x)"

definition rr_round :: "('a list \<Rightarrow> ('a \<Rightarrow> int) \<Rightarrow> 'a) \<Rightarrow> 'a list \<Rightarrow> ('a \<Rightarrow> int) \<Rightarrow> ('a \<Rightarrow> int) \<Rightarrow> ('a \<Rightarrow> int) \<times> 'a" where
  "rr_round sel xs w cur =
     (let g = rr_gain xs w cur; b = sel xs g in (g(b := g b - rr_total xs w), b))"

fun rr_run :: "('a list \<Rightarrow> ('a \<Rightarrow> int) \<Rightarrow> 'a) \<Rightarrow> 'a list \<Rightarrow> ('a \<Rightarrow> int) \<Rightarrow> ('a \<Rightarrow> int) \<Rightarrow> nat \<Rightarrow> ('a \<Rightarrow> int) \<times> 'a list" where
  "rr_run sel xs w cur 0 = (cur, [])"
| "rr_run sel xs w cur (Suc n) =
     (case rr_round sel xs w cur of (cur1, b) \<Rightarrow>
      case rr_run sel xs w cur1 n of (cur2, bs) \<Rightarrow> (cur2, b # bs))"

text \<open>Running weights balance out and no candidate is in debt by as much as the total.\<close>

definition rr_balanced :: "'a list \<Rightarrow> ('a \<Rightarrow> int) \<Rightarrow> ('a \<Rightarrow> int) \<Rightarrow> bool" where
  "rr_balanced xs w cur \<longleftrightarrow> (\<Sum>x \<in> set xs. cur x) = 0 \<and> (\<forall>x \<in> set xs. - rr_total xs w < cur x)"

lemma rr_total_sum: "distinct xs \<Longrightarrow> rr_total xs w = (\<Sum>x \<in> set xs. w x)"
  by (simp add: rr_total_def sum_list_distinct_conv_sum_set)

locale greatest_choice =
  fixes sel :: "'a list \<Rightarrow> ('a \<Rightarrow> int) \<Rightarrow> 'a"
  assumes sel_in: "xs \<noteq> [] \<Longrightarrow> sel xs f \<in> set xs"
    and sel_greatest: "x \<in> set xs \<Longrightarrow> f x \<le> f (sel xs f)"
begin

lemma round_effect:
  assumes "distinct xs" "x \<in> set xs"
  shows "fst (rr_round sel xs w cur) x =
    cur x + w x - (if snd (rr_round sel xs w cur) = x then rr_total xs w else 0)"
  using assms by (auto simp: rr_round_def Let_def rr_gain_def)

lemma round_choice: "xs \<noteq> [] \<Longrightarrow> snd (rr_round sel xs w cur) \<in> set xs"
  by (simp add: rr_round_def Let_def sel_in)

lemma round_balanced:
  assumes "distinct xs" "xs \<noteq> []" "\<And>x. x \<in> set xs \<Longrightarrow> 0 < w x" "rr_balanced xs w cur"
  shows "rr_balanced xs w (fst (rr_round sel xs w cur))"
proof -
  let ?g = "rr_gain xs w cur" and ?W = "rr_total xs w"
  let ?b = "sel xs ?g"
  have b: "?b \<in> set xs" using assms(2) by (rule sel_in)
  have W: "?W = (\<Sum>x \<in> set xs. w x)" using assms(1) by (rule rr_total_sum)
  have pos: "0 < ?W" unfolding W using assms(2,3) by (intro sum_pos) auto
  have "(\<Sum>x \<in> set xs. ?g x) = (\<Sum>x \<in> set xs. cur x) + ?W"
    by (simp add: rr_gain_def W sum.distrib)
  then have gW: "(\<Sum>x \<in> set xs. ?g x) = ?W" using assms(4) by (simp add: rr_balanced_def)
  have gb: "0 < ?g ?b"
  proof (rule ccontr)
    assume "\<not> 0 < ?g ?b"
    then have "\<forall>x \<in> set xs. ?g x \<le> 0" using sel_greatest [of _ xs ?g] by (meson order.trans not_less)
    then have "(\<Sum>x \<in> set xs. ?g x) \<le> 0" by (intro sum_nonpos) auto
    with gW pos show False by simp
  qed
  have "(\<Sum>x \<in> set xs. (?g(?b := ?g ?b - ?W)) x) = (\<Sum>x \<in> set xs. ?g x) - ?W"
    using b by (simp add: sum.remove [of "set xs" ?b])
  moreover have "- ?W < (?g(?b := ?g ?b - ?W)) x" if "x \<in> set xs" for x
  proof (cases "x = ?b")
    case True
    then show ?thesis using gb by simp
  next
    case False
    then show ?thesis using that assms(3) [OF that] assms(4) by (force simp: rr_balanced_def rr_gain_def)
  qed
  ultimately show ?thesis using gW by (simp add: rr_balanced_def rr_round_def Let_def)
qed

lemma run_effect:
  assumes "distinct xs" "xs \<noteq> []" "\<And>x. x \<in> set xs \<Longrightarrow> 0 < w x" "rr_balanced xs w cur"
  shows "rr_balanced xs w (fst (rr_run sel xs w cur n)) \<and>
    length (snd (rr_run sel xs w cur n)) = n \<and>
    set (snd (rr_run sel xs w cur n)) \<subseteq> set xs \<and>
    (\<forall>x \<in> set xs. fst (rr_run sel xs w cur n) x =
       cur x + int n * w x - rr_total xs w * int (count_list (snd (rr_run sel xs w cur n)) x))"
  using assms(4)
proof (induction n arbitrary: cur)
  case (Suc n)
  let ?c = "fst (rr_round sel xs w cur)"
  from Suc.IH [OF round_balanced [OF assms(1,2,3) Suc.prems]]
  show ?case
    using round_effect [OF assms(1), of _ w cur] round_choice [OF assms(2), of w cur]
    by (auto simp: algebra_simps split: prod.splits)
qed simp

text \<open>Each candidate's share of any run is below its quota plus one, and exact after whole cycles.\<close>

lemma run_quota:
  assumes "distinct xs" "xs \<noteq> []" "\<And>x. x \<in> set xs \<Longrightarrow> 0 < w x" "x \<in> set xs"
  shows "rr_total xs w * int (count_list (snd (rr_run sel xs w (\<lambda>_. 0) n)) x) < int n * w x + rr_total xs w"
proof -
  have "rr_balanced xs w (\<lambda>_. 0)"
    using assms(1-3) by (auto simp: rr_balanced_def rr_total_sum intro: sum_pos)
  from run_effect [OF assms(1-3) this, where n = n] assms(4) show ?thesis
    by (force simp: rr_balanced_def)
qed

lemma run_cycle:
  assumes "distinct xs" "xs \<noteq> []" "\<And>x. x \<in> set xs \<Longrightarrow> 0 < w x" "x \<in> set xs"
    and n: "int n = int m * rr_total xs w"
  shows "int (count_list (snd (rr_run sel xs w (\<lambda>_. 0) n)) x) = int m * w x"
proof -
  let ?bs = "snd (rr_run sel xs w (\<lambda>_. 0) n)" and ?W = "rr_total xs w"
  have W: "?W = (\<Sum>x \<in> set xs. w x)" using assms(1) by (rule rr_total_sum)
  have pos: "0 < ?W" unfolding W using assms(2,3) by (intro sum_pos) auto
  have bal: "rr_balanced xs w (\<lambda>_. 0)" using pos by (simp add: rr_balanced_def)
  have le: "int (count_list ?bs y) \<le> int m * w y" if "y \<in> set xs" for y
  proof -
    have "?W * int (count_list ?bs y) < ?W * (int m * w y + 1)"
      using run_quota [of xs w y n, OF assms(1-3) that] by (simp add: n algebra_simps)
    then show ?thesis using pos by simp
  qed
  have "(\<Sum>y \<in> set xs. int (count_list ?bs y)) = int n"
    using run_effect [OF assms(1-3) bal, where n = n] sum_count_set [of ?bs "set xs"]
    by (simp flip: of_nat_sum)
  also have "\<dots> = (\<Sum>y \<in> set xs. int m * w y)" by (simp add: n W sum_distrib_left)
  finally have eq: "(\<Sum>y \<in> set xs. int (count_list ?bs y)) = (\<Sum>y \<in> set xs. int m * w y)" .
  show ?thesis
  proof (rule ccontr)
    assume "int (count_list ?bs x) \<noteq> int m * w x"
    then have "int (count_list ?bs x) < int m * w x" using le [OF assms(4)] by simp
    then have "(\<Sum>y \<in> set xs. int (count_list ?bs y)) < (\<Sum>y \<in> set xs. int m * w y)"
      using le assms(4) by (intro sum_strict_mono_ex1) auto
    with eq show False by simp
  qed
qed

end

end
