(* ===== verification/Balancer.thy ===== *)
theory Balancer
  imports Config_Model Round_Robin "HOL-Library.Multiset"
begin

text \<open>
  The per-service load balancer of \<^verbatim>\<open>src/subscribe/balancer.rs\<close>: smooth weighted
  round-robin over the candidates that are untried, below their connection limit, not drained and
  not ejected, the connection slots that a pick reserves, and the ejection of failing nodes with
  its exponential back-off. The mutex serialises the operations, so the state is one record and
  every operation is a function on it; \<open>balancer_step\<close> interleaves them in any order. The
  running weights are kept as integers; durations are milliseconds.
\<close>

section \<open>State\<close>

type_synonym duration = nat

definition EJECT_AFTER_FAILURES :: u32 where
  "EJECT_AFTER_FAILURES = 3"

definition BASE_EJECTION :: duration where
  "BASE_EJECTION = 10 * 1000"

definition MAX_EJECTION :: duration where
  "MAX_EJECTION = 120 * 1000"

record Backend =
  bk_node :: NodeInfo
  bk_weight :: u32
  bk_max_connections :: "u32 option"
  bk_request_timeout :: "duration option"
  bk_labels :: string_map

abbreviation bk_id :: "Backend \<Rightarrow> string" where
  "bk_id b \<equiv> ni_id (bk_node b)"

text \<open>The slot of a chosen backend is the node id it is released under.\<close>

datatype Pick = Chosen nat string | AllTried | AtCapacity

record OutlierState =
  os_consecutive_failures :: u32
  os_ejections :: u32
  os_ejected_until :: "instant option"

record Inner =
  in_current :: "string \<rightharpoonup> int"
  in_outliers :: "string \<rightharpoonup> OutlierState"
  in_active :: "string \<rightharpoonup> u32"

definition default_outlier :: OutlierState where
  "default_outlier = \<lparr>os_consecutive_failures = 0, os_ejections = 0, os_ejected_until = None\<rparr>"

definition new_inner :: Inner where
  "new_inner = \<lparr>in_current = Map.empty, in_outliers = Map.empty, in_active = Map.empty\<rparr>"

definition is_ejected :: "OutlierState \<Rightarrow> instant \<Rightarrow> bool" where
  "is_ejected st now \<longleftrightarrow> (case os_ejected_until st of Some until \<Rightarrow> now < until | None \<Rightarrow> False)"

section \<open>Operations\<close>

definition fail_open :: "nat list \<Rightarrow> (nat \<Rightarrow> bool) \<Rightarrow> nat list" where
  "fail_open xs keep = (let kept = filter keep xs in if kept = [] then xs else kept)"

definition active_count :: "Inner \<Rightarrow> string \<Rightarrow> u32" where
  "active_count inner node_id = (case in_active inner node_id of Some n \<Rightarrow> n | None \<Rightarrow> 0)"

definition below_limit :: "Inner \<Rightarrow> Backend \<Rightarrow> bool" where
  "below_limit inner b \<longleftrightarrow>
     (case bk_max_connections b of None \<Rightarrow> True | Some limit \<Rightarrow> active_count inner (bk_id b) < limit)"

definition node_ejected :: "Inner \<Rightarrow> string \<Rightarrow> instant \<Rightarrow> bool" where
  "node_ejected inner node_id now \<longleftrightarrow>
     (case in_outliers inner node_id of Some st \<Rightarrow> is_ejected st now | None \<Rightarrow> False)"

definition weight_of :: "Backend \<Rightarrow> int" where
  "weight_of b = uint (max (bk_weight b) 1)"

definition running :: "(string \<rightharpoonup> int) \<Rightarrow> string \<Rightarrow> int" where
  "running current node_id = (case current node_id of Some c \<Rightarrow> c | None \<Rightarrow> 0)"

definition gain_weight ::
  "Backend list \<Rightarrow> nat \<Rightarrow> (string \<rightharpoonup> int) \<times> (nat \<times> int) option \<Rightarrow> (string \<rightharpoonup> int) \<times> (nat \<times> int) option" where
  "gain_weight candidates i st =
     (case st of (current, best) \<Rightarrow>
        let node_id = bk_id (candidates ! i); cur = running current node_id + weight_of (candidates ! i) in
        (current(node_id \<mapsto> cur),
         case best of
           None \<Rightarrow> Some (i, cur)
         | Some (_, b) \<Rightarrow> if cur > b then Some (i, cur) else best))"

definition eligible :: "Inner \<Rightarrow> Backend list \<Rightarrow> nat list \<Rightarrow> instant \<Rightarrow> nat list" where
  "eligible inner candidates opn now =
     (let undrained = fail_open opn (\<lambda>i. bk_weight (candidates ! i) > 0) in
      fail_open undrained (\<lambda>i. \<not> node_ejected inner (bk_id (candidates ! i)) now))"

definition pick :: "Inner \<Rightarrow> Backend list \<Rightarrow> string list \<Rightarrow> instant \<Rightarrow> Inner \<times> Pick" where
  "pick inner candidates tried now =
     (let untried = filter (\<lambda>i. bk_id (candidates ! i) \<notin> set tried) [0..<length candidates] in
      if untried = [] then (inner, AllTried)
      else
        let opn = filter (\<lambda>i. below_limit inner (candidates ! i)) untried in
        if opn = [] then (inner, AtCapacity)
        else
          let el = eligible inner candidates opn now;
              total = (\<Sum>i \<leftarrow> el. weight_of (candidates ! i));
              st = fold (gain_weight candidates) el (in_current inner, None);
              chosen = fst (the (snd st));
              node_id = bk_id (candidates ! chosen)
          in (inner\<lparr>in_current := (fst st)(node_id \<mapsto> running (fst st) node_id - total),
                    in_active := (in_active inner)(node_id \<mapsto> active_count inner node_id + 1)\<rparr>,
              Chosen chosen node_id))"

definition drop_slot :: "Inner \<Rightarrow> string \<Rightarrow> Inner" where
  "drop_slot inner node_id =
     (case in_active inner node_id of
        None \<Rightarrow> inner
      | Some n \<Rightarrow>
          let n' = saturating_sub n 1 in
          inner\<lparr>in_active := (in_active inner)(node_id := (if n' = 0 then None else Some n'))\<rparr>)"

definition hosts :: "Backend list \<Rightarrow> string \<Rightarrow> bool" where
  "hosts all_backends node_id \<longleftrightarrow> (\<exists>b \<in> set all_backends. bk_id b = node_id)"

definition retain_nodes :: "Inner \<Rightarrow> Backend list \<Rightarrow> Inner" where
  "retain_nodes inner all_backends =
     inner\<lparr>in_current := (\<lambda>node_id. if hosts all_backends node_id then in_current inner node_id else None),
           in_outliers := (\<lambda>node_id. if hosts all_backends node_id then in_outliers inner node_id else None)\<rparr>"

definition record_success :: "Inner \<Rightarrow> string \<Rightarrow> Inner" where
  "record_success inner node_id =
     (case in_outliers inner node_id of
        None \<Rightarrow> inner
      | Some _ \<Rightarrow> inner\<lparr>in_outliers := (in_outliers inner)(node_id \<mapsto> default_outlier)\<rparr>)"

definition ejection_factor :: "u32 \<Rightarrow> u32" where
  "ejection_factor ejections = push_bit (unat (min (ejections - 1) 16)) 1"

definition outlier_of :: "Inner \<Rightarrow> string \<Rightarrow> OutlierState" where
  "outlier_of inner node_id = (case in_outliers inner node_id of Some st \<Rightarrow> st | None \<Rightarrow> default_outlier)"

definition record_failure :: "Inner \<Rightarrow> string \<Rightarrow> instant \<Rightarrow> Inner \<times> duration option" where
  "record_failure inner node_id now =
     (let state = outlier_of inner node_id;
          put = (\<lambda>s. inner\<lparr>in_outliers := (in_outliers inner)(node_id \<mapsto> s)\<rparr>) in
      if is_ejected state now then (put state, None)
      else
        let failures = os_consecutive_failures state + 1 in
        if failures < EJECT_AFTER_FAILURES
        then (put (state\<lparr>os_consecutive_failures := failures\<rparr>), None)
        else
          let ejections = os_ejections state + 1;
              duration = min (BASE_EJECTION * unat (ejection_factor ejections)) MAX_EJECTION
          in (put \<lparr>os_consecutive_failures = 0, os_ejections = ejections,
                   os_ejected_until = Some (now + duration)\<rparr>, Some duration))"

section \<open>The loop of a pick\<close>

fun max_from :: "('a \<Rightarrow> int) \<Rightarrow> 'a \<Rightarrow> 'a list \<Rightarrow> 'a" where
  "max_from f b [] = b"
| "max_from f b (x # xs) = max_from f (if f x > f b then x else b) xs"

definition first_max :: "'a list \<Rightarrow> ('a \<Rightarrow> int) \<Rightarrow> 'a" where
  "first_max xs f = max_from f (hd xs) (tl xs)"

lemma max_from_in: "max_from f b xs \<in> insert b (set xs)"
  by (induction xs arbitrary: b) (auto split: if_splits)

lemma max_from_greatest: "x \<in> insert b (set xs) \<Longrightarrow> f x \<le> f (max_from f b xs)"
proof (induction xs arbitrary: b x)
  case (Cons y ys)
  have "f b \<le> f (if f y > f b then y else b)" "f y \<le> f (if f y > f b then y else b)" by auto
  moreover have "f (if f y > f b then y else b) \<le> f (max_from f (if f y > f b then y else b) ys)"
    by (rule Cons.IH) simp
  ultimately have "f b \<le> f (max_from f b (y # ys))" "f y \<le> f (max_from f b (y # ys))"
    unfolding max_from.simps by (meson order.trans)+
  then show ?case using Cons by auto
qed simp

lemma max_from_cong: "(\<And>x. x \<in> insert b (set xs) \<Longrightarrow> f x = g x) \<Longrightarrow> max_from f b xs = max_from g b xs"
  by (induction xs arbitrary: b) auto

interpretation first: greatest_choice first_max
proof
  show "xs \<noteq> [] \<Longrightarrow> first_max xs f \<in> set xs" for xs :: "'a list" and f
    using max_from_in [of f "hd xs" "tl xs"] by (cases xs) (auto simp: first_max_def)
  show "x \<in> set xs \<Longrightarrow> f x \<le> f (first_max xs f)" for x :: 'a and xs f
    using max_from_greatest [of x "hd xs" "tl xs" f] by (cases xs) (auto simp: first_max_def)
qed

lemma running_upd [simp]: "running (current(node_id \<mapsto> c)) k = (if k = node_id then c else running current k)"
  by (simp add: running_def)

lemma distinct_map_ConsD: "distinct (map f (x # xs)) \<Longrightarrow> y \<in> set xs \<Longrightarrow> f y \<noteq> f x"
  by (metis distinct.simps(2) image_eqI list.set_map list.simps(9))

lemma gain_fold_best:
  assumes "set xs \<subseteq> set el" "best \<noteq> None \<longrightarrow> fst (the best) \<in> set el" "best \<noteq> None \<or> xs \<noteq> []"
  shows "\<exists>i v. snd (fold (gain_weight cs) xs (current, best)) = Some (i, v) \<and> i \<in> set el"
  using assms
proof (induction xs arbitrary: current best)
  case Nil
  then show ?case by (cases best) auto
next
  case (Cons x xs)
  obtain c1 b1 where st: "gain_weight cs x (current, best) = (c1, b1)" by fastforce
  then have "b1 \<noteq> None \<and> fst (the b1) \<in> set el"
    using Cons.prems by (auto simp: gain_weight_def Let_def split: option.splits if_splits)
  then show ?case using Cons.IH [of b1 c1] Cons.prems st by auto
qed

lemma gain_fold_current:
  assumes "distinct (map (\<lambda>i. bk_id (cs ! i)) xs)"
  shows "fst (fold (gain_weight cs) xs (current, best)) k =
    (case find (\<lambda>i. bk_id (cs ! i) = k) xs of
       Some i \<Rightarrow> Some (running current k + weight_of (cs ! i)) | None \<Rightarrow> current k)"
  using assms
proof (induction xs arbitrary: current best)
  case (Cons x xs)
  obtain b1 where st: "gain_weight cs x (current, best) =
      (current(bk_id (cs ! x) \<mapsto> running current (bk_id (cs ! x)) + weight_of (cs ! x)), b1)"
    by (simp add: gain_weight_def Let_def)
  have "find (\<lambda>i. bk_id (cs ! i) = bk_id (cs ! x)) xs = None"
    using distinct_map_ConsD [OF Cons.prems] by (simp add: find_None_iff)
  with Cons st show ?case by (auto split: option.splits)
qed simp

lemma gain_fold_max:
  assumes "distinct (map (\<lambda>i. bk_id (cs ! i)) xs)"
    and "\<And>i. i \<in> set xs \<Longrightarrow> f i = running current (bk_id (cs ! i)) + weight_of (cs ! i)"
  shows "snd (fold (gain_weight cs) xs (current, Some (b, f b))) = Some (max_from f b xs, f (max_from f b xs))"
  using assms
proof (induction xs arbitrary: current b)
  case (Cons x xs)
  let ?c = "current(bk_id (cs ! x) \<mapsto> f x)" and ?b = "if f x > f b then x else b"
  have st: "gain_weight cs x (current, Some (b, f b)) = (?c, Some (?b, f ?b))"
    using Cons.prems(2) [of x] by (simp add: gain_weight_def Let_def)
  have "snd (fold (gain_weight cs) xs (?c, Some (?b, f ?b))) = Some (max_from f ?b xs, f (max_from f ?b xs))"
    using Cons.prems(1) Cons.prems(2) distinct_map_ConsD [OF Cons.prems(1)]
    by (intro Cons.IH) (simp_all del: fun_upd_apply)
  then show ?case by (simp only: fold.simps o_apply st max_from.simps)
qed simp

lemma gain_fold_first_max:
  assumes "distinct (map (\<lambda>i. bk_id (cs ! i)) xs)" "xs \<noteq> []"
    and "\<And>i. i \<in> set xs \<Longrightarrow> f i = running current (bk_id (cs ! i)) + weight_of (cs ! i)"
  shows "snd (fold (gain_weight cs) xs (current, None)) = Some (first_max xs f, f (first_max xs f))"
proof -
  obtain y ys where xs: "xs = y # ys" using assms(2) by (cases xs) auto
  have st: "gain_weight cs y (current, None) = (current(bk_id (cs ! y) \<mapsto> f y), Some (y, f y))"
    using assms(3) [of y] by (simp add: gain_weight_def Let_def xs)
  have "snd (fold (gain_weight cs) ys (current(bk_id (cs ! y) \<mapsto> f y), Some (y, f y))) =
      Some (max_from f y ys, f (max_from f y ys))"
    using assms(1,3) distinct_map_ConsD [OF assms(1) [unfolded xs]] unfolding xs
    by (intro gain_fold_max) (simp_all del: fun_upd_apply)
  then show ?thesis by (simp only: xs fold.simps o_apply st first_max_def list.sel)
qed

lemma fail_open_prefer: "fail_open xs keep = prefer_keep keep xs"
  by (auto simp: fail_open_def prefer_keep_def Let_def filter_empty_conv)

lemma eligible_empty [simp]: "eligible inner cs xs now = [] \<longleftrightarrow> xs = []"
  by (simp add: eligible_def Let_def fail_open_prefer)

lemma eligible_subset: "set (eligible inner cs xs now) \<subseteq> set xs"
  using prefer_subset unfolding eligible_def Let_def fail_open_prefer by (meson order.trans)

section \<open>Which backend is picked\<close>

definition usable :: "Inner \<Rightarrow> string list \<Rightarrow> Backend \<Rightarrow> bool" where
  "usable inner tried b \<longleftrightarrow> bk_id b \<notin> set tried \<and> below_limit inner b"

text \<open>0: serving, 1: ejected, 2: drained, 3: drained and ejected.\<close>

definition pick_rank :: "Inner \<Rightarrow> instant \<Rightarrow> Backend \<Rightarrow> nat" where
  "pick_rank inner now b =
     (if bk_weight b > 0 then 0 else 2) + (if node_ejected inner (bk_id b) now then 1 else 0)"

lemma eligible_rank:
  assumes "i \<in> set (eligible inner cs xs now)" "j \<in> set xs"
  shows "pick_rank inner now (cs ! i) \<le> pick_rank inner now (cs ! j)"
proof -
  let ?u = "prefer_keep (\<lambda>i. bk_weight (cs ! i) > 0) xs"
  let ?keep = "\<lambda>i. \<not> node_ejected inner (bk_id (cs ! i)) now"
  have i: "i \<in> set (prefer_keep ?keep ?u)"
    using assms(1) by (simp add: eligible_def Let_def fail_open_prefer)
  then have iu: "i \<in> set ?u" by (rule prefer_subset [THEN subsetD])
  have w: "bk_weight (cs ! j) > 0 \<longrightarrow> bk_weight (cs ! i) > 0"
    using prefer_sat [OF iu assms(2)] by blast
  show ?thesis
  proof (cases "j \<in> set ?u")
    case True
    have "?keep j \<longrightarrow> ?keep i" using prefer_sat [OF i True] by blast
    with w show ?thesis by (simp add: pick_rank_def)
  next
    case False
    then obtain k where "k \<in> set xs" "bk_weight (cs ! k) > 0" "\<not> bk_weight (cs ! j) > 0"
      using assms(2) by (auto simp: prefer_keep_def split: if_splits)
    moreover then have "bk_weight (cs ! i) > 0" using prefer_sat [OF iu] by blast
    ultimately show ?thesis by (simp add: pick_rank_def)
  qed
qed

definition untried_open :: "Inner \<Rightarrow> Backend list \<Rightarrow> string list \<Rightarrow> nat list" where
  "untried_open inner cs tried = filter (\<lambda>i. usable inner tried (cs ! i)) [0..<length cs]"

lemma set_untried_open: "i \<in> set (untried_open inner cs tried) \<longleftrightarrow> i < length cs \<and> usable inner tried (cs ! i)"
  by (auto simp: untried_open_def)

lemma pick_eq:
  "pick inner cs tried now =
     (if \<forall>b \<in> set cs. bk_id b \<in> set tried then (inner, AllTried)
      else if untried_open inner cs tried = [] then (inner, AtCapacity)
      else
        let el = eligible inner cs (untried_open inner cs tried) now;
            total = (\<Sum>i \<leftarrow> el. weight_of (cs ! i));
            st = fold (gain_weight cs) el (in_current inner, None);
            chosen = fst (the (snd st));
            node_id = bk_id (cs ! chosen)
        in (inner\<lparr>in_current := (fst st)(node_id \<mapsto> running (fst st) node_id - total),
                  in_active := (in_active inner)(node_id \<mapsto> active_count inner node_id + 1)\<rparr>,
            Chosen chosen node_id))"
proof -
  have f: "filter (\<lambda>i. below_limit inner (cs ! i)) (filter (\<lambda>i. bk_id (cs ! i) \<notin> set tried) [0..<length cs])
      = untried_open inner cs tried"
    by (auto simp: untried_open_def usable_def conj_commute intro: filter_cong)
  have t: "filter (\<lambda>i. bk_id (cs ! i) \<notin> set tried) [0..<length cs] = [] \<longleftrightarrow> (\<forall>b \<in> set cs. bk_id b \<in> set tried)"
    by (auto simp: filter_empty_conv all_set_conv_all_nth)
  show ?thesis unfolding pick_def Let_def f t by simp
qed

lemma pick_Chosen:
  assumes "pick inner cs tried now = (inner', Chosen i node_id)"
  shows "i \<in> set (eligible inner cs (untried_open inner cs tried) now)" "i < length cs"
    "usable inner tried (cs ! i)" "node_id = bk_id (cs ! i)"
    "in_active inner' = (in_active inner)(node_id \<mapsto> active_count inner node_id + 1)"
    "in_outliers inner' = in_outliers inner"
proof -
  let ?el = "eligible inner cs (untried_open inner cs tried) now"
  have ne: "untried_open inner cs tried \<noteq> []"
    using assms by (auto simp: pick_eq split: if_splits)
  then obtain j v where j: "snd (fold (gain_weight cs) ?el (in_current inner, None)) = Some (j, v)" "j \<in> set ?el"
    using gain_fold_best [of ?el ?el None cs "in_current inner"] by auto
  then have i: "j = i" using assms ne by (auto simp: pick_eq Let_def split: if_splits)
  show el: "i \<in> set ?el" using j i by simp
  then have "i \<in> set (untried_open inner cs tried)" using eligible_subset by blast
  then show "i < length cs" "usable inner tried (cs ! i)" by (simp_all add: set_untried_open)
  show "node_id = bk_id (cs ! i)" "in_active inner' = (in_active inner)(node_id \<mapsto> active_count inner node_id + 1)"
    "in_outliers inner' = in_outliers inner"
    using assms by (auto simp: pick_eq Let_def split: if_splits)
qed

text \<open>
  C17. A pick fails as all-tried exactly when every candidate was tried, and as at-capacity
  exactly when some candidate is untried but all untried ones are at their limit; neither changes
  the state. Otherwise it chooses an untried candidate below its limit whose standing is the best
  among those: serving before ejected before drained, so that drained and ejected nodes are used
  only when nothing better is left. It takes exactly one slot, on the chosen node, and leaves the
  ejection states alone.
\<close>

theorem pick_outcome:
  "case pick inner cs tried now of
     (inner', AllTried) \<Rightarrow> bk_id ` set cs \<subseteq> set tried \<and> inner' = inner
   | (inner', AtCapacity) \<Rightarrow>
       \<not> bk_id ` set cs \<subseteq> set tried \<and> filter (usable inner tried) cs = [] \<and> inner' = inner
   | (inner', Chosen i node_id) \<Rightarrow>
       i < length cs \<and> node_id = bk_id (cs ! i) \<and> usable inner tried (cs ! i) \<and>
       pick_rank inner now (cs ! i) = Min (pick_rank inner now ` set (filter (usable inner tried) cs)) \<and>
       in_active inner' = (in_active inner)(node_id \<mapsto> active_count inner node_id + 1) \<and>
       in_outliers inner' = in_outliers inner"
proof -
  obtain inner' p where p: "pick inner cs tried now = (inner', p)" by fastforce
  show ?thesis
  proof (cases p)
    case (Chosen i node_id)
    note c = pick_Chosen [OF p [unfolded Chosen]]
    have "pick_rank inner now (cs ! i) \<le> pick_rank inner now b" if "b \<in> set (filter (usable inner tried) cs)" for b
    proof -
      from that obtain j where "j < length cs" "b = cs ! j" "usable inner tried (cs ! j)"
        by (auto simp: in_set_conv_nth)
      then show ?thesis using eligible_rank [OF c(1), of j] by (simp add: set_untried_open)
    qed
    then have "Min (pick_rank inner now ` set (filter (usable inner tried) cs)) = pick_rank inner now (cs ! i)"
      using c(2,3) by (intro Min_eqI) auto
    with p Chosen c show ?thesis by simp
  next
    case AllTried
    then show ?thesis using p by (auto simp: pick_eq Let_def split: if_splits)
  next
    case AtCapacity
    then have "inner' = inner" "\<not> (\<forall>b \<in> set cs. bk_id b \<in> set tried)" "untried_open inner cs tried = []"
      using p by (auto simp: pick_eq Let_def split: if_splits)
    moreover then have "filter (usable inner tried) cs = []"
      by (simp add: untried_open_def filter_empty_conv all_set_conv_all_nth)
    ultimately show ?thesis using p AtCapacity by (simp add: image_subset_iff)
  qed
qed

section \<open>Connection slots\<close>

text \<open>
  The balancer with the slots that its clients hold. Picks, releases and the other operations
  happen in any order, with any candidates. A client holds fewer than \<open>2 ^ 32\<close> slots at a time.
\<close>

inductive balancer_step :: "Inner \<times> string multiset \<Rightarrow> Inner \<times> string multiset \<Rightarrow> bool" where
  step_pick: "pick inner cs tried now = (inner', Chosen i node_id) \<Longrightarrow> size slots + 1 < 2 ^ 32 \<Longrightarrow>
    balancer_step (inner, slots) (inner', add_mset node_id slots)"
| step_refused: "pick inner cs tried now = (inner', p) \<Longrightarrow> p \<in> {AllTried, AtCapacity} \<Longrightarrow>
    balancer_step (inner, slots) (inner', slots)"
| step_drop: "node_id \<in># slots \<Longrightarrow> balancer_step (inner, slots) (drop_slot inner node_id, slots - {#node_id#})"
| step_retain: "balancer_step (inner, slots) (retain_nodes inner cs, slots)"
| step_success: "balancer_step (inner, slots) (record_success inner node_id, slots)"
| step_failure: "balancer_step (inner, slots) (fst (record_failure inner node_id now), slots)"

inductive_cases balancer_stepE: "balancer_step (inner, slots) (inner', slots')"

abbreviation balancer_reachable :: "Inner \<Rightarrow> string multiset \<Rightarrow> bool" where
  "balancer_reachable inner slots \<equiv> balancer_step\<^sup>*\<^sup>* (new_inner, {#}) (inner, slots)"

definition slots_inv :: "Inner \<times> string multiset \<Rightarrow> bool" where
  "slots_inv st \<longleftrightarrow> (case st of (inner, slots) \<Rightarrow> size slots < 2 ^ 32 \<and>
     (\<forall>node_id. in_active inner node_id =
        (if count slots node_id = 0 then None else Some (of_nat (count slots node_id)))))"

lemma count_less: "size slots < 2 ^ 32 \<Longrightarrow> count slots x < 2 ^ 32"
  using count_le_size [of slots x] by linarith

lemma other_ops_active [simp]:
  "in_active (retain_nodes inner cs) = in_active inner"
  "in_active (record_success inner node_id) = in_active inner"
  "in_active (fst (record_failure inner node_id now)) = in_active inner"
  by (auto simp: retain_nodes_def record_success_def record_failure_def Let_def split: option.splits)

lemma saturating_pred:
  "0 < n \<Longrightarrow> n < 2 ^ 32 \<Longrightarrow> saturating_sub (of_nat n :: u32) 1 = of_nat (n - 1)"
  by (simp add: saturating_sub_def word_le_nat_alt unat_of_nat of_nat_diff)

lemma of_nat_u32_zero: "n < 2 ^ 32 \<Longrightarrow> (of_nat n :: u32) = 0 \<longleftrightarrow> n = 0"
  by (auto simp: word_of_nat_eq_0_iff dest: nat_dvd_not_less)

lemma slots_inv_step: "balancer_step st st' \<Longrightarrow> slots_inv st \<Longrightarrow> slots_inv st'"
proof (induction rule: balancer_step.induct)
  case (step_pick inner cs tried now inner' i node_id slots)
  have "active_count inner node_id = of_nat (count slots node_id)"
    using step_pick(3) by (simp add: slots_inv_def active_count_def)
  with step_pick pick_Chosen(5) [OF step_pick(1)] show ?case
    by (auto simp: slots_inv_def add.commute count_eq_zero_iff)
next
  case (step_refused inner cs tried now inner' p slots)
  then show ?case by (auto simp: pick_eq Let_def split: if_splits)
next
  case (step_drop node_id slots inner)
  have sz: "size slots < 2 ^ 32" using step_drop(2) by (simp add: slots_inv_def)
  have n: "0 < count slots node_id" "count slots node_id < 2 ^ 32"
    using step_drop(1) count_less [OF sz] by auto
  have act: "in_active inner node_id = Some (of_nat (count slots node_id))"
    using step_drop(2) n by (simp add: slots_inv_def)
  obtain m where m: "count slots node_id = Suc m" using n(1) by (cases "count slots node_id") auto
  have "saturating_sub (of_nat (Suc m)) 1 = (of_nat m :: u32)" "(of_nat m :: u32) = 0 \<longleftrightarrow> m = 0"
    using saturating_pred [of "Suc m"] of_nat_u32_zero [of m] n(2) m by simp_all
  then have "drop_slot inner node_id =
      inner\<lparr>in_active := (in_active inner)(node_id := (if m = 0 then None else Some (of_nat m)))\<rparr>"
    using act by (simp only: m drop_slot_def Let_def option.case)
  moreover have "size (slots - {#node_id#}) < 2 ^ 32" using sz size_Diff_singleton [OF step_drop(1)] by simp
  ultimately show ?case
    using step_drop(2) m by (simp add: slots_inv_def not_in_iff)
qed (auto simp: slots_inv_def)

lemma slots_inv_reachable: "balancer_reachable inner slots \<Longrightarrow> slots_inv (inner, slots)"
proof (induction "(inner, slots)" arbitrary: inner slots rule: rtranclp_induct)
  case base
  then show ?case by (simp add: slots_inv_def new_inner_def)
next
  case (step st)
  then show ?case by (cases st) (auto intro: slots_inv_step)
qed

lemma slots_counted: "balancer_reachable inner slots \<Longrightarrow> unat (active_count inner node_id) = count slots node_id"
  using slots_inv_reachable [of inner slots] count_less [of slots node_id]
  by (auto simp: slots_inv_def active_count_def unat_of_nat)

text \<open>
  C3. However picks, releases, configuration changes and failures interleave, the balancer's
  count of a node's connections is the number of slots held on it, and a pick of a candidate with
  a connection limit leaves no more slots on its node than the limit.
\<close>

theorem connection_limit:
  assumes "balancer_reachable inner slots"
    and "pick inner cs tried now = (inner', Chosen i node_id)"
    and "bk_max_connections (cs ! i) = Some limit"
  shows "unat (active_count inner node_id) = count slots node_id \<and> count (add_mset node_id slots) node_id \<le> unat limit"
proof -
  have "active_count inner node_id < limit"
    using pick_Chosen(3,4) [OF assms(2)] assms(3) by (simp add: usable_def below_limit_def)
  then show ?thesis
    using slots_counted [OF assms(1), of node_id] by (simp add: word_less_nat_alt Suc_le_eq)
qed

section \<open>Fair shares\<close>

definition serving :: "Backend list \<Rightarrow> nat list" where
  "serving cs = fail_open [0..<length cs] (\<lambda>i. bk_weight (cs ! i) > 0)"

definition share :: "Backend list \<Rightarrow> nat \<Rightarrow> nat" where
  "share cs i =
     (if bk_weight (cs ! i) > 0 then unat (bk_weight (cs ! i))
      else if \<forall>b \<in> set cs. bk_weight b = 0 then 1 else 0)"

definition total_share :: "Backend list \<Rightarrow> nat" where
  "total_share cs = (\<Sum>i < length cs. share cs i)"

definition unlimited :: "Backend list \<Rightarrow> bool" where
  "unlimited cs \<longleftrightarrow> cs \<noteq> [] \<and> distinct (map bk_id cs) \<and> (\<forall>b \<in> set cs. bk_max_connections b = None)"

fun pick_seq :: "Inner \<Rightarrow> Backend list \<Rightarrow> instant list \<Rightarrow> Inner \<times> Pick list" where
  "pick_seq inner cs [] = (inner, [])"
| "pick_seq inner cs (now # ts) =
     (case pick inner cs [] now of (inner1, p) \<Rightarrow>
      case pick_seq inner1 cs ts of (inner2, ps) \<Rightarrow> (inner2, p # ps))"

abbreviation wt :: "Backend list \<Rightarrow> nat \<Rightarrow> int" where
  "wt cs \<equiv> \<lambda>i. weight_of (cs ! i)"

definition runs_as :: "Backend list \<Rightarrow> Inner \<Rightarrow> (nat \<Rightarrow> int) \<Rightarrow> bool" where
  "runs_as cs inner cur \<longleftrightarrow> in_outliers inner = Map.empty \<and>
     (\<forall>i \<in> set (serving cs). running (in_current inner) (bk_id (cs ! i)) = cur i)"

lemma weight_of_pos: "0 < weight_of b"
proof -
  have "(1 :: u32) \<le> max (bk_weight b) 1" by simp
  then have "1 \<le> uint (max (bk_weight b) 1)" by (simp add: word_le_def)
  then show ?thesis by (simp add: weight_of_def)
qed

lemma set_serving: "i \<in> set (serving cs) \<longleftrightarrow> i < length cs \<and> 0 < share cs i"
proof -
  have *: "(\<forall>b \<in> set cs. bk_weight b = 0) \<longleftrightarrow> filter (\<lambda>i. bk_weight (cs ! i) > 0) [0..<length cs] = []"
    by (auto simp: filter_empty_conv all_set_conv_all_nth simp flip: word_neq_0_conv)
  show ?thesis
    by (auto simp: serving_def fail_open_def Let_def share_def * unat_gt_0 word_neq_0_conv filter_empty_conv)
qed

lemma share_weight: "i \<in> set (serving cs) \<Longrightarrow> wt cs i = int (share cs i)"
proof -
  assume "i \<in> set (serving cs)"
  then have "0 < share cs i" by (simp add: set_serving)
  moreover have "max w 1 = w" if "w > 0" for w :: u32
    using that inc_le [of 0 w] by simp
  ultimately show ?thesis
    by (auto simp: weight_of_def share_def word_gt_0 split: if_splits)
qed

lemma distinct_serving: "distinct (serving cs)"
  by (simp add: serving_def fail_open_def Let_def)

lemma nth_map_inj:
  "distinct (map f xs) \<Longrightarrow> i < length xs \<Longrightarrow> j < length xs \<Longrightarrow> f (xs ! i) = f (xs ! j) \<Longrightarrow> i = j"
  by (metis length_map nth_eq_iff_index_eq nth_map)

lemma serving_ids: "distinct (map bk_id cs) \<Longrightarrow> distinct (map (\<lambda>i. bk_id (cs ! i)) (serving cs))"
  using distinct_serving [of cs]
  by (auto simp: distinct_map [of _ "serving cs"] inj_on_def set_serving nth_eq_iff_index_eq
      dest: nth_map_inj)

lemma serving_nonempty: "cs \<noteq> [] \<Longrightarrow> serving cs \<noteq> []"
  by (simp add: serving_def fail_open_prefer)

lemma total_serving: "rr_total (serving cs) (wt cs) = int (total_share cs)"
proof -
  have "rr_total (serving cs) (wt cs) = (\<Sum>i \<in> set (serving cs). int (share cs i))"
    by (simp add: rr_total_sum distinct_serving share_weight)
  also have "\<dots> = (\<Sum>i < length cs. int (share cs i))"
    by (rule sum.mono_neutral_left) (auto simp: set_serving)
  finally show ?thesis by (simp add: total_share_def)
qed

lemma pick_round:
  assumes "unlimited cs" "runs_as cs inner cur"
  shows "\<exists>inner'. pick inner cs [] now = (inner', Chosen (snd (rr_round first_max (serving cs) (wt cs) cur))
      (bk_id (cs ! snd (rr_round first_max (serving cs) (wt cs) cur)))) \<and>
    runs_as cs inner' (fst (rr_round first_max (serving cs) (wt cs) cur))"
proof -
  let ?E = "serving cs" and ?f = "rr_gain (serving cs) (wt cs) cur"
  let ?b = "first_max ?E ?f"
  have u: "untried_open inner cs [] = [0..<length cs]"
    using assms(1) by (auto simp: untried_open_def usable_def below_limit_def unlimited_def filter_id_conv)
  have el: "eligible inner cs [0..<length cs] now = ?E"
    using assms(2) by (simp add: eligible_def Let_def node_ejected_def runs_as_def serving_def [symmetric])
      (simp add: fail_open_def)
  have ne: "?E \<noteq> []" and ids: "distinct (map (\<lambda>i. bk_id (cs ! i)) ?E)"
    using assms(1) by (auto simp: unlimited_def serving_nonempty serving_ids)
  have f: "?f i = running (in_current inner) (bk_id (cs ! i)) + wt cs i" if "i \<in> set ?E" for i
    using assms(2) that by (simp add: rr_gain_def runs_as_def)
  have best: "snd (fold (gain_weight cs) ?E (in_current inner, None)) = Some (?b, ?f ?b)"
    by (rule gain_fold_first_max [OF ids ne f])
  have cur: "running (fst (fold (gain_weight cs) ?E (in_current inner, None))) (bk_id (cs ! i)) = ?f i"
    if "i \<in> set ?E" for i
  proof -
    have "find (\<lambda>j. bk_id (cs ! j) = bk_id (cs ! i)) ?E = Some i"
      using find_key_unique [OF ids that] by simp
    then show ?thesis by (simp add: running_def gain_fold_current [OF ids]) (simp add: f [OF that] running_def)
  qed
  have b: "?b \<in> set ?E" by (rule first.sel_in [OF ne])
  have inj: "bk_id (cs ! i) = bk_id (cs ! ?b) \<longleftrightarrow> i = ?b" if "i \<in> set ?E" for i
    using ids b that by (auto simp: distinct_map inj_on_def)
  show ?thesis
    using assms(2) cur b inj assms(1) ne
    by (auto simp: pick_eq u el best Let_def runs_as_def rr_round_def rr_total_def unlimited_def)
qed

lemma pick_seq_run:
  assumes "unlimited cs" "runs_as cs inner cur"
  shows "snd (pick_seq inner cs ts) =
      map (\<lambda>b. Chosen b (bk_id (cs ! b))) (snd (rr_run first_max (serving cs) (wt cs) cur (length ts))) \<and>
    runs_as cs (fst (pick_seq inner cs ts)) (fst (rr_run first_max (serving cs) (wt cs) cur (length ts)))"
  using assms(2)
proof (induction ts arbitrary: inner cur)
  case (Cons now ts)
  obtain cur1 b where r: "rr_round first_max (serving cs) (wt cs) cur = (cur1, b)" by fastforce
  obtain inner1 where p: "pick inner cs [] now = (inner1, Chosen b (bk_id (cs ! b)))" "runs_as cs inner1 cur1"
    using pick_round [OF assms(1) Cons.prems, of now] r by auto
  from Cons.IH [OF p(2)] p(1) r show ?case by (auto split: prod.splits)
qed simp

lemma runs_as_start:
  "in_current inner = Map.empty \<Longrightarrow> in_outliers inner = Map.empty \<Longrightarrow> runs_as cs inner (\<lambda>_. 0)"
  by (simp add: runs_as_def running_def)

lemma count_chosen:
  "count_list (map (\<lambda>b. Chosen b (bk_id (cs ! b))) bs) (Chosen i (bk_id (cs ! i))) = count_list bs i"
  by (induction bs) auto

lemma count_picked:
  assumes "unlimited cs" "in_current inner = Map.empty" "in_outliers inner = Map.empty"
  shows "count_list (snd (pick_seq inner cs ts)) (Chosen i (bk_id (cs ! i))) =
    count_list (snd (rr_run first_max (serving cs) (wt cs) (\<lambda>_. 0) (length ts))) i"
  using pick_seq_run [OF assms(1) runs_as_start [OF assms(2,3)], of ts] by (simp add: count_chosen)

lemma serving_run:
  assumes "unlimited cs"
  shows "rr_balanced (serving cs) (wt cs) (fst (rr_run first_max (serving cs) (wt cs) (\<lambda>_. 0) n)) \<and>
    set (snd (rr_run first_max (serving cs) (wt cs) (\<lambda>_. 0) n)) \<subseteq> set (serving cs)"
proof -
  have ne: "serving cs \<noteq> []" using assms by (simp add: unlimited_def serving_nonempty)
  have bal: "rr_balanced (serving cs) (wt cs) (\<lambda>_. 0)"
    using ne by (auto simp: rr_balanced_def rr_total_sum distinct_serving weight_of_pos intro: sum_pos)
  from first.run_effect [of "serving cs" "wt cs", OF distinct_serving ne weight_of_pos bal] show ?thesis
    by blast
qed

text \<open>
  Fairness. With a stable set of unlimited candidates and no ejections, a balancer that
  starts afresh sends to each candidate, in every run of picks, fewer connections than its exact
  proportional share plus one.
\<close>

theorem pick_quota:
  assumes "unlimited cs" "in_current inner = Map.empty" "in_outliers inner = Map.empty" "i < length cs"
  shows "total_share cs * count_list (snd (pick_seq inner cs ts)) (Chosen i (bk_id (cs ! i)))
    < length ts * share cs i + total_share cs"
proof (cases "i \<in> set (serving cs)")
  case True
  have ne: "serving cs \<noteq> []" using assms(1) by (simp add: unlimited_def serving_nonempty)
  have "int (total_share cs * count_list (snd (pick_seq inner cs ts)) (Chosen i (bk_id (cs ! i))))
      < int (length ts * share cs i + total_share cs)"
    using first.run_quota [of "serving cs" "wt cs" i "length ts", OF distinct_serving ne weight_of_pos True]
    by (simp add: count_picked [OF assms(1-3)] total_serving share_weight [OF True])
  then show ?thesis by (simp only: of_nat_less_iff)
next
  case False
  then have "count_list (snd (pick_seq inner cs ts)) (Chosen i (bk_id (cs ! i))) = 0"
    using serving_run [OF assms(1), of "length ts"] by (auto simp: count_picked [OF assms(1-3)] count_list_0_iff)
  moreover have "serving cs \<noteq> []" using assms(1) by (simp add: unlimited_def serving_nonempty)
  then have "0 < total_share cs"
    using total_serving [of cs] weight_of_pos
    by (metis distinct_serving List.finite_set of_nat_0_less_iff rr_total_sum set_empty sum_pos)
  ultimately show ?thesis by simp
qed

text \<open>
  C16. Exact shares. Under the same conditions, in any number of whole cycles (as many picks as
  the weights add up to) every candidate is picked exactly in proportion to its weight; a drained
  candidate is not picked at all unless all are drained, and then all are picked equally often.
\<close>

theorem pick_fair_share:
  assumes "unlimited cs" "in_current inner = Map.empty" "in_outliers inner = Map.empty" "i < length cs"
    and "length ts = m * total_share cs"
  shows "count_list (snd (pick_seq inner cs ts)) (Chosen i (bk_id (cs ! i))) = m * share cs i"
proof (cases "i \<in> set (serving cs)")
  case True
  have ne: "serving cs \<noteq> []" using assms(1) by (simp add: unlimited_def serving_nonempty)
  have "int (length ts) = int m * rr_total (serving cs) (wt cs)" by (simp add: assms(5) total_serving)
  from first.run_cycle [of "serving cs" "wt cs" i, OF distinct_serving ne weight_of_pos True this]
  have "int (count_list (snd (pick_seq inner cs ts)) (Chosen i (bk_id (cs ! i)))) = int (m * share cs i)"
    by (simp add: count_picked [OF assms(1-3)] share_weight [OF True])
  then show ?thesis by (simp only: of_nat_eq_iff)
next
  case False
  then have "share cs i = 0" using assms(4) by (simp add: set_serving)
  with False show ?thesis
    using serving_run [OF assms(1), of "length ts"] by (auto simp: count_picked [OF assms(1-3)] count_list_0_iff)
qed

text \<open>
  C37. Under the same conditions, and with fewer than \<open>2 ^ 15\<close> candidates, the running weights
  that the program keeps as \<open>i64\<close> stay in range, even after gaining another weight.
\<close>

theorem running_weights_fit:
  assumes "unlimited cs" "in_current inner = Map.empty" "in_outliers inner = Map.empty"
    and "i \<in> set (serving cs)" "length cs < 2 ^ 15"
  shows "\<bar>running (in_current (fst (pick_seq inner cs ts))) (bk_id (cs ! i))\<bar> + 2 ^ 32 < 2 ^ 63"
proof -
  let ?E = "serving cs" and ?W = "rr_total (serving cs) (wt cs)"
  obtain cur where r: "running (in_current (fst (pick_seq inner cs ts))) (bk_id (cs ! i)) = cur i"
    and bal: "rr_balanced ?E (wt cs) cur"
    using pick_seq_run [OF assms(1) runs_as_start [OF assms(2,3)], of ts] serving_run [OF assms(1), of "length ts"] assms(4)
    by (auto simp: runs_as_def)
  have "set ?E \<subseteq> {..<length cs}" by (auto simp: set_serving)
  from card_mono [OF _ this] have len: "card (set ?E) \<le> length cs" by simp
  have wt: "wt cs j \<le> 2 ^ 32" for j
    using uint_lt2p [of "max (bk_weight (cs ! j)) 1"] by (simp add: weight_of_def)
  have "?W \<le> int (card (set ?E)) * 2 ^ 32"
    unfolding rr_total_sum [OF distinct_serving] using wt by (intro sum_bounded_above) auto
  also have "\<dots> \<le> 2 ^ 15 * 2 ^ 32" using len assms(5) by (intro mult_right_mono) auto
  finally have W: "?W \<le> 2 ^ 15 * 2 ^ 32" .
  have W0: "0 \<le> ?W" by (simp add: total_serving)
  have "cur i = - (\<Sum>j \<in> set ?E - {i}. cur j)"
    using bal assms(4) by (simp add: rr_balanced_def sum.remove [of "set ?E" i])
  also have "\<dots> \<le> (\<Sum>j \<in> set ?E - {i}. ?W)"
    unfolding sum_negf [symmetric] using bal by (intro sum_mono) (fastforce simp: rr_balanced_def)
  also have "\<dots> \<le> 2 ^ 14 * 2 * (2 ^ 15 * 2 ^ 32) - ?W"
  proof -
    have "int (card (set ?E - {i})) + 1 \<le> 2 ^ 15" using len assms(4,5) by simp
    then have "(int (card (set ?E - {i})) + 1) * ?W \<le> 2 ^ 15 * (2 ^ 15 * 2 ^ 32)"
      using W W0 by (intro mult_mono) auto
    then show ?thesis by (simp add: algebra_simps)
  qed
  finally have "cur i \<le> 2 ^ 62" using W0 by simp
  moreover have "- ?W < cur i" using bal assms(4) by (simp add: rr_balanced_def)
  ultimately show ?thesis using W by (simp add: r abs_if)
qed

section \<open>Ejection\<close>

lemma unat_ejection_factor:
  assumes "j < 2 ^ 32 - 1"
  shows "unat (ejection_factor (of_nat j + 1)) = 2 ^ min j 16"
proof -
  have j: "unat (of_nat j :: u32) = j" using assms by (simp add: unat_of_nat)
  have "unat (min (of_nat j :: u32) 16) = min j 16"
    using j by (simp add: min_def word_le_nat_alt)
  then have "ejection_factor (of_nat j + 1) = push_bit (min j 16) 1" by (simp add: ejection_factor_def)
  also have "\<dots> = 2 ^ min j 16" by (simp add: push_bit_eq_mult)
  also have "unat \<dots> = 2 ^ min j 16"
  proof -
    have "(2::nat) ^ min j 16 < 2 ^ 32" by (intro power_strict_increasing) auto
    moreover have "(2::u32) ^ min j 16 = of_nat (2 ^ min j 16)" by simp
    ultimately show ?thesis unfolding unat_of_nat by (simp only: unat_of_nat mod_less len_num0 len_num1 len_bit0 len_bit1) simp
  qed
  finally show ?thesis .
qed

lemma backoff_cap: "min (BASE_EJECTION * 2 ^ min j 16) MAX_EJECTION = min (BASE_EJECTION * 2 ^ j) MAX_EJECTION"
proof (cases "j \<le> 16")
  case False
  then have "(2::nat) ^ 16 \<le> 2 ^ j" by (intro power_increasing) auto
  with False show ?thesis by (simp add: BASE_EJECTION_def MAX_EJECTION_def min_def)
qed (simp add: min_def)

lemma outlier_of_put [simp]:
  "outlier_of (inner\<lparr>in_outliers := (in_outliers inner)(node_id \<mapsto> st)\<rparr>) k = (if k = node_id then st else outlier_of inner k)"
  by (simp add: outlier_of_def)

lemma record_failure_counts:
  assumes "\<not> is_ejected (outlier_of inner node_id) now" "os_consecutive_failures (outlier_of inner node_id) + 1 < 3"
  shows "record_failure inner node_id now =
    (inner\<lparr>in_outliers := (in_outliers inner)(node_id \<mapsto>
       (outlier_of inner node_id)\<lparr>os_consecutive_failures := os_consecutive_failures (outlier_of inner node_id) + 1\<rparr>)\<rparr>, None)"
  using assms by (simp add: record_failure_def Let_def EJECT_AFTER_FAILURES_def)

lemma record_failure_ejects:
  assumes "\<not> is_ejected (outlier_of inner node_id) now" "os_consecutive_failures (outlier_of inner node_id) = 2"
    and "os_ejections (outlier_of inner node_id) = of_nat j" "j < 2 ^ 32 - 1"
  shows "\<exists>inner'. record_failure inner node_id now = (inner', Some (min (BASE_EJECTION * 2 ^ j) MAX_EJECTION)) \<and>
    outlier_of inner' node_id = \<lparr>os_consecutive_failures = 0, os_ejections = of_nat (Suc j),
      os_ejected_until = Some (now + min (BASE_EJECTION * 2 ^ j) MAX_EJECTION)\<rparr>"
  using assms unat_ejection_factor [OF assms(4)] backoff_cap [of j]
  by (simp add: record_failure_def Let_def EJECT_AFTER_FAILURES_def add.commute)

definition out_of_rotation :: "Inner \<Rightarrow> string \<Rightarrow> instant \<Rightarrow> bool" where
  "out_of_rotation inner node_id now \<longleftrightarrow> is_ejected (outlier_of inner node_id) now"

text \<open>
  Three failures of a node that is in rotation eject it. The first two eject nothing; the third
  ejects for 10 s doubled once per ejection since the node's last success, at most 120 s, and the
  node is out of rotation for exactly that long. A fourth failure meanwhile does not extend it.
\<close>

theorem ejection_backoff:
  assumes "os_consecutive_failures (outlier_of inner node_id) = 0"
    and "os_ejections (outlier_of inner node_id) = of_nat j" "j < 2 ^ 32 - 1"
    and "\<not> out_of_rotation inner node_id t1" "t1 \<le> t2" "t2 \<le> t3"
  shows "\<exists>inner1 inner2 inner3 d. d = min (10000 * 2 ^ j) 120000 \<and>
    record_failure inner node_id t1 = (inner1, None) \<and> record_failure inner1 node_id t2 = (inner2, None) \<and>
    record_failure inner2 node_id t3 = (inner3, Some d) \<and>
    os_ejections (outlier_of inner3 node_id) = of_nat (Suc j) \<and>
    (\<forall>now. out_of_rotation inner3 node_id now \<longleftrightarrow> now < t3 + d) \<and>
    (\<forall>now. now < t3 + d \<longrightarrow> snd (record_failure inner3 node_id now) = None)"
proof -
  let ?o = "outlier_of inner node_id"
  have ne: "\<not> is_ejected ?o t1" "\<not> is_ejected ?o t2" "\<not> is_ejected ?o t3"
    using assms(4-6) by (auto simp: out_of_rotation_def is_ejected_def split: option.splits)
  have upd: "is_ejected (?o\<lparr>os_consecutive_failures := n\<rparr>) t = is_ejected ?o t" for n t
    by (simp add: is_ejected_def)
  obtain inner1 where r1: "record_failure inner node_id t1 = (inner1, None)"
    and o1: "outlier_of inner1 node_id = ?o\<lparr>os_consecutive_failures := 1\<rparr>"
    using record_failure_counts [OF ne(1)] assms(1) by simp
  obtain inner2 where r2: "record_failure inner1 node_id t2 = (inner2, None)"
    and o2: "outlier_of inner2 node_id = ?o\<lparr>os_consecutive_failures := 2\<rparr>"
    using record_failure_counts [of inner1 node_id t2] ne(2) o1 by (simp add: upd)
  obtain inner3 where r3: "record_failure inner2 node_id t3 = (inner3, Some (min (BASE_EJECTION * 2 ^ j) MAX_EJECTION))"
    and o3: "outlier_of inner3 node_id = \<lparr>os_consecutive_failures = 0, os_ejections = of_nat (Suc j),
      os_ejected_until = Some (t3 + min (BASE_EJECTION * 2 ^ j) MAX_EJECTION)\<rparr>"
    using record_failure_ejects [of inner2 node_id t3 j] ne(3) o2 assms(2,3) by (auto simp: upd)
  have "snd (record_failure inner3 node_id now) = None" if "is_ejected (outlier_of inner3 node_id) now" for now
    using that by (simp add: record_failure_def)
  with r1 r2 r3 o3 show ?thesis
    by (simp add: out_of_rotation_def is_ejected_def BASE_EJECTION_def MAX_EJECTION_def)
qed

section \<open>A concrete service\<close>

definition sample_backend :: "string \<Rightarrow> u32 \<Rightarrow> u32 option \<Rightarrow> Backend" where
  "sample_backend node_id w limit =
     \<lparr>bk_node = \<lparr>ni_id = node_id, ni_addr = ''10.0.0.1:9000'', ni_relay = None, ni_last_seen = None,
        ni_health = default_service_health\<rparr>,
      bk_weight = w, bk_max_connections = limit, bk_request_timeout = None, bk_labels = []\<rparr>"

definition sample_backends :: "Backend list" where
  "sample_backends = [sample_backend ''a'' 2 None, sample_backend ''b'' 1 None]"

lemma sample_backends_unlimited: "unlimited sample_backends"
  by (simp add: unlimited_def sample_backends_def sample_backend_def)

lemma sample_share: "share sample_backends 0 = 2" "share sample_backends (Suc 0) = 1" "total_share sample_backends = 3"
  by (simp_all add: share_def total_share_def sample_backends_def sample_backend_def word_less_nat_alt)

theorem pick_quota_witness:
  "3 * count_list (snd (pick_seq new_inner sample_backends [0, 1])) (Chosen 0 ''a'') < 2 * 2 + 3"
  using pick_quota [OF sample_backends_unlimited, of new_inner 0 "[0, 1]"]
  by (simp only: sample_share) (simp add: new_inner_def sample_backends_def sample_backend_def)

theorem pick_fair_share_witness:
  "count_list (snd (pick_seq new_inner sample_backends [0, 1, 2])) (Chosen 0 ''a'') = 2"
  using pick_fair_share [OF sample_backends_unlimited, of new_inner 0 "[0, 1, 2]" 1]
  by (simp only: sample_share) (simp add: new_inner_def sample_backends_def sample_backend_def)

theorem running_weights_fit_witness:
  "\<bar>running (in_current (fst (pick_seq new_inner sample_backends [0, 1]))) ''a''\<bar> + 2 ^ 32 < 2 ^ 63"
proof -
  have "0 \<in> set (serving sample_backends)" by (simp add: set_serving sample_share) (simp add: sample_backends_def)
  from running_weights_fit [OF sample_backends_unlimited _ _ this, of new_inner "[0, 1]"] show ?thesis
    by (simp add: new_inner_def sample_backends_def sample_backend_def)
qed

theorem connection_limit_witness:
  "\<exists>inner'. pick new_inner [sample_backend ''a'' 1 (Some 1)] [] 0 = (inner', Chosen 0 ''a'') \<and>
     count (add_mset ''a'' {#}) ''a'' \<le> unat (1 :: u32)"
proof -
  obtain inner' where p: "pick new_inner [sample_backend ''a'' 1 (Some 1)] [] 0 = (inner', Chosen 0 ''a'')"
    by (simp add: pick_def Let_def sample_backend_def new_inner_def below_limit_def active_count_def
        eligible_def fail_open_def node_ejected_def gain_weight_def)
  from connection_limit [OF _ p, of "{#}" 1] p show ?thesis by (simp add: sample_backend_def)
qed

theorem ejection_backoff_witness:
  "\<exists>inner1 inner2 inner3. record_failure new_inner ''a'' 0 = (inner1, None) \<and>
     record_failure inner1 ''a'' 5 = (inner2, None) \<and> record_failure inner2 ''a'' 7 = (inner3, Some 10000)"
  using ejection_backoff [of new_inner "''a''" 0 0 5 7]
  by (auto simp: new_inner_def outlier_of_def default_outlier_def out_of_rotation_def is_ejected_def)

end
