(* ===== verification/Proxy.thy ===== *)
theory Proxy
  imports Balancer Tunnel
begin

text \<open>
  The subscriber's TCP proxy (\<^verbatim>\<open>src/subscribe/proxy.rs\<close>): which nodes can serve a service, in
  which order of preference, the attempts made for one client connection, and where the connection
  for a tunnel comes from. What the network answers is a parameter: \<open>se_establish\<close> is the
  result of the n-th attempt at a node, \<open>se_now\<close> the clock when it starts and
  \<open>se_failed_at\<close> when it has failed.
\<close>

section \<open>The candidates\<close>

definition MAX_TUNNEL_ATTEMPTS :: nat where
  "MAX_TUNNEL_ATTEMPTS = 3"

definition NODE_STALE_AFTER :: duration where
  "NODE_STALE_AFTER = 30 * 1000"

definition service_instances :: "SharedState \<Rightarrow> string \<Rightarrow> ((string \<times> string) \<times> Service) list" where
  "service_instances st service_name = filter (\<lambda>((_, svc), _). svc = service_name) (ss_service_index st)"

definition service_is_http :: "string \<Rightarrow> SharedState \<Rightarrow> bool" where
  "service_is_http service_name st =
     (service_instances st service_name \<noteq> [] \<and>
      list_all (\<lambda>(_, svc). svc_protocol svc = Http) (service_instances st service_name))"

definition backend_of :: "SharedState \<Rightarrow> (string \<times> string) \<times> Service \<Rightarrow> Backend option" where
  "backend_of st entry =
     (case entry of ((node_id, _), svc) \<Rightarrow>
        map_option (\<lambda>node. \<lparr>bk_node = node, bk_weight = svc_weight svc,
            bk_max_connections = svc_max_connections svc,
            bk_request_timeout = map_option unat (svc_request_timeout_ms svc),
            bk_labels = svc_labels svc\<rparr>)
          (hm_get (ss_known_nodes st) node_id))"

definition service_backends :: "string \<Rightarrow> SharedState \<Rightarrow> Backend list" where
  "service_backends service_name st =
     sort_key bk_id (List.map_filter (backend_of st) (service_instances st service_name))"

definition node_live :: "instant \<Rightarrow> Backend \<Rightarrow> bool" where
  "node_live now b =
     (case ni_last_seen (bk_node b) of Some seen \<Rightarrow> now - seen \<le> NODE_STALE_AFTER | None \<Rightarrow> False)"

definition prefer_healthy :: "Backend list \<Rightarrow> string \<Rightarrow> SharedState \<Rightarrow> instant \<Rightarrow> Backend list" where
  "prefer_healthy backends service_name st now =
     (let live = prefer_keep (node_live now) backends in
      prefer_keep (\<lambda>b. \<not> service_unhealthy st (bk_id b) service_name) live)"

section \<open>Serving one client\<close>

record serve_env =
  se_now :: "nat \<Rightarrow> instant"
  se_failed_at :: "nat \<Rightarrow> instant"
  se_establish :: "nat \<Rightarrow> NodeInfo \<Rightarrow> string + conn"

text \<open>
  How the attempts end: with a tunnel on the backend of that index, holding its slot; refused because
  every backend is at its limit; or given up, with the last error if there was one.
\<close>

datatype serve_result = NoNodes | CircuitOpen | Served nat conn | GaveUp "string option"

text \<open>
  The loop over nodes, as it runs when no other connection uses the balancer meanwhile; what other
  connections do to it between the steps is in \<open>balancer_step\<close>. A failed attempt is noted with the balancer and gives its slot back before the
  next one; a successful one keeps its slot while the connection lasts.
\<close>

function serve_loop ::
  "serve_env \<Rightarrow> Backend list \<Rightarrow> nat \<Rightarrow> Inner \<Rightarrow> string list \<Rightarrow> string option \<Rightarrow> Inner \<times> string list \<times> serve_result" where
  "serve_loop env backends max_attempts inner tried last_err =
     (if length tried < max_attempts
      then (case pick inner backends tried (se_now env (length tried)) of
              (inner1, AllTried) \<Rightarrow> (inner1, tried, GaveUp last_err)
            | (inner1, AtCapacity) \<Rightarrow>
                (inner1, tried, if last_err = None then CircuitOpen else GaveUp last_err)
            | (inner1, Chosen idx slot) \<Rightarrow>
                let node = bk_node (backends ! idx); tried' = tried @ [ni_id node] in
                (case se_establish env (length tried) node of
                   Inr tunnel \<Rightarrow> (record_success inner1 (ni_id node), tried', Served idx tunnel)
                 | Inl e \<Rightarrow>
                     serve_loop env backends max_attempts
                       (drop_slot (fst (record_failure inner1 (ni_id node) (se_failed_at env (length tried)))) slot)
                       tried' (Some e)))
      else (inner, tried, GaveUp last_err))"
  by pat_completeness auto

termination
  by (relation "measure (\<lambda>(env, backends, max_attempts, inner, tried, last_err). max_attempts - length tried)")
    auto

declare serve_loop.simps [simp del]

definition serve_client ::
  "serve_env \<Rightarrow> string \<Rightarrow> SharedState \<Rightarrow> instant \<Rightarrow> Inner \<Rightarrow> Inner \<times> string list \<times> serve_result" where
  "serve_client env service_name st now balancer =
     (let all_backends = service_backends service_name st;
          inner = retain_nodes balancer all_backends;
          backends = prefer_healthy all_backends service_name st now in
      if backends = [] then (inner, [], NoNodes)
      else serve_loop env backends (min (length backends) MAX_TUNNEL_ATTEMPTS) inner [] None)"

section \<open>Where a tunnel's connection comes from\<close>

datatype Tunnel = MuxStream conn | MeshConn conn

text \<open>
  The pool of multiplexed sessions (\<^verbatim>\<open>src/mux.rs\<close>); \<open>opens\<close> says whether a session still
  opens streams.
\<close>

type_synonym MuxPool = "string \<rightharpoonup> nat"

definition mux_open_stream :: "(nat \<Rightarrow> conn option) \<Rightarrow> MuxPool \<Rightarrow> string \<Rightarrow> MuxPool \<times> conn option" where
  "mux_open_stream opens sessions addr =
     (case sessions addr of
        None \<Rightarrow> (sessions, None)
      | Some handle \<Rightarrow>
          (case opens handle of
             Some stream \<Rightarrow> (sessions, Some stream)
           | None \<Rightarrow> (sessions(addr := None), None)))"

definition mux_insert :: "MuxPool \<Rightarrow> string \<Rightarrow> nat \<Rightarrow> MuxPool" where
  "mux_insert sessions addr handle = sessions(addr \<mapsto> handle)"

definition mux_contains :: "MuxPool \<Rightarrow> string \<Rightarrow> bool" where
  "mux_contains sessions addr = (sessions addr \<noteq> None)"

definition mux_session_count :: "MuxPool \<Rightarrow> nat" where
  "mux_session_count sessions = card (dom sessions)"

record tunnel_env =
  te_opens :: "nat \<Rightarrow> conn option"
  te_connect :: "string \<Rightarrow> string + conn"
  te_wakes :: "StreamPool list"

definition connect_addr :: "NodeInfo \<Rightarrow> string" where
  "connect_addr node = (case ni_relay node of Some relay \<Rightarrow> relay | None \<Rightarrow> ni_addr node)"

text \<open>The connection for a tunnel to a node, and the name of the way it was found.\<close>

definition acquire_stream ::
  "tunnel_env \<Rightarrow> NodeInfo \<Rightarrow> SharedState \<Rightarrow> SharedState \<times> (string + string \<times> conn)" where
  "acquire_stream env node st =
     (case try_take (ss_reverse_pool st) (ni_id node) of
        (pool, Some stream) \<Rightarrow> (st\<lparr>ss_reverse_pool := pool\<rparr>, Inr (''reverse'', stream))
      | (_, None) \<Rightarrow>
          (case try_take (ss_tunnel_pool st) (connect_addr node) of
             (pool, Some stream) \<Rightarrow> (st\<lparr>ss_tunnel_pool := pool\<rparr>, Inr (''pool'', stream))
           | (_, None) \<Rightarrow>
               if connect_addr node = []
               then (case pool_take (ss_reverse_pool st) (ni_id node) (te_wakes env) of
                       (pool, Some stream) \<Rightarrow> (st\<lparr>ss_reverse_pool := pool\<rparr>, Inr (''reverse'', stream))
                     | (pool, None) \<Rightarrow>
                         (st\<lparr>ss_reverse_pool := pool\<rparr>,
                          Inl (''node '' @ ni_id node @ '' not reachable: no address and no reverse connections'')))
               else (case te_connect env (connect_addr node) of
                       Inl e \<Rightarrow> (st, Inl e)
                     | Inr stream \<Rightarrow> (st, Inr (''cold'', stream)))))"

text \<open>\<open>exchange\<close> is the request and response on an acquired connection.\<close>

definition establish_tunnel ::
  "tunnel_env \<Rightarrow> (conn \<Rightarrow> string + unit) \<Rightarrow> NodeInfo \<Rightarrow> SharedState \<Rightarrow> MuxPool \<Rightarrow>
     SharedState \<times> MuxPool \<times> (string + Tunnel)" where
  "establish_tunnel env exchange node st sessions =
     (let (sessions1, opened) =
            (if connect_addr node \<noteq> [] then mux_open_stream (te_opens env) sessions (connect_addr node)
             else (sessions, None)) in
      case opened of
        Some stream \<Rightarrow>
          (st, sessions1, case exchange stream of Inl e \<Rightarrow> Inl e | Inr _ \<Rightarrow> Inr (MuxStream stream))
      | None \<Rightarrow>
          (case acquire_stream env node st of
             (st', Inl e) \<Rightarrow> (st', sessions1, Inl e)
           | (st', Inr (_, stream)) \<Rightarrow>
               (st', sessions1, case exchange stream of Inl e \<Rightarrow> Inl e | Inr _ \<Rightarrow> Inr (MeshConn stream))))"

section \<open>The candidates are the known hosts\<close>

lemma backend_of_id: "backend_of st ((n, m), svc) = Some b \<Longrightarrow> nodes_ok self (ss_known_nodes st) \<Longrightarrow> bk_id b = n"
  by (auto simp: backend_of_def dest: nodes_ok_get)

lemma service_instances_mem:
  "coherent st \<Longrightarrow> ((n, m), svc) \<in> set (service_instances st name) \<longleftrightarrow>
     m = name \<and> hm_get (ss_service_index st) (n, name) = Some svc"
  using hm_wf_service_index [of "ss_dynamic_config st"]
  by (auto simp: service_instances_def coherent_def hm_wf_get_iff)

lemma map_filter_ids:
  assumes "nodes_ok self (ss_known_nodes st)" "hm_wf xs" "\<forall>((n, m), svc) \<in> set xs. m = name"
  shows "distinct (map bk_id (List.map_filter (backend_of st) xs)) \<and>
    bk_id ` set (List.map_filter (backend_of st) xs) \<subseteq> (\<lambda>((n, m), svc). n) ` set xs"
  using assms(2,3)
proof (induction xs)
  case (Cons x xs)
  obtain n m svc where x: "x = ((n, m), svc)" by (metis surj_pair)
  have wf: "hm_wf xs" using Cons.prems(1) by (simp add: hm_wf_def)
  have fresh: "n \<notin> (\<lambda>((n, m), svc). n) ` set xs"
  proof
    assume "n \<in> (\<lambda>((n, m), svc). n) ` set xs"
    then obtain m' s' where "((n, m'), s') \<in> set xs" by auto
    then have "(n, m) \<in> fst ` set xs" using Cons.prems(2) x by force
    then show False using Cons.prems(1) x by (auto simp: hm_wf_def)
  qed
  have IH: "distinct (map bk_id (List.map_filter (backend_of st) xs))"
    "bk_id ` set (List.map_filter (backend_of st) xs) \<subseteq> (\<lambda>((n, m), svc). n) ` set xs"
    using Cons.IH [OF wf] Cons.prems(2) by auto
  show ?case
  proof (cases "backend_of st x")
    case None
    then show ?thesis using IH by (auto simp: map_filter_simps)
  next
    case (Some b)
    then have "bk_id b = n" using backend_of_id assms(1) x by blast
    then show ?thesis using IH Some fresh x by (auto simp: map_filter_simps)
  qed
qed (simp add: map_filter_simps)

lemma mem_service_backends:
  "b \<in> set (service_backends name st) \<longleftrightarrow> (\<exists>x \<in> set (service_instances st name). backend_of st x = Some b)"
  by (simp add: service_backends_def set_map_filter)

lemma distinct_service_backends: "coherent st \<Longrightarrow> distinct (map bk_id (service_backends name st))"
proof -
  assume c: "coherent st"
  have "hm_wf (service_instances st name)"
    using c hm_wf_service_index [of "ss_dynamic_config st"]
    by (simp add: service_instances_def coherent_def hm_wf_def distinct_map_filter_iff)
  moreover have "nodes_ok (own_id st) (ss_known_nodes st)" using c by (simp add: coherent_def)
  moreover have "\<forall>((n, m), svc) \<in> set (service_instances st name). m = name"
    by (auto simp: service_instances_def)
  ultimately have "distinct (map bk_id (List.map_filter (backend_of st) (service_instances st name)))"
    using map_filter_ids by blast
  moreover have "mset (map bk_id (service_backends name st)) =
      mset (map bk_id (List.map_filter (backend_of st) (service_instances st name)))"
    by (simp add: service_backends_def)
  ultimately show ?thesis by (metis mset_eq_imp_distinct_iff)
qed

text \<open>
  The candidates for a service are exactly the known nodes that the configuration lists for it,
  each once, in the order of their ids, with the weight, limit and labels of that instance. Health
  filtering keeps some candidate whenever there is one, and prefers nodes seen within 30 s, and among
  those the ones that report the service healthy.
\<close>

theorem candidates_spec:
  assumes "coherent st"
  shows "sorted_wrt (<) (map bk_id (service_backends name st)) \<and>
    bk_id ` set (service_backends name st) =
      {n. hm_get (ss_known_nodes st) n \<noteq> None \<and> hm_get (ss_service_index st) (n, name) \<noteq> None} \<and>
    set (prefer_healthy (service_backends name st) name st now) =
      (let live = {b \<in> set (service_backends name st). node_live now b};
           base = (if live = {} then set (service_backends name st) else live);
           healthy = {b \<in> base. \<not> service_unhealthy st (bk_id b) name}
       in if healthy = {} then base else healthy)"
proof (intro conjI)
  have "sorted (map bk_id (service_backends name st))" by (simp add: service_backends_def)
  then show "sorted_wrt (<) (map bk_id (service_backends name st))"
    using distinct_service_backends [OF assms] by (simp add: strict_sorted_iff)
  have nk: "nodes_ok (own_id st) (ss_known_nodes st)" using assms by (simp add: coherent_def)
  show "bk_id ` set (service_backends name st) =
      {n. hm_get (ss_known_nodes st) n \<noteq> None \<and> hm_get (ss_service_index st) (n, name) \<noteq> None}"
  proof (intro equalityI subsetI)
    fix n assume "n \<in> bk_id ` set (service_backends name st)"
    then obtain b x where b: "n = bk_id b" "x \<in> set (service_instances st name)" "backend_of st x = Some b"
      by (auto simp: mem_service_backends)
    obtain n' m svc where x: "x = ((n', m), svc)" by (metis surj_pair)
    then have "n' = n" using b backend_of_id nk by blast
    with b x show "n \<in> {n. hm_get (ss_known_nodes st) n \<noteq> None \<and> hm_get (ss_service_index st) (n, name) \<noteq> None}"
      using service_instances_mem [OF assms] by (auto simp: backend_of_def)
  next
    fix n assume "n \<in> {n. hm_get (ss_known_nodes st) n \<noteq> None \<and> hm_get (ss_service_index st) (n, name) \<noteq> None}"
    then obtain node svc where "hm_get (ss_known_nodes st) n = Some node" "((n, name), svc) \<in> set (service_instances st name)"
      using service_instances_mem [OF assms, of n name _ name] by auto
    moreover from this obtain b where "backend_of st ((n, name), svc) = Some b" by (simp add: backend_of_def)
    ultimately show "n \<in> bk_id ` set (service_backends name st)"
      using backend_of_id [OF _ nk] by (force simp: mem_service_backends)
  qed
  have p: "set (prefer_keep keep xs) = (if {x \<in> set xs. keep x} = {} then set xs else {x \<in> set xs. keep x})"
    for keep and xs :: "Backend list" by (auto simp: prefer_keep_def)
  show "set (prefer_healthy (service_backends name st) name st now) =
      (let live = {b \<in> set (service_backends name st). node_live now b};
           base = (if live = {} then set (service_backends name st) else live);
           healthy = {b \<in> base. \<not> service_unhealthy st (bk_id b) name}
       in if healthy = {} then base else healthy)"
    unfolding prefer_healthy_def Let_def p by simp
qed

section \<open>Attempts\<close>

definition attempt_failed :: "serve_env \<Rightarrow> nat \<Rightarrow> string \<Rightarrow> bool" where
  "attempt_failed env k node_id \<longleftrightarrow> (\<exists>node e. ni_id node = node_id \<and> se_establish env k node = Inl e)"

definition attempts_ok :: "serve_env \<Rightarrow> Backend list \<Rightarrow> nat \<Rightarrow> string list \<Rightarrow> bool" where
  "attempts_ok env bs m tried \<longleftrightarrow> distinct tried \<and> set tried \<subseteq> bk_id ` set bs \<and> length tried \<le> m \<and>
     (\<forall>k < length tried. attempt_failed env k (tried ! k))"

lemma attempts_ok_snoc:
  assumes "attempts_ok env bs m tried" "length tried < m" "i < length bs" "bk_id (bs ! i) \<notin> set tried"
    "se_establish env (length tried) (bk_node (bs ! i)) = Inl e"
  shows "attempts_ok env bs m (tried @ [bk_id (bs ! i)])"
  using assms by (auto simp: attempts_ok_def nth_append less_Suc_eq attempt_failed_def)

lemma serve_loop_attempts:
  "attempts_ok env bs m tried \<Longrightarrow> serve_loop env bs m inner tried last_err = (inner', tried', r) \<Longrightarrow>
   (case r of
      Served i c \<Rightarrow> \<exists>before. tried' = before @ [bk_id (bs ! i)] \<and> attempts_ok env bs m before \<and>
        length before < m \<and> i < length bs \<and> bk_id (bs ! i) \<notin> set before \<and>
        se_establish env (length before) (bk_node (bs ! i)) = Inr c
    | _ \<Rightarrow> attempts_ok env bs m tried')"
proof (induction env bs m inner tried last_err rule: serve_loop.induct)
  case (1 env bs m inner tried last_err)
  show ?case
  proof (cases "length tried < m")
    case False
    with "1.prems" show ?thesis by (subst (asm) serve_loop.simps) auto
  next
    case True
    obtain inner1 p where p: "pick inner bs tried (se_now env (length tried)) = (inner1, p)" by fastforce
    show ?thesis
    proof (cases p)
      case (Chosen i slot)
      note c = pick_Chosen [OF p [unfolded Chosen]]
      have i: "i < length bs" "bk_id (bs ! i) \<notin> set tried" using c(2,3) by (auto simp: usable_def)
      show ?thesis
      proof (cases "se_establish env (length tried) (bk_node (bs ! i))")
        case (Inr tunnel)
        with True p Chosen "1.prems" i show ?thesis
          by (subst (asm) serve_loop.simps) (auto simp: Let_def)
      next
        case (Inl e)
        have "serve_loop env bs m (drop_slot (fst (record_failure inner1 (bk_id (bs ! i)) (se_failed_at env (length tried)))) slot)
            (tried @ [bk_id (bs ! i)]) (Some e) = (inner', tried', r)"
          using True p Chosen "1.prems"(2) Inl by (subst (asm) serve_loop.simps) (simp add: Let_def)
        then show ?thesis
          using "1.IH" [OF True p [symmetric] Chosen refl refl Inl] attempts_ok_snoc [OF "1.prems"(1) True i Inl]
          by simp
      qed
    next
      case AllTried
      with True p "1.prems" show ?thesis by (subst (asm) serve_loop.simps) auto
    next
      case AtCapacity
      with True p "1.prems" show ?thesis by (subst (asm) serve_loop.simps) auto
    qed
  qed
qed

lemma prefer_healthy_subset: "set (prefer_healthy bs name st now) \<subseteq> set bs"
  unfolding prefer_healthy_def Let_def using prefer_subset by (meson order.trans)

text \<open>
  C24. A client connection is offered to at most three nodes, all different and all hosting the
  service. When it is served, the last node offered is the one that accepted, and every earlier one
  had failed; when it is not, every node offered had failed.
\<close>

theorem serve_client_attempts:
  "case serve_client env name st now balancer of (inner', tried, r) \<Rightarrow>
     length tried \<le> 3 \<and> distinct tried \<and> set tried \<subseteq> bk_id ` set (service_backends name st) \<and>
     (case r of
        Served i c \<Rightarrow> tried \<noteq> [] \<and> list_all2 (attempt_failed env) [0..<length tried - 1] (butlast tried) \<and>
          (\<exists>node. ni_id node = last tried \<and> se_establish env (length tried - 1) node = Inr c)
      | _ \<Rightarrow> list_all2 (attempt_failed env) [0..<length tried] tried)"
proof -
  let ?bs = "prefer_healthy (service_backends name st) name st now"
  let ?m = "min (length ?bs) MAX_TUNNEL_ATTEMPTS"
  obtain inner' tried r where s: "serve_client env name st now balancer = (inner', tried, r)" by (metis surj_pair)
  show ?thesis
  proof (cases "?bs = []")
    case True
    with s show ?thesis by (auto simp: serve_client_def Let_def)
  next
    case False
    have m: "?m \<le> 3" by (simp add: MAX_TUNNEL_ATTEMPTS_def)
    have sub: "bk_id ` set ?bs \<subseteq> bk_id ` set (service_backends name st)"
      using prefer_healthy_subset by (intro image_mono)
    have "serve_loop env ?bs ?m (retain_nodes balancer (service_backends name st)) [] None = (inner', tried, r)"
      using s False by (simp add: serve_client_def Let_def)
    from serve_loop_attempts [OF _ this]
    have a: "case r of
      Served i c \<Rightarrow> \<exists>before. tried = before @ [bk_id (?bs ! i)] \<and> attempts_ok env ?bs ?m before \<and>
        length before < ?m \<and> i < length ?bs \<and> bk_id (?bs ! i) \<notin> set before \<and>
        se_establish env (length before) (bk_node (?bs ! i)) = Inr c
    | _ \<Rightarrow> attempts_ok env ?bs ?m tried" by (simp add: attempts_ok_def)
    show ?thesis
    proof (cases r)
      case (Served i c)
      with a obtain pre where pre: "tried = pre @ [bk_id (?bs ! i)]" "attempts_ok env ?bs ?m pre" "length pre < ?m"
        "i < length ?bs" "bk_id (?bs ! i) \<notin> set pre" "se_establish env (length pre) (bk_node (?bs ! i)) = Inr c"
        by auto
      then have "bk_id (?bs ! i) \<in> bk_id ` set (service_backends name st)" using sub by force
      with pre Served s sub m show ?thesis
        by (auto simp: attempts_ok_def list_all2_conv_all_nth)
    qed (use a s sub m in \<open>auto simp: attempts_ok_def list_all2_conv_all_nth\<close>)
  qed
qed

section \<open>Slots are given back\<close>

lemma active_drop_slot:
  assumes "active_count inner node_id \<noteq> 0"
  shows "active_count (drop_slot inner node_id) k =
    (if k = node_id then active_count inner node_id - 1 else active_count inner k)"
proof -
  obtain n where n: "in_active inner node_id = Some n" "n \<noteq> 0"
    using assms by (auto simp: active_count_def split: option.splits)
  have "saturating_sub n 1 = n - 1" using n(2) by (simp add: saturating_sub_def word_le_nat_alt Suc_le_eq unat_gt_0)
  with n show ?thesis by (auto simp: drop_slot_def Let_def active_count_def)
qed

lemma active_count_cong: "in_active a = in_active b \<Longrightarrow> active_count a = active_count b"
  by (simp add: active_count_def fun_eq_iff)

lemma failed_attempt_slots:
  assumes "pick inner bs tried now = (inner1, Chosen i slot)" "active_count inner slot \<noteq> - 1"
  shows "active_count (drop_slot (fst (record_failure inner1 n t)) slot) = active_count inner"
proof
  fix k
  let ?in2 = "fst (record_failure inner1 n t)"
  have a: "in_active ?in2 = (in_active inner)(slot \<mapsto> active_count inner slot + 1)"
    using pick_Chosen(5) [OF assms(1)] by simp
  then have c: "active_count ?in2 slot = active_count inner slot + 1" by (simp add: active_count_def)
  have "active_count inner slot + 1 \<noteq> 0" using assms(2) by (metis add_eq_0_iff2)
  then show "active_count (drop_slot ?in2 slot) k = active_count inner k"
    using active_drop_slot [of ?in2 slot k] a c by (auto simp: active_count_def)
qed

lemma serve_loop_slots:
  "\<forall>b \<in> set bs. active_count inner (bk_id b) \<noteq> - 1 \<Longrightarrow>
   serve_loop env bs m inner tried last_err = (inner', tried', r) \<Longrightarrow>
   active_count inner' =
     (case r of Served i c \<Rightarrow> (active_count inner)(bk_id (bs ! i) := active_count inner (bk_id (bs ! i)) + 1)
      | _ \<Rightarrow> active_count inner)"
proof (induction env bs m inner tried last_err rule: serve_loop.induct)
  case (1 env bs m inner tried last_err)
  show ?case
  proof (cases "length tried < m")
    case False
    with "1.prems" show ?thesis by (subst (asm) serve_loop.simps) auto
  next
    case True
    obtain inner1 p where p: "pick inner bs tried (se_now env (length tried)) = (inner1, p)" by fastforce
    show ?thesis
    proof (cases p)
      case (Chosen i slot)
      note c = pick_Chosen [OF p [unfolded Chosen]]
      show ?thesis
      proof (cases "se_establish env (length tried) (bk_node (bs ! i))")
        case (Inr tunnel)
        have r: "r = Served i tunnel" "inner' = record_success inner1 (bk_id (bs ! i))"
          using True p Chosen "1.prems"(2) Inr by (subst (asm) serve_loop.simps, simp add: Let_def)+
        then show ?thesis using c(4,5) by (auto simp: active_count_def fun_eq_iff)
      next
        case (Inl e)
        let ?in2 = "drop_slot (fst (record_failure inner1 (bk_id (bs ! i)) (se_failed_at env (length tried)))) slot"
        have n: "active_count inner slot \<noteq> - 1" using "1.prems"(1) c(2,4) by auto
        have same: "active_count ?in2 = active_count inner"
          by (rule failed_attempt_slots [OF p [unfolded Chosen] n])
        have "serve_loop env bs m ?in2 (tried @ [bk_id (bs ! i)]) (Some e) = (inner', tried', r)"
          using True p Chosen "1.prems"(2) Inl by (subst (asm) serve_loop.simps) (simp add: Let_def)
        moreover have "\<forall>b \<in> set bs. active_count ?in2 (bk_id b) \<noteq> - 1" unfolding same by (rule "1.prems"(1))
        ultimately show ?thesis
          using "1.IH" [OF True p [symmetric] Chosen refl refl Inl] unfolding same by blast
      qed
    next
      case AllTried
      then have "inner1 = inner" using p by (auto simp: pick_eq Let_def split: if_splits)
      with AllTried True p "1.prems" show ?thesis by (subst (asm) serve_loop.simps) auto
    next
      case AtCapacity
      then have "inner1 = inner" using p by (auto simp: pick_eq Let_def split: if_splits)
      with AtCapacity True p "1.prems" show ?thesis by (subst (asm) serve_loop.simps) auto
    qed
  qed
qed

text \<open>
  C25. No connection slot leaks: a client that is not served leaves every backend's connection count
  as it was, and one that is served adds exactly one connection, on its backend.
\<close>

theorem serve_client_slots:
  assumes "list_all (\<lambda>b. active_count balancer (bk_id b) \<noteq> - 1) (service_backends name st)"
  shows "case serve_client env name st now balancer of
     (inner', tried, Served i c) \<Rightarrow> active_count inner' =
       (active_count balancer)(last tried := active_count balancer (last tried) + 1)
   | (inner', tried, r) \<Rightarrow> active_count inner' = active_count balancer"
proof -
  let ?bs = "prefer_healthy (service_backends name st) name st now"
  let ?in0 = "retain_nodes balancer (service_backends name st)"
  have a0: "active_count ?in0 = active_count balancer" by (rule active_count_cong) simp
  obtain inner' tried r where s: "serve_client env name st now balancer = (inner', tried, r)" by (metis surj_pair)
  show ?thesis
  proof (cases "?bs = []")
    case True
    with s a0 show ?thesis by (auto simp: serve_client_def Let_def)
  next
    case False
    have l: "serve_loop env ?bs (min (length ?bs) MAX_TUNNEL_ATTEMPTS) ?in0 [] None = (inner', tried, r)"
      using s False by (simp add: serve_client_def Let_def)
    have "\<forall>b \<in> set ?bs. active_count ?in0 (bk_id b) \<noteq> - 1"
      using assms prefer_healthy_subset [of "service_backends name st" name st now] a0
      by (auto simp: list_all_iff)
    note c = serve_loop_slots [OF this l]
    have "attempts_ok env ?bs (min (length ?bs) MAX_TUNNEL_ATTEMPTS) []" by (simp add: attempts_ok_def)
    note t = serve_loop_attempts [OF this l]
    show ?thesis using s c t a0 by (cases r) auto
  qed
qed

section \<open>A concrete subscriber\<close>

definition joined_state :: SharedState where
  "joined_state = apply_message sample_json 0 sample_state (NodeJoin ''n2'' ''10.0.0.2:80'')"

lemma coherent_joined: "coherent joined_state"
  unfolding joined_state_def by (rule coherent_apply [OF coherent_sample_state])

theorem candidates_spec_witness:
  "coherent joined_state \<and> ''n2'' \<in> bk_id ` set (service_backends ''api'' joined_state)"
proof -
  have k: "hm_get (ss_known_nodes joined_state) ''n2'' \<noteq> None"
    by (simp add: joined_state_def apply_message_def is_valid_node_id_def update_known_nodes_def join_node_def persist_state_def)
  have "ss_service_index joined_state = build_service_index sample_dc"
    using coherent_joined by (simp add: coherent_def joined_state_def apply_message_config)
  then have "hm_get (ss_service_index joined_state) (''n2'', ''api'') \<noteq> None"
    by (simp add: service_index_find all_services_def sample_dc_def same_instance_def sample_service_def)
  with k candidates_spec [OF coherent_joined, of "''api''" 0] coherent_joined show ?thesis by simp
qed

theorem serve_client_slots_witness:
  "list_all (\<lambda>b. active_count new_inner (bk_id b) \<noteq> - 1) (service_backends ''api'' joined_state) \<and>
   (case serve_client \<lparr>se_now = (\<lambda>_. 5), se_failed_at = (\<lambda>_. 6), se_establish = (\<lambda>_ _. Inl ''refused'')\<rparr> ''api'' joined_state 0 new_inner of
      (inner', tried, Served i c) \<Rightarrow> active_count inner' =
        (active_count new_inner)(last tried := active_count new_inner (last tried) + 1)
    | (inner', tried, r) \<Rightarrow> active_count inner' = active_count new_inner)"
proof -
  have "active_count new_inner k = 0" for k by (simp add: active_count_def new_inner_def)
  then have l: "list_all (\<lambda>b. active_count new_inner (bk_id b) \<noteq> - 1) (service_backends ''api'' joined_state)"
    by (simp add: list_all_iff)
  show ?thesis by (rule conjI [OF l serve_client_slots [OF l]])
qed

end
