(* ===== verification/Http_Parts.thy ===== *)
theory Http_Parts
  imports Config_Validation Balancer
begin

text \<open>
  The pure parts of the HTTP proxy (\<^verbatim>\<open>src/subscribe/http.rs\<close>): header filtering, the W3C
  trace context, the encoding of node ids as host names, route selection, and the retry budget with
  its binary64 arithmetic. A header map is the list of its (lower-case name, value) lines. Random
  draws are arguments.
\<close>

section \<open>Headers\<close>

type_synonym header_map = "(string \<times> string) list"

text \<open>\<open>HeaderValue::to_str\<close>: visible ASCII, space and tab only.\<close>

definition header_to_str :: "string \<Rightarrow> string option" where
  "header_to_str v = (if \<forall>c \<in> set v. (32 \<le> code c \<and> code c < 127) \<or> code c = 9 then Some v else None)"

definition header_get :: "header_map \<Rightarrow> string \<Rightarrow> string option" where
  "header_get hs name = map_of hs name"

definition header_remove :: "header_map \<Rightarrow> string \<Rightarrow> header_map" where
  "header_remove hs name = filter (\<lambda>(n, _). n \<noteq> name) hs"

definition header_insert :: "header_map \<Rightarrow> string \<Rightarrow> string \<Rightarrow> header_map" where
  "header_insert hs name value = header_remove hs name @ [(name, value)]"

definition HOP_BY_HOP :: "string list" where
  "HOP_BY_HOP = [''connection'', ''keep-alive'', ''proxy-connection'', ''proxy-authenticate'',
     ''proxy-authorization'', ''te'', ''trailer'', ''transfer-encoding'', ''upgrade'']"

definition connection_tokens :: "header_map \<Rightarrow> string list" where
  "connection_tokens hs =
     filter (\<lambda>t. t \<noteq> [])
       (map (\<lambda>t. to_ascii_lowercase (trim t))
         (concat (map (split_on CHR '','')
           (List.map_filter (\<lambda>(n, v). if n = ''connection'' then header_to_str v else None) hs))))"

definition is_upgrade :: "header_map \<Rightarrow> bool" where
  "is_upgrade hs = (header_get hs ''upgrade'' \<noteq> None \<and> ''upgrade'' \<in> set (connection_tokens hs))"

definition strip_hop_by_hop :: "header_map \<Rightarrow> bool \<Rightarrow> header_map" where
  "strip_hop_by_hop hs keep_upgrade =
     (let named = connection_tokens hs;
          upgrade = header_get hs ''upgrade'';
          stripped = fold (\<lambda>name hs. header_remove hs name) (HOP_BY_HOP @ named) hs in
      if keep_upgrade
      then (case upgrade of
              Some value \<Rightarrow> header_insert (header_insert stripped ''upgrade'' value) ''connection'' ''upgrade''
            | None \<Rightarrow> stripped)
      else stripped)"

section \<open>Trace context\<close>

record TraceContext =
  trace_id :: string
  span_id :: string
  trace_flags :: string

definition is_hex :: "string \<Rightarrow> nat \<Rightarrow> bool" where
  "is_hex s len \<longleftrightarrow> length s = len \<and>
     (\<forall>c \<in> set s. (48 \<le> code c \<and> code c \<le> 57) \<or> (97 \<le> code c \<and> code c \<le> 102))"

definition any_nonzero :: "string \<Rightarrow> bool" where
  "any_nonzero s = (\<exists>c \<in> set s. c \<noteq> CHR ''0'')"

fun trace_of_parts :: "string list \<Rightarrow> TraceContext option" where
  "trace_of_parts (version # tid # sid # flags # extra) =
     (if version = ''00'' \<and> extra \<noteq> [] then None
      else if is_hex version 2 \<and> version \<noteq> ''ff'' \<and>
              is_hex tid 32 \<and> any_nonzero tid \<and>
              is_hex sid 16 \<and> any_nonzero sid \<and> is_hex flags 2
      then Some \<lparr>trace_id = tid, span_id = sid, trace_flags = flags\<rparr>
      else None)"
| "trace_of_parts _ = None"

definition trace_from_headers :: "header_map \<Rightarrow> TraceContext option" where
  "trace_from_headers hs =
     Option.bind (Option.bind (header_get hs ''traceparent'') header_to_str)
       (\<lambda>raw. trace_of_parts (split_on CHR ''-'' (trim raw)))"

definition trace_is_sampled :: "TraceContext \<Rightarrow> bool" where
  "trace_is_sampled t = (case from_str_radix 16 255 (trace_flags t) of Some f \<Rightarrow> odd f | None \<Rightarrow> False)"

definition trace_to_header :: "TraceContext \<Rightarrow> string" where
  "trace_to_header t = ''00-'' @ trace_id t @ ''-'' @ span_id t @ ''-'' @ trace_flags t"

text \<open>Random ids: the first of the draws that is not all zeros (None: none of them is).\<close>

definition hex_string :: "nat list \<Rightarrow> string" where
  "hex_string raw = concat (map hex_byte raw)"

fun random_hex :: "nat list list \<Rightarrow> string option" where
  "random_hex [] = None"
| "random_hex (raw # draws) = (if \<exists>b \<in> set raw. b \<noteq> 0 then Some (hex_string raw) else random_hex draws)"

definition trace_new_root :: "string \<Rightarrow> string \<Rightarrow> bool \<Rightarrow> TraceContext" where
  "trace_new_root tid sid sampled =
     \<lparr>trace_id = tid, span_id = sid, trace_flags = (if sampled then ''01'' else ''00'')\<rparr>"

definition trace_child :: "TraceContext \<Rightarrow> string \<Rightarrow> TraceContext" where
  "trace_child t sid = t\<lparr>span_id := sid\<rparr>"

section \<open>Node ids as host names\<close>

definition NODE_HOST_SUFFIX :: string where
  "NODE_HOST_SUFFIX = ''stouter''"

fun chunks :: "nat \<Rightarrow> 'a list \<Rightarrow> 'a list list" where
  "chunks n xs = (if xs = [] \<or> n = 0 then [] else take n xs # chunks n (drop n xs))"

declare chunks.simps [simp del]

definition node_host :: "string \<Rightarrow> string" where
  "node_host node_id = join ''.'' (chunks 62 (hex_string (map code node_id))) @ ''.'' @ NODE_HOST_SUFFIX"

definition node_uri :: "string \<Rightarrow> string \<Rightarrow> string" where
  "node_uri node_id path_and_query = ''http://'' @ node_host node_id @ path_and_query"

text \<open>UTF-8 validity of a byte sequence (RFC 3629), as \<open>String::from_utf8\<close> checks it.\<close>

definition cont_byte :: "nat \<Rightarrow> bool" where
  "cont_byte b \<longleftrightarrow> 0x80 \<le> b \<and> b \<le> 0xBF"

fun utf8_ok :: "nat list \<Rightarrow> bool" where
  "utf8_ok [] = True"
| "utf8_ok (a # bs) =
     (if a < 0x80 then utf8_ok bs
      else case bs of
        b # cs \<Rightarrow>
          if 0xC2 \<le> a \<and> a \<le> 0xDF then cont_byte b \<and> utf8_ok cs
          else (case cs of
            c # ds \<Rightarrow>
              if 0xE0 \<le> a \<and> a \<le> 0xEF
              then cont_byte b \<and> cont_byte c \<and> (a = 0xE0 \<longrightarrow> 0xA0 \<le> b) \<and> (a = 0xED \<longrightarrow> b \<le> 0x9F) \<and> utf8_ok ds
              else (case ds of
                d # es \<Rightarrow> 0xF0 \<le> a \<and> a \<le> 0xF4 \<and> cont_byte b \<and> cont_byte c \<and> cont_byte d \<and>
                  (a = 0xF0 \<longrightarrow> 0x90 \<le> b) \<and> (a = 0xF4 \<longrightarrow> b \<le> 0x8F) \<and> utf8_ok es
              | [] \<Rightarrow> False)
          | [] \<Rightarrow> False)
      | [] \<Rightarrow> False)"

fun decode_pairs :: "string \<Rightarrow> nat list option" where
  "decode_pairs [] = Some []"
| "decode_pairs [_] = None"
| "decode_pairs (a # b # cs) =
     (case from_str_radix 16 255 [a, b] of
        None \<Rightarrow> None
      | Some n \<Rightarrow> map_option ((#) n) (decode_pairs cs))"

definition node_id_from_host :: "string \<Rightarrow> string option" where
  "node_id_from_host host =
     Option.bind (Option.bind (strip_suffix NODE_HOST_SUFFIX host) (strip_suffix ''.'')) (\<lambda>h.
       let hex = concat (split_on CHR ''.'' h) in
       if odd (length hex) then None
       else Option.bind (decode_pairs hex) (\<lambda>bytes.
         if utf8_ok bytes then Some (map char_of bytes) else None))"

section \<open>Routes\<close>

record RoutedTo =
  rto_label :: string
  rto_labels :: string_map

fun pick_subset :: "RouteBackend list \<Rightarrow> nat \<Rightarrow> nat option" where
  "pick_subset [] ticket = None"
| "pick_subset (b # bs) ticket =
     (if ticket < unat (rb_weight b) then Some 0 else map_option Suc (pick_subset bs (ticket - unat (rb_weight b))))"

definition total_weight :: "RouteBackend list \<Rightarrow> nat" where
  "total_weight bs = (\<Sum>b \<leftarrow> bs. unat (rb_weight b))"

fun find_route :: "(Route \<Rightarrow> bool) \<Rightarrow> nat \<Rightarrow> Route list \<Rightarrow> (nat \<times> Route) option" where
  "find_route p i [] = None"
| "find_route p i (r # rs) = (if p r then Some (i, r) else find_route p (Suc i) rs)"

text \<open>
  \<open>draw n\<close> is the random number below \<open>n\<close>. A route without backends makes the program panic;
  validation rules it out.
\<close>

definition select_route ::
  "(nat \<Rightarrow> nat) \<Rightarrow> Route list \<Rightarrow> string \<Rightarrow> string \<Rightarrow> header_map \<Rightarrow> RoutedTo option" where
  "select_route draw routes meth path hs =
     map_option (\<lambda>(index, route).
         let total = total_weight (rt_backends route);
             ticket = (if total = 0 then 0 else draw total);
             backend = (case pick_subset (rt_backends route) ticket of
                          Some j \<Rightarrow> rt_backends route ! j | None \<Rightarrow> rt_backends route ! 0)
         in \<lparr>rto_label = route_label route index, rto_labels = rb_labels backend\<rparr>)
       (find_route (\<lambda>r. route_matches (rt_matches r) meth path
          (\<lambda>name. Option.bind (header_get hs name) header_to_str)) 0 routes)"

section \<open>Methods and statuses\<close>

definition is_retryable_status :: "nat \<Rightarrow> bool" where
  "is_retryable_status status \<longleftrightarrow> status \<in> {502, 503, 504}"

definition is_idempotent :: "string \<Rightarrow> bool" where
  "is_idempotent meth \<longleftrightarrow> meth \<in> {''GET'', ''HEAD'', ''OPTIONS'', ''PUT'', ''DELETE'', ''TRACE''}"

definition method_label :: "string \<Rightarrow> string" where
  "method_label meth =
     (if meth \<in> {''GET'', ''POST'', ''PUT'', ''DELETE'', ''PATCH'', ''HEAD'', ''OPTIONS''} then meth else ''OTHER'')"

section \<open>The retry budget\<close>

text \<open>
  Rounding to binary64, half to even, for rationals in \<open>[0, 2^53)\<close>: scaled by the least power of
  two that makes the value at least \<open>2^52\<close> (at most \<open>2^1074\<close>), rounded, and scaled back.
\<close>

definition round_half_even :: "rat \<Rightarrow> int" where
  "round_half_even q =
     (let n = \<lfloor>q\<rfloor>; f = q - of_int n in
      if f < 1 / 2 then n else if f > 1 / 2 then n + 1 else if even n then n else n + 1)"

definition f64_scale :: "rat \<Rightarrow> nat" where
  "f64_scale q = (case find (\<lambda>k. 2 ^ 52 \<le> q * 2 ^ k) [0..<1074] of Some k \<Rightarrow> k | None \<Rightarrow> 1074)"

definition f64_round :: "rat \<Rightarrow> rat" where
  "f64_round q = of_int (round_half_even (q * 2 ^ f64_scale q)) / 2 ^ f64_scale q"

definition RETRY_BUDGET_RATIO :: rat where
  "RETRY_BUDGET_RATIO = f64_round (1 / 5)"

definition RETRY_BUDGET_MAX :: rat where
  "RETRY_BUDGET_MAX = 20"

definition budget_new :: rat where
  "budget_new = RETRY_BUDGET_MAX"

definition budget_deposit :: "rat \<Rightarrow> rat" where
  "budget_deposit t = min (f64_round (t + RETRY_BUDGET_RATIO)) RETRY_BUDGET_MAX"

definition budget_try_withdraw :: "rat \<Rightarrow> rat \<times> bool" where
  "budget_try_withdraw t = (if t \<ge> 1 then (f64_round (t - 1), True) else (t, False))"

section \<open>Only end-to-end headers are forwarded\<close>

lemma fold_header_remove: "fold (\<lambda>name hs. header_remove hs name) names hs = filter (\<lambda>(n, _). n \<notin> set names) hs"
proof (induction names arbitrary: hs)
  case (Cons a names)
  then show ?case by (simp add: header_remove_def) (rule filter_cong, auto)
qed (simp add: case_prod_beta)

definition hop_header :: "header_map \<Rightarrow> string \<Rightarrow> bool" where
  "hop_header hs name \<longleftrightarrow> name \<in> set HOP_BY_HOP \<or> name \<in> set (connection_tokens hs)"

lemma strip_eq:
  "strip_hop_by_hop hs keep_upgrade = filter (\<lambda>(n, _). \<not> hop_header hs n) hs @
     (if keep_upgrade
      then (case header_get hs ''upgrade'' of Some v \<Rightarrow> [(''upgrade'', v), (''connection'', ''upgrade'')] | None \<Rightarrow> [])
      else [])"
proof -
  have f: "fold (\<lambda>name hs. header_remove hs name) (HOP_BY_HOP @ connection_tokens hs) hs =
      filter (\<lambda>(n, _). \<not> hop_header hs n) hs" (is "?l = ?r")
    unfolding fold_header_remove hop_header_def by (rule filter_cong) auto
  have "hop_header hs ''upgrade''" "hop_header hs ''connection''" by (simp_all add: hop_header_def HOP_BY_HOP_def)
  then have "header_remove ?r ''upgrade'' = ?r"
    "header_remove (?r @ [(''upgrade'', v)]) ''connection'' = ?r @ [(''upgrade'', v)]" for v
    unfolding header_remove_def by - (rule filter_True, force)+
  then show ?thesis
    unfolding strip_hop_by_hop_def Let_def f by (auto simp: header_insert_def split: option.splits)
qed

lemma header_get_append [simp]:
  "header_get (xs @ ys) n = (case header_get xs n of Some v \<Rightarrow> Some v | None \<Rightarrow> header_get ys n)"
  by (induction xs) (auto simp: header_get_def)

lemma header_get_filter: "header_get (filter (\<lambda>(n, _). P n) hs) n = (if P n then header_get hs n else None)"
  by (induction hs) (auto simp: header_get_def)

lemma connection_tokens_append [simp]: "connection_tokens (xs @ ys) = connection_tokens xs @ connection_tokens ys"
  by (simp add: connection_tokens_def map_filter_def)

lemma connection_tokens_none: "(\<And>v. (''connection'', v) \<notin> set hs) \<Longrightarrow> connection_tokens hs = []"
proof (induction hs)
  case (Cons h hs)
  have "connection_tokens (h # hs) = connection_tokens [h] @ connection_tokens hs"
    using connection_tokens_append [of "[h]" hs] by simp
  with Cons show ?case by (cases h) (auto simp: connection_tokens_def map_filter_simps)
qed (simp add: connection_tokens_def map_filter_simps)

lemma connection_tokens_upgrade [simp]: "connection_tokens [(''upgrade'', v), (''connection'', ''upgrade'')] = [''upgrade'']"
  by (simp add: connection_tokens_def map_filter_simps header_to_str_def trim_def is_ascii_whitespace_def
      to_ascii_lowercase_def lower_char_def is_ascii_uppercase_def)

text \<open>
  Forwarding keeps exactly the end-to-end header lines, in order: a line goes if its name is one
  of the hop-by-hop names or is listed in a \<open>Connection\<close> header. A stripped message never asks for
  an upgrade, unless the upgrade is kept, and then it asks for the same protocol as before.
\<close>

theorem strip_hop_by_hop_spec:
  "filter (\<lambda>(n, _). n \<noteq> ''upgrade'' \<and> n \<noteq> ''connection'') (strip_hop_by_hop hs keep) =
     filter (\<lambda>(n, _). \<not> hop_header hs n) hs \<and>
   (is_upgrade (strip_hop_by_hop hs keep) \<longleftrightarrow> keep \<and> header_get hs ''upgrade'' \<noteq> None) \<and>
   header_get (strip_hop_by_hop hs keep) ''upgrade'' = (if keep then header_get hs ''upgrade'' else None)"
proof -
  let ?r = "filter (\<lambda>(n, _). \<not> hop_header hs n) hs"
  have hop: "hop_header hs ''upgrade''" "hop_header hs ''connection''" by (simp_all add: hop_header_def HOP_BY_HOP_def)
  have tok: "connection_tokens ?r = []" by (rule connection_tokens_none) (use hop in auto)
  have none: "header_get ?r ''upgrade'' = None" by (simp add: header_get_filter hop)
  have "filter (\<lambda>(n, _). n \<noteq> ''upgrade'' \<and> n \<noteq> ''connection'') ?r = ?r"
    by (rule filter_True) (use hop in auto)
  then show ?thesis
    using tok none connection_tokens_none [of "[]"]
    by (cases keep; cases "header_get hs ''upgrade''")
      (simp_all add: strip_eq is_upgrade_def, simp_all add: header_get_def)
qed

section \<open>Trace context on the wire\<close>

definition hex_char :: "char \<Rightarrow> bool" where
  "hex_char c \<longleftrightarrow> (48 \<le> code c \<and> code c \<le> 57) \<or> (97 \<le> code c \<and> code c \<le> 102)"

definition trace_valid :: "TraceContext \<Rightarrow> bool" where
  "trace_valid t \<longleftrightarrow> is_hex (trace_id t) 32 \<and> any_nonzero (trace_id t) \<and>
     is_hex (span_id t) 16 \<and> any_nonzero (span_id t) \<and> is_hex (trace_flags t) 2"

lemma is_hex_iff: "is_hex s n \<longleftrightarrow> length s = n \<and> list_all hex_char s"
  by (simp add: is_hex_def hex_char_def list_all_iff)

lemma hex_char_no: "hex_char c \<Longrightarrow> c \<noteq> CHR ''-'' \<and> c \<noteq> CHR ''.'' \<and> \<not> is_ascii_whitespace c"
  by (auto simp: hex_char_def is_ascii_whitespace_def)

lemma hex_free: "list_all hex_char s \<Longrightarrow> CHR ''-'' \<notin> set s \<and> CHR ''.'' \<notin> set s"
  by (auto simp: list_all_iff dest: hex_char_no)

lemma trim_id: "s \<noteq> [] \<Longrightarrow> \<not> is_ascii_whitespace (hd s) \<Longrightarrow> \<not> is_ascii_whitespace (last s) \<Longrightarrow> trim s = s"
  by (simp add: trim_def dropWhile_eq_self_iff [THEN iffD2] hd_rev)

lemma trace_of_parts_valid: "trace_of_parts ps = Some t \<Longrightarrow> trace_valid t"
proof (induction ps rule: trace_of_parts.induct)
  case (1 version tid sid flags extra)
  then have "t = \<lparr>trace_id = tid, span_id = sid, trace_flags = flags\<rparr>" "is_hex tid 32 \<and> any_nonzero tid \<and>
      is_hex sid 16 \<and> any_nonzero sid \<and> is_hex flags 2"
    unfolding trace_of_parts.simps by (metis option.distinct(1) option.inject)+
  then show ?case by (simp add: trace_valid_def)
qed simp_all

lemma trace_of_valid_parts: "trace_valid t \<Longrightarrow> trace_of_parts [''00'', trace_id t, span_id t, trace_flags t] = Some t"
  unfolding trace_of_parts.simps trace_valid_def is_hex_def [of "''00''"] by simp

lemma trace_parsed_valid: "trace_from_headers hs = Some t \<Longrightarrow> trace_valid t"
  unfolding trace_from_headers_def bind_eq_Some_conv by (metis trace_of_parts_valid)

lemma trace_header_parts:
  assumes "trace_valid t"
  shows "split_on CHR ''-'' (trace_to_header t) = [''00'', trace_id t, span_id t, trace_flags t]"
proof -
  have "trace_to_header t = join [CHR ''-''] [''00'', trace_id t, span_id t, trace_flags t]"
    by (simp add: trace_to_header_def)
  moreover have "\<forall>w \<in> set [''00'', trace_id t, span_id t, trace_flags t]. CHR ''-'' \<notin> set w"
    using assms hex_free by (auto simp: trace_valid_def is_hex_iff)
  ultimately show ?thesis by (metis list.distinct(1) split_on_join)
qed

lemma hex_char_visible: "hex_char c \<Longrightarrow> 32 \<le> code c \<and> code c < 127"
  by (auto simp: hex_char_def)

lemma trace_reads_back:
  assumes "trace_valid t" "header_get hs ''traceparent'' = Some (trace_to_header t)"
  shows "trace_from_headers hs = Some t"
proof -
  have hex: "list_all hex_char (trace_id t)" "list_all hex_char (span_id t)" "list_all hex_char (trace_flags t)"
    "length (trace_flags t) = 2"
    using assms(1) by (auto simp: trace_valid_def is_hex_iff)
  then have "trace_flags t \<noteq> []" by auto
  then have "hex_char (last (trace_flags t))" using hex(3) last_in_set by (simp add: list_all_iff)
  then have "\<not> is_ascii_whitespace (last (trace_to_header t))"
    using hex(4) hex_char_no by (auto simp: trace_to_header_def)
  then have "trim (trace_to_header t) = trace_to_header t"
    by (intro trim_id) (auto simp: trace_to_header_def is_ascii_whitespace_def)
  moreover have "header_to_str (trace_to_header t) = Some (trace_to_header t)"
    using hex hex_char_visible by (auto simp: header_to_str_def trace_to_header_def list_all_iff)
  moreover have "is_hex ''00'' 2" by (simp add: is_hex_def)
  ultimately show ?thesis
    using assms trace_header_parts [OF assms(1)] by (simp add: trace_from_headers_def trace_of_valid_parts del: trace_of_parts.simps)
qed

lemma header_get_insert [simp]: "header_get (header_insert hs n v) n = Some v"
proof -
  have "header_get (header_remove hs n) n = None"
    using header_get_filter [of "\<lambda>m. m \<noteq> n" hs n] by (simp add: header_remove_def)
  then show ?thesis by (simp add: header_insert_def header_get_def [of "[_]"])
qed

lemma hex_char_digit: "d < 16 \<Longrightarrow> hex_char (digit_char d)"
  by (auto simp: hex_char_def digit_char_code)

lemma hex_string_hex: "\<forall>b \<in> set raw. b < 256 \<Longrightarrow> list_all hex_char (hex_string raw)"
  by (auto simp: hex_string_def list_all_iff hex_byte_def intro!: hex_char_digit)

lemma length_hex_string: "length (hex_string raw) = 2 * length raw"
  by (induction raw) (auto simp: hex_string_def hex_byte_def)

lemma char_of_48: "char_of (48 :: nat) = CHR ''0''"
  by (rule of_char_eqI [where ?'a = nat]) simp

lemma digit_zero: "d < 16 \<Longrightarrow> digit_char d = CHR ''0'' \<longleftrightarrow> d = 0"
proof
  assume "d < 16" "digit_char d = CHR ''0''"
  then show "d = 0" using digit_char_code [of d] by (auto split: if_splits)
qed (simp add: digit_char_def char_of_48)

lemma hex_string_nonzero:
  assumes "\<forall>b \<in> set raw. b < 256" "\<exists>b \<in> set raw. b \<noteq> 0"
  shows "any_nonzero (hex_string raw)"
proof -
  obtain b where b: "b \<in> set raw" "b \<noteq> 0" "b < 256" using assms by blast
  then have "digit_char (b div 16) \<noteq> CHR ''0'' \<or> digit_char (b mod 16) \<noteq> CHR ''0''"
    by (auto simp: digit_zero less_mult_imp_div_less)
  then show ?thesis using b(1) by (auto simp: any_nonzero_def hex_string_def hex_byte_def intro!: bexI [of _ b])
qed

text \<open>Every draw has the requested number of bytes.\<close>

definition draws_of :: "nat \<Rightarrow> nat list list \<Rightarrow> bool" where
  "draws_of n draws \<longleftrightarrow> list_all (\<lambda>raw. length raw = n \<and> list_all (\<lambda>b. b < 256) raw) draws"

lemma random_hex_valid:
  "draws_of n draws \<Longrightarrow> random_hex draws = Some s \<Longrightarrow> is_hex s (2 * n) \<and> any_nonzero s"
proof (induction draws rule: random_hex.induct)
  case (2 raw draws)
  then show ?case
    using hex_string_hex [of raw] hex_string_nonzero [of raw] length_hex_string [of raw]
    by (auto simp: draws_of_def is_hex_iff list_all_iff split: if_splits)
qed simp

lemma trace_child_valid:
  "trace_valid t \<Longrightarrow> draws_of 8 draws \<Longrightarrow> random_hex draws = Some sid \<Longrightarrow> trace_valid (trace_child t sid)"
  using random_hex_valid [of 8 draws sid] by (auto simp: trace_valid_def trace_child_def)

lemma trace_root_valid:
  "draws_of 16 ds \<Longrightarrow> draws_of 8 ds' \<Longrightarrow> random_hex ds = Some tid \<Longrightarrow> random_hex ds' = Some sid \<Longrightarrow>
   trace_valid (trace_new_root tid sid sampled)"
  using random_hex_valid [of 16 ds tid] random_hex_valid [of 8 ds' sid]
  by (auto simp: trace_valid_def trace_new_root_def is_hex_def)

section \<open>Node ids survive the pool key\<close>

lemma concat_chunks: "0 < n \<Longrightarrow> concat (chunks n xs) = xs"
proof (induction n xs rule: chunks.induct)
  case (1 n xs)
  then show ?case by (subst chunks.simps) auto
qed

lemma filter_join: "filter (\<lambda>x. x \<noteq> c) (join [c] ws) = filter (\<lambda>x. x \<noteq> c) (concat ws)"
  by (induction "[c]" ws rule: join.induct) auto

lemma decode_hex_string: "\<forall>b \<in> set raw. b < 256 \<Longrightarrow> decode_pairs (hex_string raw) = Some raw"
proof (induction raw)
  case (Cons b raw)
  then show ?case using parse_hex_byte [of b] by (simp add: hex_string_def hex_byte_def)
qed (simp add: hex_string_def)

lemma strip_suffix_append [simp]: "strip_suffix p (s @ p) = Some s"
  by (simp add: strip_suffix_Some)

text \<open>The host name a node id is turned into for the connection pool decodes to the same node id.\<close>

lemma node_host_roundtrip:
  assumes "utf8_ok (map code node_id)"
  shows "node_id_from_host (node_host node_id) = Some node_id"
proof -
  let ?hex = "hex_string (map code node_id)"
  have bytes: "\<forall>b \<in> set (map code node_id). b < 256" by auto
  have "concat (split_on CHR ''.'' (join ''.'' (chunks 62 ?hex))) = ?hex"
    using hex_free [OF hex_string_hex [OF bytes]]
    by (simp add: split_on_concat filter_join concat_chunks filter_id_conv) metis
  moreover have "strip_suffix NODE_HOST_SUFFIX (node_host node_id) = Some (join ''.'' (chunks 62 ?hex) @ ''.'')"
    unfolding node_host_def using strip_suffix_append [of NODE_HOST_SUFFIX "join ''.'' (chunks 62 ?hex) @ ''.''"] by simp
  moreover have "map char_of (map code node_id) = node_id" by (simp add: o_def)
  ultimately show ?thesis
    using assms decode_hex_string [OF bytes] by (simp add: node_id_from_host_def length_hex_string o_def)
qed

section \<open>Weighted routing\<close>

lemma pick_subset_count:
  "j < length bs \<Longrightarrow> card {t. t < total_weight bs \<and> pick_subset bs t = Some j} = unat (rb_weight (bs ! j))"
proof (induction bs arbitrary: j)
  case (Cons b bs)
  let ?w = "unat (rb_weight b)"
  show ?case
  proof (cases j)
    case 0
    have "{t. t < total_weight (b # bs) \<and> pick_subset (b # bs) t = Some j} = {..< ?w}"
      using 0 by (auto simp: total_weight_def)
    then show ?thesis using 0 by simp
  next
    case (Suc k)
    have "{t. t < total_weight (b # bs) \<and> pick_subset (b # bs) t = Some j} =
        (\<lambda>t. t + ?w) ` {t. t < total_weight bs \<and> pick_subset bs t = Some k}" (is "?l = ?f ` ?r")
    proof (intro equalityI subsetI)
      fix t assume "t \<in> ?l"
      then have "t - ?w \<in> ?r \<and> ?f (t - ?w) = t" using Suc by (auto simp: total_weight_def split: if_splits)
      then show "t \<in> ?f ` ?r" by (intro rev_image_eqI [of "t - ?w"]) auto
    qed (use Suc in \<open>auto simp: total_weight_def\<close>)
    moreover have "card (?f ` ?r) = card ?r" by (rule card_image) (simp add: inj_on_def)
    ultimately show ?thesis using Cons Suc by simp
  qed
qed simp

lemma pick_subset_total: "t < total_weight bs \<Longrightarrow> \<exists>j. pick_subset bs t = Some j \<and> j < length bs"
proof (induction bs arbitrary: t)
  case (Cons b bs)
  show ?case
  proof (cases "t < unat (rb_weight b)")
    case False
    with Cons.prems have "t - unat (rb_weight b) < total_weight bs" by (simp add: total_weight_def)
    with Cons.IH False show ?thesis by fastforce
  qed auto
qed (simp add: total_weight_def)

lemma find_route_first:
  "k < length rs \<Longrightarrow> p (rs ! k) \<Longrightarrow> \<forall>m < k. \<not> p (rs ! m) \<Longrightarrow> find_route p i rs = Some (i + k, rs ! k)"
proof (induction rs arbitrary: i k)
  case (Cons r rs)
  then show ?case by (cases k) fastforce+
qed simp

lemma find_route_None: "find_route p i rs = None \<longleftrightarrow> (\<forall>r \<in> set rs. \<not> p r)"
  by (induction rs arbitrary: i) auto

definition request_matches :: "string \<Rightarrow> string \<Rightarrow> header_map \<Rightarrow> Route \<Rightarrow> bool" where
  "request_matches meth path hs r \<longleftrightarrow>
     route_matches (rt_matches r) meth path (\<lambda>name. Option.bind (header_get hs name) header_to_str)"

text \<open>
  C34. A request goes to the first route that matches it, and to none only if no route matches. Within
  the route, of the equally likely random tickets exactly as many select a label subset as that
  subset's weight; in particular a subset of weight zero is never selected.
\<close>

theorem select_route_spec:
  assumes "k < length routes" "request_matches meth path hs (routes ! k)"
    and "\<forall>m < k. \<not> request_matches meth path hs (routes ! m)"
    and "0 < total_weight (rt_backends (routes ! k))" "draw (total_weight (rt_backends (routes ! k))) < total_weight (rt_backends (routes ! k))"
  shows "(\<exists>j < length (rt_backends (routes ! k)).
      pick_subset (rt_backends (routes ! k)) (draw (total_weight (rt_backends (routes ! k)))) = Some j \<and>
      select_route draw routes meth path hs =
        Some \<lparr>rto_label = route_label (routes ! k) k, rto_labels = rb_labels (rt_backends (routes ! k) ! j)\<rparr>) \<and>
    (\<forall>j < length (rt_backends (routes ! k)).
      card {t. t < total_weight (rt_backends (routes ! k)) \<and> pick_subset (rt_backends (routes ! k)) t = Some j} =
      unat (rb_weight (rt_backends (routes ! k) ! j))) \<and>
    (select_route draw other meth path hs = None \<longleftrightarrow> (\<forall>r \<in> set other. \<not> request_matches meth path hs r))"
proof (intro conjI)
  show "\<exists>j < length (rt_backends (routes ! k)).
      pick_subset (rt_backends (routes ! k)) (draw (total_weight (rt_backends (routes ! k)))) = Some j \<and>
      select_route draw routes meth path hs =
        Some \<lparr>rto_label = route_label (routes ! k) k, rto_labels = rb_labels (rt_backends (routes ! k) ! j)\<rparr>"
    using pick_subset_total [OF assms(5)] find_route_first [OF assms(1), of "request_matches meth path hs" 0]
      assms(2-4) by (auto simp: select_route_def request_matches_def [abs_def])
  show "select_route draw other meth path hs = None \<longleftrightarrow> (\<forall>r \<in> set other. \<not> request_matches meth path hs r)"
    by (simp add: select_route_def find_route_None request_matches_def)
qed (simp add: pick_subset_count)

definition canary_routes :: "Route list" where
  "canary_routes = [
     \<lparr>rt_name = Some ''canary'', rt_service = ''api'',
      rt_matches = \<lparr>rm_path_prefix = None, rm_method = Some ''GET'', rm_headers = []\<rparr>,
      rt_backends = [\<lparr>rb_labels = [(''v'', ''2'')], rb_weight = 1\<rparr>, \<lparr>rb_labels = [(''v'', ''1'')], rb_weight = 9\<rparr>]\<rparr>]"

theorem select_route_spec_witness:
  "(\<exists>j < 2. pick_subset (rt_backends (canary_routes ! 0)) 3 = Some j \<and>
      select_route (\<lambda>_. 3) canary_routes ''GET'' ''/'' [] =
        Some \<lparr>rto_label = ''canary'', rto_labels = rb_labels (rt_backends (canary_routes ! 0) ! j)\<rparr>) \<and>
   card {t. t < 10 \<and> pick_subset (rt_backends (canary_routes ! 0)) t = Some 1} = 9"
proof -
  have t: "total_weight (rt_backends (canary_routes ! 0)) = 10" by (simp add: canary_routes_def total_weight_def)
  have m: "request_matches ''GET'' ''/'' [] (canary_routes ! 0)"
    by (simp add: canary_routes_def request_matches_def route_matches_def)
  have l: "0 < length canary_routes" "length (rt_backends (canary_routes ! 0)) = 2" "route_label (canary_routes ! 0) 0 = ''canary''"
    "unat (rb_weight (rt_backends (canary_routes ! 0) ! 1)) = 9"
    by (simp_all add: canary_routes_def route_label_def)
  from select_route_spec [of 0 canary_routes "''GET''" "''/''" "[]" "\<lambda>_. 3", OF l(1) m] t
  show ?thesis unfolding l(2-4) [symmetric] t by (auto simp: l(2))
qed

section \<open>The retry budget bounds the retries\<close>

text \<open>
  A rounding mode that keeps integers and signs and errs by at most \<open>err\<close> on the values a token
  bucket of size 20 takes.
\<close>

locale token_rounding =
  fixes rnd :: "rat \<Rightarrow> rat" and err :: rat
  assumes err_pos: "0 \<le> err"
    and rnd_nonneg: "0 \<le> q \<Longrightarrow> 0 \<le> rnd q"
    and rnd_near: "0 \<le> q \<Longrightarrow> q \<le> 32 \<Longrightarrow> \<bar>rnd q - q\<bar> \<le> err"
    and rnd_nat: "rnd (of_nat n) = of_nat n"
begin

lemma deposit_step:
  assumes "0 \<le> t" "t \<le> 20" "0 \<le> ratio" "ratio \<le> 1"
  shows "0 \<le> min (rnd (t + ratio)) 20" "min (rnd (t + ratio)) 20 \<le> t + ratio + err"
  using rnd_nonneg [of "t + ratio"] rnd_near [of "t + ratio"] assms by auto

lemma withdraw_step:
  assumes "1 \<le> t" "t \<le> 20"
  shows "0 \<le> rnd (t - 1)" "rnd (t - 1) \<le> t - 1 + err"
  using rnd_nonneg [of "t - 1"] rnd_near [of "t - 1"] assms by auto

lemma withdraw_nat: "rnd (of_nat (Suc n) - 1) = of_nat n"
  using rnd_nat [of n] by simp

end

definition F64_ERR :: rat where
  "F64_ERR = 1 / 2 ^ 48"

lemma round_half_even_near: "\<bar>of_int (round_half_even q) - q\<bar> \<le> 1 / 2"
proof -
  have "of_int \<lfloor>q\<rfloor> \<le> q" "q < of_int \<lfloor>q\<rfloor> + 1" using floor_correct [of q] by auto
  then show ?thesis unfolding round_half_even_def Let_def by (simp add: abs_le_iff)
qed

lemma round_half_even_nonneg: "0 \<le> q \<Longrightarrow> 0 \<le> round_half_even q"
  by (auto simp: round_half_even_def Let_def)

lemma round_half_even_int: "round_half_even (of_int k) = k"
  by (simp add: round_half_even_def Let_def)

lemma f64_round_error: "\<bar>f64_round q - q\<bar> \<le> 1 / 2 / 2 ^ f64_scale q"
proof -
  let ?p = "2 ^ f64_scale q :: rat"
  have "f64_round q - q = (of_int (round_half_even (q * ?p)) - q * ?p) / ?p"
    by (simp add: f64_round_def diff_divide_distrib)
  then have "\<bar>f64_round q - q\<bar> = \<bar>of_int (round_half_even (q * ?p)) - q * ?p\<bar> / ?p"
    by (simp add: abs_divide)
  also have "\<dots> \<le> 1 / 2 / ?p" by (intro divide_right_mono round_half_even_near) simp
  finally show ?thesis .
qed

lemma f64_scale_least:
  assumes "0 \<le> q" "q \<le> 32"
  shows "(2 :: rat) ^ 47 \<le> 2 ^ f64_scale q"
proof (cases "find (\<lambda>k. (2 :: rat) ^ 52 \<le> q * 2 ^ k) [0..<1074]")
  case None
  then show ?thesis unfolding f64_scale_def by (simp add: power_increasing del: power_numeral)
next
  case (Some k)
  then have "(2 :: rat) ^ 52 \<le> q * 2 ^ k" by (auto simp: find_Some_iff)
  also have "\<dots> \<le> 32 * 2 ^ k" using assms by (simp add: mult_right_mono)
  finally show ?thesis using Some by (simp add: f64_scale_def)
qed

lemma f64_round_near: "0 \<le> q \<Longrightarrow> q \<le> 32 \<Longrightarrow> \<bar>f64_round q - q\<bar> \<le> F64_ERR"
proof -
  assume q: "0 \<le> q" "q \<le> 32"
  have "(1 / 2 :: rat) / 2 ^ f64_scale q \<le> 1 / 2 / 2 ^ 47"
    using f64_scale_least [OF q] by (intro divide_left_mono) (simp_all del: power_numeral)
  also have "\<dots> = F64_ERR" by (simp add: F64_ERR_def)
  finally show ?thesis using f64_round_error [of q] by (rule order.trans [rotated])
qed

lemma f64_round_nat: "f64_round (of_nat n) = of_nat n"
proof -
  have "round_half_even (of_nat n * 2 ^ k) = int n * 2 ^ k" for k
    using round_half_even_int [of "int n * 2 ^ k"] by simp
  then show ?thesis by (simp add: f64_round_def)
qed

lemma f64_round_nonneg: "0 \<le> q \<Longrightarrow> 0 \<le> f64_round q"
  by (simp add: f64_round_def round_half_even_nonneg)

lemma F64_ERR_nonneg: "0 \<le> F64_ERR"
  by (simp add: F64_ERR_def)

interpretation f64: token_rounding f64_round F64_ERR
  by unfold_locales
    (simp_all add: F64_ERR_nonneg f64_round_nat f64_round_nonneg f64_round_near)

text \<open>A history of the budget: \<open>True\<close> a request is credited, \<open>False\<close> a retry is asked for.\<close>

fun budget_run :: "rat \<Rightarrow> bool list \<Rightarrow> rat \<times> nat" where
  "budget_run t [] = (t, 0)"
| "budget_run t (True # ops) = budget_run (budget_deposit t) ops"
| "budget_run t (False # ops) =
     (case budget_try_withdraw t of (t', ok) \<Rightarrow>
        case budget_run t' ops of (t'', n) \<Rightarrow> (t'', if ok then Suc n else n))"

lemma ratio_bounds: "0 \<le> RETRY_BUDGET_RATIO" "RETRY_BUDGET_RATIO \<le> 1 / 5 + F64_ERR"
  using f64.rnd_nonneg [of "1 / 5"] f64_round_near [of "1 / 5"] by (auto simp: RETRY_BUDGET_RATIO_def)

lemma budget_potential:
  "0 \<le> t \<Longrightarrow> t \<le> 20 \<Longrightarrow> budget_run t ops = (t', n) \<Longrightarrow>
   0 \<le> t' \<and> t' + of_nat n * (1 - F64_ERR) \<le> t + of_nat (count_list ops True) * (1 / 5 + 2 * F64_ERR)"
proof (induction t ops arbitrary: n rule: budget_run.induct)
  case (2 t ops)
  have s: "0 \<le> budget_deposit t" "budget_deposit t \<le> t + 1 / 5 + 2 * F64_ERR" "budget_deposit t \<le> 20"
    using f64.deposit_step [OF "2.prems"(1,2) ratio_bounds(1)] ratio_bounds(2)
    by (auto simp: budget_deposit_def RETRY_BUDGET_MAX_def F64_ERR_def)
  then show ?case using "2.IH" [OF s(1,3)] "2.prems"(3) by (simp add: distrib_right)
next
  case (3 t ops)
  obtain m where m: "budget_run (fst (budget_try_withdraw t)) ops = (t', m)"
    "n = (if snd (budget_try_withdraw t) then Suc m else m)"
    using "3.prems"(3) by (auto split: prod.splits)
  show ?case
  proof (cases "t \<ge> 1")
    case True
    note w = f64.withdraw_step [OF True "3.prems"(2)]
    have "f64_round (t - 1) \<le> 20" using w(2) "3.prems"(2) by (simp add: F64_ERR_def)
    with "3.IH" [of "f64_round (t - 1)" True m] m w True show ?thesis
      by (auto simp: budget_try_withdraw_def algebra_simps)
  next
    case False
    with "3.IH" [of t False m] m "3.prems" show ?thesis by (auto simp: budget_try_withdraw_def)
  qed
qed simp

lemma budget_full_burst:
  "k \<le> 20 \<Longrightarrow> budget_run (of_nat (20 - k)) (replicate n False) = (of_nat (20 - k - n), min n (20 - k))"
proof (induction n arbitrary: k)
  case (Suc n)
  show ?case
  proof (cases "k = 20")
    case True
    with Suc.IH [of 20] Suc.prems show ?thesis by (simp add: budget_try_withdraw_def)
  next
    case False
    then obtain j where j: "20 - k = Suc j" "j = 20 - Suc k" using Suc.prems by (metis Suc_diff_Suc nat_less_le)
    have "budget_try_withdraw (of_nat (20 - k)) = (of_nat (20 - Suc k), True)"
      unfolding j(1) budget_try_withdraw_def using f64.withdraw_nat [of j] j(2) by simp
    moreover have "Suc k \<le> 20" using False Suc.prems by simp
    ultimately show ?thesis using Suc.IH [of "Suc k"] j by simp
  qed
qed simp

text \<open>
  C18. The retry budget, with its binary64 arithmetic: a fresh budget allows a burst of twenty retries
  and no more, and over any history of up to \<open>2^40\<close> requests the retries granted are at most twenty
  plus a fifth of the requests; rounding never adds a retry.
\<close>

theorem retry_budget_bound:
  assumes "count_list ops True \<le> 2 ^ 40"
  shows "5 * snd (budget_run budget_new ops) \<le> 100 + count_list ops True \<and>
    snd (budget_run budget_new (replicate n False)) = min n 20"
proof -
  obtain t k where r: "budget_run budget_new ops = (t, k)" by fastforce
  let ?d = "of_nat (count_list ops True) :: rat"
  have "?d \<le> of_nat (2 ^ 40)" using assms by (simp only: of_nat_le_iff)
  then have d: "?d \<le> 2 ^ 40" by simp
  have "0 \<le> t" "t + of_nat k * (1 - F64_ERR) \<le> 20 + ?d * (1 / 5 + 2 * F64_ERR)"
    using budget_potential [OF _ _ r] by (auto simp: budget_new_def RETRY_BUDGET_MAX_def)
  then have p: "of_nat k * (1 - F64_ERR) \<le> 20 + ?d * (1 / 5 + 2 * F64_ERR)" by linarith
  have "of_nat k * 5 < 101 + ?d"
  proof (rule ccontr)
    assume "\<not> of_nat k * 5 < 101 + ?d"
    then have "(101 + ?d) / 5 * (1 - F64_ERR) \<le> of_nat k * (1 - F64_ERR)"
      by (intro mult_right_mono) (auto simp: F64_ERR_def)
    with p have "(101 + ?d) / 5 * (1 - F64_ERR) \<le> 20 + ?d * (1 / 5 + 2 * F64_ERR)" by linarith
    with d show False by (simp add: F64_ERR_def field_simps)
  qed
  then have "of_nat (k * 5) < (of_nat (101 + count_list ops True) :: rat)" by simp
  then have "5 * snd (budget_run budget_new ops) \<le> 100 + count_list ops True"
    unfolding r of_nat_less_iff by simp
  moreover have "snd (budget_run budget_new (replicate n False)) = min n 20"
    using budget_full_burst [of 0 n] by (simp add: budget_new_def RETRY_BUDGET_MAX_def)
  ultimately show ?thesis ..
qed

theorem retry_budget_bound_witness:
  "count_list [True, False, True] True \<le> 2 ^ 40 \<and>
   5 * snd (budget_run budget_new [True, False, True]) \<le> 100 + count_list [True, False, True] True \<and>
   snd (budget_run budget_new (replicate 25 False)) = min 25 20"
proof -
  have "count_list [True, False, True] True \<le> 2 ^ 40" by simp
  from conjI [OF this retry_budget_bound [OF this, of 25]] show ?thesis .
qed

end
