(* ===== verification/Serde.thy ===== *)
theory Serde
  imports Rust_Str Complex_Main
begin

text \<open>
  Structures as self-describing values, the way the \<^verbatim>\<open>serde\<close> attributes of the source lay them out: a
  struct is an object with one entry per field, a field may be left out when it has its default, and
  an entry nobody asks for is ignored. JSON and MessagePack write such values as text and bytes;
  those layers are the crates'. Positional forms, which serde also reads, are not used by the program
  and not part of the model.

  The locale \<open>codec\<close> is what each structure promises: it reads back what it wrote.
\<close>

section \<open>Values\<close>

datatype json = JNull | JBool bool | JInt int | JFloat rat | JStr string | JArr "json list" | JObj "(string \<times> json) list"

fun json_at :: "json \<Rightarrow> string \<Rightarrow> json" where
  "json_at (JObj kvs) key = (case map_of kvs key of Some v \<Rightarrow> v | None \<Rightarrow> JNull)"
| "json_at _ key = JNull"

definition int_to_value :: "'a::len word \<Rightarrow> json" where
  "int_to_value w = JInt (uint w)"

definition int_of_value :: "json \<Rightarrow> 'a::len word option" where
  "int_of_value v = (case v of JInt i \<Rightarrow> if 0 \<le> i \<and> i < 2 ^ LENGTH('a) then Some (word_of_int i) else None | _ \<Rightarrow> None)"

definition str_of_value :: "json \<Rightarrow> string option" where
  "str_of_value v = (case v of JStr s \<Rightarrow> Some s | _ \<Rightarrow> None)"

definition bool_of_value :: "json \<Rightarrow> bool option" where
  "bool_of_value v = (case v of JBool b \<Rightarrow> Some b | _ \<Rightarrow> None)"

definition opt_to_value :: "('a \<Rightarrow> json) \<Rightarrow> 'a option \<Rightarrow> json" where
  "opt_to_value enc x = (case x of None \<Rightarrow> JNull | Some y \<Rightarrow> enc y)"

definition opt_of_value :: "(json \<Rightarrow> 'a option) \<Rightarrow> json \<Rightarrow> 'a option option" where
  "opt_of_value dec v = (if v = JNull then Some None else map_option Some (dec v))"

definition list_to_value :: "('a \<Rightarrow> json) \<Rightarrow> 'a list \<Rightarrow> json" where
  "list_to_value enc xs = JArr (map enc xs)"

definition list_of_value :: "(json \<Rightarrow> 'a option) \<Rightarrow> json \<Rightarrow> 'a list option" where
  "list_of_value dec v = (case v of JArr vs \<Rightarrow> those (map dec vs) | _ \<Rightarrow> None)"

text \<open>A \<^verbatim>\<open>BTreeMap\<close> collected from pairs: in key order, the last pair of a key counts.\<close>

definition btree_collect :: "(string \<times> string) list \<Rightarrow> string_map" where
  "btree_collect kvs =
     map (\<lambda>k. (k, the (map_of (rev kvs) k))) (remdups_adj (sort (map fst kvs)))"

definition map_to_value :: "string_map \<Rightarrow> json" where
  "map_to_value m = JObj (map (\<lambda>(k, v). (k, JStr v)) m)"

definition map_of_value :: "json \<Rightarrow> string_map option" where
  "map_of_value v =
     (case v of
        JObj kvs \<Rightarrow> map_option btree_collect (those (map (\<lambda>(k, v). map_option (Pair k) (str_of_value v)) kvs))
      | _ \<Rightarrow> None)"

section \<open>Structs\<close>

text \<open>
  A field to write has its name, whether it is written at all, and its value. Reading takes the entries
  of the fields it knows; a field given twice is an error.
\<close>

definition emit :: "(string \<times> bool \<times> json) list \<Rightarrow> json" where
  "emit fs = JObj (map (\<lambda>(k, keep, v). (k, v)) (filter (\<lambda>(k, keep, v). keep) fs))"

definition struct_fields :: "string list \<Rightarrow> json \<Rightarrow> (string \<rightharpoonup> json) option" where
  "struct_fields names v =
     (case v of
        JObj kvs \<Rightarrow> if distinct (filter (\<lambda>k. k \<in> set names) (map fst kvs)) then Some (map_of kvs) else None
      | _ \<Rightarrow> None)"

definition required :: "string \<Rightarrow> (json \<Rightarrow> 'a option) \<Rightarrow> (string \<rightharpoonup> json) \<Rightarrow> 'a option" where
  "required k dec m = Option.bind (m k) dec"

definition defaulted :: "string \<Rightarrow> 'a \<Rightarrow> (json \<Rightarrow> 'a option) \<Rightarrow> (string \<rightharpoonup> json) \<Rightarrow> 'a option" where
  "defaulted k d dec m = (case m k of None \<Rightarrow> Some d | Some v \<Rightarrow> dec v)"

definition emitted :: "(string \<times> bool \<times> json) list \<Rightarrow> string \<rightharpoonup> json" where
  "emitted fs k = Option.bind (map_of fs k) (\<lambda>(keep, v). if keep then Some v else None)"

lemma map_of_emit:
  "distinct (map fst fs) \<Longrightarrow> map_of (map (\<lambda>(k, keep, v). (k, v)) (filter (\<lambda>(k, keep, v). keep) fs)) = emitted fs"
proof (induction fs)
  case (Cons f fs)
  obtain k keep v where f: "f = (k, keep, v)" by (metis surj_pair)
  have "map_of fs k = None" using Cons.prems by (simp add: f map_of_eq_None_iff)
  with Cons f show ?case by (auto simp: emitted_def fun_eq_iff)
qed (simp add: emitted_def fun_eq_iff)

lemma struct_emit [simp]:
  assumes "distinct (map fst fs)"
  shows "struct_fields names (emit fs) = Some (emitted fs)"
proof -
  have "fst \<circ> (\<lambda>(k, keep, v). (k, v)) = (fst :: string \<times> bool \<times> json \<Rightarrow> string)" by (simp add: fun_eq_iff split: prod.split)
  moreover have "distinct (map fst (filter (\<lambda>(k, keep, v). keep) fs))" using assms by (rule distinct_map_filter)
  ultimately show ?thesis using map_of_emit [OF assms] by (simp add: struct_fields_def emit_def)
qed

lemma required_emitted [simp]:
  "required k dec (emitted fs) = Option.bind (map_of fs k) (\<lambda>(keep, v). if keep then dec v else None)"
  by (auto simp: required_def emitted_def split: Option.bind_splits)

lemma defaulted_emitted [simp]:
  "defaulted k d dec (emitted fs) = (case map_of fs k of Some (keep, v) \<Rightarrow> if keep then dec v else Some d | None \<Rightarrow> Some d)"
  by (auto simp: defaulted_def emitted_def split: option.splits)

lemma if_default [simp]: "(\<not> c \<Longrightarrow> x = d) \<Longrightarrow> (if c then Some x else Some d) = Some x"
  by simp

lemma emit_not_null [simp]: "emit fs \<noteq> JNull"
  by (simp add: emit_def)

section \<open>Reading back what was written\<close>

locale codec =
  fixes enc :: "'a \<Rightarrow> json"
    and dec :: "json \<Rightarrow> 'a option"
    and wf :: "'a \<Rightarrow> bool"
  assumes dec_enc: "wf x \<Longrightarrow> dec (enc x) = Some x"
    and enc_not_null: "wf x \<Longrightarrow> enc x \<noteq> JNull"
begin

lemma opt_dec_enc: "pred_option wf x \<Longrightarrow> opt_of_value dec (opt_to_value enc x) = Some x"
  by (cases x) (simp_all add: opt_of_value_def opt_to_value_def dec_enc enc_not_null)

lemma those_dec_enc: "list_all wf xs \<Longrightarrow> those (map dec (map enc xs)) = Some xs"
  by (induction xs) (simp_all add: dec_enc)

lemma list_dec_enc: "list_all wf xs \<Longrightarrow> list_of_value dec (list_to_value enc xs) = Some xs"
  using those_dec_enc by (simp add: list_of_value_def list_to_value_def)

lemma enc_inj: "wf x \<Longrightarrow> wf y \<Longrightarrow> enc x = enc y \<Longrightarrow> x = y"
  by (metis dec_enc option.inject)

end

text \<open>Most structures also promise that whatever they read is well-formed.\<close>

locale exact_codec = codec +
  assumes dec_wf: "dec v = Some x \<Longrightarrow> wf x"
begin

lemma required_wf: "required k dec m = Some x \<Longrightarrow> wf x"
  by (auto simp: required_def bind_eq_Some_conv intro: dec_wf)

lemma defaulted_wf: "defaulted k d dec m = Some x \<Longrightarrow> wf d \<Longrightarrow> wf x"
  by (auto simp: defaulted_def intro: dec_wf split: option.splits)

lemma those_wf: "those (map dec vs) = Some xs \<Longrightarrow> list_all wf xs"
  by (induction vs arbitrary: xs) (auto intro: dec_wf split: option.splits)

lemma list_wf: "list_of_value dec v = Some xs \<Longrightarrow> list_all wf xs"
  by (auto simp: list_of_value_def intro: those_wf split: json.splits)

lemma required_list_wf: "required k (list_of_value dec) m = Some xs \<Longrightarrow> list_all wf xs"
  by (auto simp: required_def bind_eq_Some_conv intro: list_wf)

lemma defaulted_list_wf: "defaulted k [] (list_of_value dec) m = Some xs \<Longrightarrow> list_all wf xs"
  by (auto simp: defaulted_def intro: list_wf split: option.splits)

lemma defaulted_opt_wf: "defaulted k None (opt_of_value dec) m = Some x \<Longrightarrow> pred_option wf x"
  by (auto simp: defaulted_def opt_of_value_def intro: dec_wf split: option.splits if_splits)

end

interpretation ints: codec int_to_value int_of_value "\<lambda>_. True"
  by unfold_locales (simp_all add: int_to_value_def int_of_value_def)

interpretation strs: codec JStr str_of_value "\<lambda>_. True"
  by unfold_locales (simp_all add: str_of_value_def)

interpretation bools: codec JBool bool_of_value "\<lambda>_. True"
  by unfold_locales (simp_all add: bool_of_value_def)

text \<open>The keys of a \<^verbatim>\<open>BTreeMap\<close> are in strict order.\<close>

definition map_wf :: "string_map \<Rightarrow> bool" where
  "map_wf m \<longleftrightarrow> sorted_wrt (<) (map fst m)"

lemma map_wf_Nil: "map_wf []"
  by (simp add: map_wf_def)

lemma btree_collect_sorted: "map_wf m \<Longrightarrow> btree_collect m = m"
proof -
  assume "map_wf m"
  then have s: "sorted (map fst m)" "distinct (map fst m)" by (simp_all add: map_wf_def strict_sorted_iff)
  then have keys: "remdups_adj (sort (map fst m)) = map fst m" by (simp add: sorted_sort_id remdups_adj_distinct)
  have "map_of (rev m) (fst p) = Some (snd p)" if "p \<in> set m" for p
    by (rule map_of_is_SomeI) (use that s(2) in \<open>simp_all add: rev_map [symmetric]\<close>)
  then show ?thesis by (simp add: btree_collect_def keys map_idI)
qed

lemma those_pairs: "those (map (\<lambda>(k, v). map_option (Pair k) (str_of_value v)) (map (\<lambda>(k, v). (k, JStr v)) m)) = Some m"
  by (induction m) (auto simp: str_of_value_def)

lemma btree_collect_wf: "map_wf (btree_collect kvs)"
proof -
  have "distinct (remdups_adj (sort (map fst kvs)))"
    by (rule distinct_remdups_adj_sort)
  then have "sorted_wrt (<) (remdups_adj (sort (map fst kvs)))" by (simp add: strict_sorted_iff)
  then show ?thesis by (simp add: map_wf_def btree_collect_def comp_def)
qed

interpretation string_maps: exact_codec map_to_value map_of_value map_wf
proof
  fix m assume "map_wf m"
  then show "map_of_value (map_to_value m) = Some m"
    using those_pairs [of m] btree_collect_sorted by (simp add: map_to_value_def map_of_value_def del: map_map)
next
  fix v m assume "map_of_value v = Some m"
  then show "map_wf m" by (auto simp: map_of_value_def btree_collect_wf split: json.splits)
qed (simp add: map_to_value_def)

lemmas any_wf = option.pred_True list.pred_True

lemmas leaf_codecs [simp] = ints.dec_enc [OF TrueI] strs.dec_enc [OF TrueI] bools.dec_enc [OF TrueI] string_maps.dec_enc
  ints.opt_dec_enc [unfolded any_wf, OF TrueI] strs.opt_dec_enc [unfolded any_wf, OF TrueI]
  strs.list_dec_enc [unfolded any_wf, OF TrueI]

end
