(* ===== verification/Telemetry.thy ===== *)
theory Telemetry
  imports Config_Model Serde
begin

text \<open>
  Span export (\<^verbatim>\<open>src/telemetry.rs\<close>): the bounded queue that requests hand their spans to, the
  exporter task that batches them, and their OTLP/JSON encoding. The collector's answers, the URI
  parser and the JSON parser are parameters. A \<open>SystemTime\<close> is its offset from the Unix epoch
  in nanoseconds; an \<open>i64\<close> attribute is an integer.
\<close>

section \<open>Spans\<close>

datatype SpanKind = Client

primrec span_kind_code :: "SpanKind \<Rightarrow> int" where
  "span_kind_code Client = 3"

datatype AttrValue = AttrStr string | AttrInt int

type_synonym Attributes = "(string \<times> AttrValue) list"

record SpanEvent =
  ev_time :: int
  ev_name :: string
  ev_attributes :: Attributes

record SpanRecord =
  sp_trace_id :: string
  sp_span_id :: string
  sp_parent_span_id :: "string option"
  sp_name :: string
  sp_kind :: SpanKind
  sp_start :: int
  sp_end :: int
  sp_attributes :: Attributes
  sp_events :: "SpanEvent list"
  sp_error :: "string option"

section \<open>OTLP JSON encoding\<close>

text \<open>The fields of an object are listed in the order the code writes them.\<close>

definition dec_int :: "int \<Rightarrow> string" where
  "dec_int i = (if i < 0 then CHR ''-'' # dec_string (nat (- i)) else dec_string (nat i))"

definition unix_nanos :: "int \<Rightarrow> string" where
  "unix_nanos t = dec_string (nat t)"

fun encode_value :: "AttrValue \<Rightarrow> json" where
  "encode_value (AttrStr s) = JObj [(''stringValue'', JStr s)]"
| "encode_value (AttrInt n) = JObj [(''intValue'', JStr (dec_int n))]"

definition encode_attributes :: "Attributes \<Rightarrow> json" where
  "encode_attributes attrs = JArr (map (\<lambda>(key, value). JObj [(''key'', JStr key), (''value'', encode_value value)]) attrs)"

definition encode_event :: "SpanEvent \<Rightarrow> json" where
  "encode_event e = JObj [(''timeUnixNano'', JStr (unix_nanos (ev_time e))), (''name'', JStr (ev_name e)),
     (''attributes'', encode_attributes (ev_attributes e))]"

definition encode_status :: "string option \<Rightarrow> json" where
  "encode_status err = (case err of
      Some message \<Rightarrow> JObj [(''code'', JInt 2), (''message'', JStr message)]
    | None \<Rightarrow> JObj [])"

definition encode_span :: "SpanRecord \<Rightarrow> json" where
  "encode_span sp = JObj
     ([(''traceId'', JStr (sp_trace_id sp)), (''spanId'', JStr (sp_span_id sp)), (''name'', JStr (sp_name sp)),
       (''kind'', JInt (span_kind_code (sp_kind sp))),
       (''startTimeUnixNano'', JStr (unix_nanos (sp_start sp))),
       (''endTimeUnixNano'', JStr (unix_nanos (sp_end sp))),
       (''attributes'', encode_attributes (sp_attributes sp)), (''status'', encode_status (sp_error sp))] @
      (case sp_parent_span_id sp of Some parent \<Rightarrow> [(''parentSpanId'', JStr parent)] | None \<Rightarrow> []) @
      (if sp_events sp \<noteq> [] then [(''events'', JArr (map encode_event (sp_events sp)))] else []))"

definition PKG_VERSION :: string where
  "PKG_VERSION = ''0.1.0''"

definition encode_request :: "Attributes \<Rightarrow> SpanRecord list \<Rightarrow> json" where
  "encode_request resource spans = JObj [(''resourceSpans'', JArr [JObj [
      (''resource'', JObj [(''attributes'', encode_attributes resource)]),
      (''scopeSpans'', JArr [JObj [
         (''scope'', JObj [(''name'', JStr ''stouter''), (''version'', JStr PKG_VERSION)]),
         (''spans'', JArr (map encode_span spans))]])]])]"

definition resource_attributes :: "string \<Rightarrow> string \<Rightarrow> Attributes" where
  "resource_attributes service_name node_id =
     [(''service.name'', AttrStr service_name), (''telemetry.sdk.name'', AttrStr ''stouter''),
      (''telemetry.sdk.language'', AttrStr ''rust''), (''telemetry.sdk.version'', AttrStr PKG_VERSION)] @
     (if node_id \<noteq> [] then [(''service.instance.id'', AttrStr node_id)] else [])"

definition rejected_spans :: "(string \<Rightarrow> json option) \<Rightarrow> string \<Rightarrow> nat" where
  "rejected_spans parse body =
     (case parse body of
        None \<Rightarrow> 0
      | Some v \<Rightarrow>
          (case json_at (json_at v ''partialSuccess'') ''rejectedSpans'' of
             JStr s \<Rightarrow> (case from_str_radix 10 (2 ^ 64 - 1) s of Some n \<Rightarrow> n | None \<Rightarrow> 0)
           | JInt n \<Rightarrow> if 0 \<le> n \<and> n < 2 ^ 64 then nat n else 0
           | _ \<Rightarrow> 0))"

section \<open>The queue and the exporter\<close>

definition QUEUE_CAPACITY :: nat where
  "QUEUE_CAPACITY = 4096"

definition MAX_BATCH :: nat where
  "MAX_BATCH = 512"

datatype Command = Span SpanRecord | Flush nat

text \<open>\<open>draw\<close> is the random number in \<open>[0, 1)\<close>.\<close>

definition sample_new_trace :: "f64 \<Rightarrow> rat \<Rightarrow> bool" where
  "sample_new_trace sample_ratio draw =
     (case sample_ratio of
        F64_NaN \<Rightarrow> False
      | F64_inf positive \<Rightarrow> positive
      | F64_fin r \<Rightarrow> r \<ge> 1 \<or> (r > 0 \<and> draw < r))"

definition export_endpoint :: "TracingConfig \<Rightarrow> string" where
  "export_endpoint cfg = trim_end_matches CHR ''/'' (tc_otlp_endpoint cfg) @ ''/v1/traces''"

text \<open>
  \<open>ee_post n\<close> is what becomes of the n-th export request: no answer in time (or a transport
  error), or a status with the body, if that could be read.
\<close>

record export_env =
  ee_endpoint :: string
  ee_resource :: Attributes
  ee_uri_ok :: "string \<Rightarrow> bool"
  ee_post :: "nat \<Rightarrow> (nat \<times> string option) option"
  ee_json :: "string \<Rightarrow> json option"

record tracer_world =
  tw_queue :: "Command list"
  tw_running :: bool
  tw_batch :: "SpanRecord list"
  tw_failing :: bool
  tw_posts :: "json list"
  tw_exported :: nat
  tw_rejected :: nat
  tw_export_failed :: nat
  tw_queue_full :: nat
  tw_acks :: "nat list"

definition tracer_start :: tracer_world where
  "tracer_start = \<lparr>tw_queue = [], tw_running = True, tw_batch = [], tw_failing = False, tw_posts = [],
     tw_exported = 0, tw_rejected = 0, tw_export_failed = 0, tw_queue_full = 0, tw_acks = []\<rparr>"

definition tracer_record :: "SpanRecord \<Rightarrow> tracer_world \<Rightarrow> tracer_world" where
  "tracer_record sp w =
     (if tw_running w \<and> length (tw_queue w) < QUEUE_CAPACITY
      then w\<lparr>tw_queue := tw_queue w @ [Span sp]\<rparr>
      else w\<lparr>tw_queue_full := tw_queue_full w + 1\<rparr>)"

definition export_answer :: "export_env \<Rightarrow> nat \<Rightarrow> nat option" where
  "export_answer env n =
     (case ee_post env n of
        None \<Rightarrow> None
      | Some (status, body) \<Rightarrow>
          if 200 \<le> status \<and> status < 300
          then Some (rejected_spans (ee_json env) (case body of Some b \<Rightarrow> b | None \<Rightarrow> []))
          else None)"

definition export :: "export_env \<Rightarrow> tracer_world \<Rightarrow> tracer_world" where
  "export env w =
     (if tw_batch w = [] then w
      else
        let spans = tw_batch w;
            n = length spans;
            body = encode_request (ee_resource env) spans;
            (posts, result) =
              (if ee_uri_ok env (ee_endpoint env)
               then (tw_posts w @ [body], export_answer env (length (tw_posts w)))
               else (tw_posts w, None));
            w1 = w\<lparr>tw_batch := [], tw_posts := posts\<rparr>
        in case result of
             Some rejected \<Rightarrow>
               w1\<lparr>tw_failing := False, tw_exported := tw_exported w + (n - rejected),
                  tw_rejected := tw_rejected w + rejected\<rparr>
           | None \<Rightarrow> w1\<lparr>tw_failing := True, tw_export_failed := tw_export_failed w + n\<rparr>)"

text \<open>One turn of the exporter on a received command.\<close>

fun exporter_recv :: "export_env \<Rightarrow> Command \<Rightarrow> tracer_world \<Rightarrow> tracer_world" where
  "exporter_recv env (Span sp) w =
     (let w1 = w\<lparr>tw_batch := tw_batch w @ [sp]\<rparr> in
      if length (tw_batch w1) \<ge> MAX_BATCH then export env w1 else w1)"
| "exporter_recv env (Flush ack) w = (let w1 = export env w in w1\<lparr>tw_acks := tw_acks w1 @ [ack]\<rparr>)"

text \<open>
  What can happen, with an event for each: a request records a span (queued, or dropped when the
  queue is full), a flush is queued once there is room, the exporter takes a command or its timer
  ticks, and, when every handle is gone and the queue is empty, it exports what is left and ends. An
  export touches the exporter's own state only, so what happens while it waits for the collector
  commutes with it.
\<close>

datatype tracer_event = Recorded SpanRecord | Overflowed SpanRecord | FlushQueued nat | Dequeued | Ticked | Closed

inductive tracer_step :: "export_env \<Rightarrow> tracer_world \<Rightarrow> tracer_event \<Rightarrow> tracer_world \<Rightarrow> bool" for env where
  recorded: "tw_running w \<Longrightarrow> length (tw_queue w) < QUEUE_CAPACITY \<Longrightarrow>
    tracer_step env w (Recorded sp) (tracer_record sp w)"
| overflowed: "tw_running w \<Longrightarrow> \<not> length (tw_queue w) < QUEUE_CAPACITY \<Longrightarrow>
    tracer_step env w (Overflowed sp) (tracer_record sp w)"
| flush_queued: "tw_running w \<Longrightarrow> length (tw_queue w) < QUEUE_CAPACITY \<Longrightarrow>
    tracer_step env w (FlushQueued ack) (w\<lparr>tw_queue := tw_queue w @ [Flush ack]\<rparr>)"
| received: "tw_running w \<Longrightarrow> tw_queue w = cmd # queue \<Longrightarrow>
    tracer_step env w Dequeued (exporter_recv env cmd (w\<lparr>tw_queue := queue\<rparr>))"
| ticked: "tw_running w \<Longrightarrow> tracer_step env w Ticked (export env w)"
| closed: "tw_running w \<Longrightarrow> tw_queue w = [] \<Longrightarrow>
    tracer_step env w Closed (export env w\<lparr>tw_running := False\<rparr>)"

inductive tracer_path :: "export_env \<Rightarrow> tracer_world \<Rightarrow> tracer_event list \<Rightarrow> tracer_world \<Rightarrow> bool" for env where
  path_nil: "tracer_path env w [] w"
| path_snoc: "tracer_path env w evs w1 \<Longrightarrow> tracer_step env w1 ev w2 \<Longrightarrow> tracer_path env w (evs @ [ev]) w2"

inductive_cases tracer_stepE: "tracer_step env w ev w'"

section \<open>Every accepted span is sent once, in order\<close>

primrec queued_span :: "Command \<Rightarrow> SpanRecord list" where
  "queued_span (Span sp) = [sp]"
| "queued_span (Flush ack) = []"

primrec accepted_span :: "tracer_event \<Rightarrow> SpanRecord list" where
  "accepted_span (Recorded sp) = [sp]"
| "accepted_span (Overflowed sp) = []"
| "accepted_span (FlushQueued ack) = []"
| "accepted_span Dequeued = []"
| "accepted_span Ticked = []"
| "accepted_span Closed = []"

definition accepted :: "tracer_event list \<Rightarrow> SpanRecord list" where
  "accepted evs = concat (map accepted_span evs)"

fun json_items :: "json \<Rightarrow> json list" where
  "json_items (JArr xs) = xs"
| "json_items _ = []"

text \<open>The spans in a request body, and in all the requests made so far, whatever became of them.\<close>

definition posted_spans :: "json \<Rightarrow> json list" where
  "posted_spans body =
     concat (map (\<lambda>rs. concat (map (\<lambda>ss. json_items (json_at ss ''spans'')) (json_items (json_at rs ''scopeSpans''))))
       (json_items (json_at body ''resourceSpans'')))"

definition requested :: "tracer_world \<Rightarrow> json list" where
  "requested w = concat (map posted_spans (tw_posts w))"

text \<open>
  The spans of the requests that the collector answered with success. Any other request is lost: there
  was no answer in time, or an error.
\<close>

definition answered_ok :: "export_env \<Rightarrow> nat \<Rightarrow> bool" where
  "answered_ok env i \<longleftrightarrow> (case ee_post env i of Some (status, _) \<Rightarrow> 200 \<le> status \<and> status < 300 | None \<Rightarrow> False)"

definition delivered :: "export_env \<Rightarrow> tracer_world \<Rightarrow> json list" where
  "delivered env w = concat (map (\<lambda>(i, body). if answered_ok env i then posted_spans body else []) (enumerate 0 (tw_posts w)))"

definition in_transit :: "tracer_world \<Rightarrow> SpanRecord list" where
  "in_transit w = tw_batch w @ concat (map queued_span (tw_queue w))"

definition post_ok :: "json \<Rightarrow> bool" where
  "post_ok body \<longleftrightarrow> posted_spans body \<noteq> [] \<and> length (posted_spans body) \<le> MAX_BATCH"

definition tracer_inv :: "export_env \<Rightarrow> tracer_world \<Rightarrow> bool" where
  "tracer_inv env w \<longleftrightarrow> length (tw_batch w) < MAX_BATCH \<and> length (tw_queue w) \<le> QUEUE_CAPACITY \<and>
     list_all post_ok (tw_posts w) \<and>
     tw_export_failed w + length (delivered env w) = length (requested w) \<and>
     tw_exported w \<le> length (delivered env w) \<and> length (delivered env w) \<le> tw_exported w + tw_rejected w"

lemma posted_spans_encode [simp]: "posted_spans (encode_request resource spans) = map encode_span spans"
  by (simp add: posted_spans_def encode_request_def)

lemma export_simps [simp]:
  "tw_batch (export env w) = []" "tw_queue (export env w) = tw_queue w" "tw_running (export env w) = tw_running w"
  "tw_queue_full (export env w) = tw_queue_full w" "tw_acks (export env w) = tw_acks w"
  by (auto simp: export_def Let_def split: option.splits prod.splits)

lemma export_requested:
  assumes "ee_uri_ok env (ee_endpoint env)"
  shows "requested (export env w) = requested w @ map encode_span (tw_batch w)"
  using assms by (auto simp: export_def Let_def requested_def split: option.splits)

lemma export_delivered:
  assumes "ee_uri_ok env (ee_endpoint env)"
  shows "delivered env (export env w) =
    delivered env w @ (if answered_ok env (length (tw_posts w)) then map encode_span (tw_batch w) else [])"
  using assms by (auto simp: export_def Let_def delivered_def enumerate_append_eq split: option.split)

lemma delivered_frame [simp]:
  "delivered env (w\<lparr>tw_queue := q\<rparr>) = delivered env w" "delivered env (w\<lparr>tw_batch := b\<rparr>) = delivered env w"
  "delivered env (w\<lparr>tw_acks := a\<rparr>) = delivered env w" "delivered env (w\<lparr>tw_running := r\<rparr>) = delivered env w"
  "delivered env (w\<lparr>tw_queue_full := n\<rparr>) = delivered env w"
  by (simp_all add: delivered_def)

lemma answered_ok_iff: "answered_ok env i \<longleftrightarrow> export_answer env i \<noteq> None"
  by (auto simp: answered_ok_def export_answer_def split: option.splits)

lemma export_counters:
  assumes "ee_uri_ok env (ee_endpoint env)" "tw_batch w \<noteq> []"
  shows "tw_export_failed (export env w) =
      tw_export_failed w + (if answered_ok env (length (tw_posts w)) then 0 else length (tw_batch w))"
    "tw_exported (export env w) \<le> tw_exported w + (if answered_ok env (length (tw_posts w)) then length (tw_batch w) else 0)"
    "tw_exported w + tw_rejected w + (if answered_ok env (length (tw_posts w)) then length (tw_batch w) else 0) \<le>
      tw_exported (export env w) + tw_rejected (export env w)"
  using assms by (auto simp: export_def Let_def answered_ok_iff split: option.splits)

lemma export_posts:
  assumes "ee_uri_ok env (ee_endpoint env)" "list_all post_ok (tw_posts w)" "length (tw_batch w) \<le> MAX_BATCH"
  shows "list_all post_ok (tw_posts (export env w))"
  using assms by (auto simp: export_def Let_def post_ok_def split: option.splits)

lemma export_inv:
  assumes "ee_uri_ok env (ee_endpoint env)" "tracer_inv env w0"
    and "tw_posts w = tw_posts w0" "tw_exported w = tw_exported w0" "tw_export_failed w = tw_export_failed w0"
      "tw_rejected w = tw_rejected w0" "length (tw_queue w) \<le> QUEUE_CAPACITY" "length (tw_batch w) \<le> MAX_BATCH"
  shows "tracer_inv env (export env w)"
proof (cases "tw_batch w = []")
  case True
  with assms show ?thesis by (simp add: export_def tracer_inv_def requested_def delivered_def MAX_BATCH_def)
next
  case False
  have "delivered env w = delivered env w0" "requested w = requested w0"
    using assms(3) by (simp_all add: delivered_def requested_def)
  with False export_counters [OF assms(1) False] export_posts [OF assms(1), of w] export_requested [OF assms(1), of w]
    export_delivered [OF assms(1), of w] assms
  show ?thesis by (auto simp: tracer_inv_def MAX_BATCH_def split: if_splits)
qed

lemma tracer_step_inv:
  assumes "ee_uri_ok env (ee_endpoint env)" "tracer_step env w ev w'" "tracer_inv env w"
  shows "tracer_inv env w' \<and>
    requested w' @ map encode_span (in_transit w') = requested w @ map encode_span (in_transit w @ accepted_span ev) \<and>
    tw_queue_full w' = tw_queue_full w + (case ev of Overflowed _ \<Rightarrow> 1 | _ \<Rightarrow> 0)"
  using assms(2,3)
proof (induction rule: tracer_step.induct)
  case (recorded w sp)
  then show ?case by (auto simp: tracer_inv_def tracer_record_def in_transit_def requested_def)
next
  case (overflowed w sp)
  then show ?case by (auto simp: tracer_inv_def tracer_record_def in_transit_def requested_def)
next
  case (flush_queued w ack)
  then show ?case by (auto simp: tracer_inv_def in_transit_def requested_def)
next
  case (received w cmd queue)
  have q: "length queue \<le> QUEUE_CAPACITY" "length (tw_batch w) < MAX_BATCH"
    using received by (auto simp: tracer_inv_def)
  show ?case
  proof (cases cmd)
    case (Span sp)
    let ?w1 = "w\<lparr>tw_queue := queue, tw_batch := tw_batch w @ [sp]\<rparr>"
    have "tracer_inv env (export env ?w1)" by (rule export_inv [OF assms(1) received(3)]) (use q in auto)
    moreover have "requested ?w1 = requested w" by (simp add: requested_def)
    ultimately show ?thesis
      using received q Span export_requested [OF assms(1), of ?w1]
      by (auto simp: Let_def tracer_inv_def in_transit_def)
  next
    case (Flush ack)
    let ?w1 = "w\<lparr>tw_queue := queue\<rparr>"
    have "tracer_inv env (export env ?w1)" by (rule export_inv [OF assms(1) received(3)]) (use q in auto)
    moreover have "requested ?w1 = requested w" by (simp add: requested_def)
    ultimately show ?thesis
      using received Flush export_requested [OF assms(1), of ?w1]
      by (auto simp: Let_def tracer_inv_def in_transit_def requested_def)
  qed
next
  case (ticked w)
  then have "tracer_inv env (export env w)"
    by (intro export_inv [OF assms(1), of w]) (auto simp: tracer_inv_def)
  then show ?case using export_requested [OF assms(1), of w] by (simp add: in_transit_def)
next
  case (closed w)
  then have "tracer_inv env (export env w)"
    by (intro export_inv [OF assms(1), of w]) (auto simp: tracer_inv_def)
  then show ?case using export_requested [OF assms(1), of w] closed
    by (auto simp: in_transit_def tracer_inv_def requested_def)
qed

lemma delivered_subseq: "subseq (delivered env w) (requested w)"
proof -
  have "subseq (concat (map (\<lambda>(i, body). if answered_ok env i then posted_spans body else []) (enumerate k posts)))
      (concat (map posted_spans posts))" for k posts
    by (induction posts arbitrary: k) (auto intro: list_emb_append_mono)
  then show ?thesis by (simp add: delivered_def requested_def)
qed

lemma accepted_simps [simp]: "accepted [] = []" "accepted (evs @ evs') = accepted evs @ accepted evs'"
  "accepted [ev] = accepted_span ev"
  by (simp_all add: accepted_def)

lemma tracer_inv_start: "tracer_inv env tracer_start"
  by (simp add: tracer_inv_def tracer_start_def requested_def delivered_def MAX_BATCH_def)

lemma tracer_path_inv:
  assumes "ee_uri_ok env (ee_endpoint env)" "tracer_path env w evs w'" "tracer_inv env w"
  shows "tracer_inv env w' \<and>
    requested w' @ map encode_span (in_transit w') = requested w @ map encode_span (in_transit w @ accepted evs) \<and>
    tw_queue_full w' = tw_queue_full w + length (filter (\<lambda>ev. case ev of Overflowed _ \<Rightarrow> True | _ \<Rightarrow> False) evs)"
  using assms(2,3)
proof (induction rule: tracer_path.induct)
  case (path_snoc w evs w1 ev w2)
  then show ?case using tracer_step_inv [OF assms(1) path_snoc.hyps(2)] by (cases ev) auto
qed simp

text \<open>
  C20. Every span that the queue accepts is put into exactly one request to the collector, in order,
  and no request is ever made again: the spans of the requests so far, followed by what waits in the
  batch and in the queue, are the spans accepted. A request carries from 1 to 512 spans, and the
  queue holds at most 4096; a span offered to a full queue is dropped and counted. Delivered are the
  spans of those requests that the collector answered with success; all the others sent are counted as
  failed exports, and of the delivered ones all but those the collector rejects are counted as
  exported.
\<close>

theorem spans_sent_once:
  assumes "ee_uri_ok env (ee_endpoint env)" "tracer_path env tracer_start evs w"
  shows "requested w @ map encode_span (in_transit w) = map encode_span (accepted evs) \<and>
    list_all (\<lambda>body. 0 < length (posted_spans body) \<and> length (posted_spans body) \<le> 512) (tw_posts w) \<and>
    length (tw_queue w) \<le> 4096 \<and>
    tw_queue_full w = length (filter (\<lambda>ev. case ev of Overflowed _ \<Rightarrow> True | _ \<Rightarrow> False) evs) \<and>
    subseq (delivered env w) (requested w) \<and> tw_export_failed w = length (requested w) - length (delivered env w) \<and>
    tw_exported w \<le> length (delivered env w) \<and> length (delivered env w) \<le> tw_exported w + tw_rejected w"
proof -
  have "requested tracer_start = []" "in_transit tracer_start = []" "tw_queue_full tracer_start = 0"
    by (simp_all add: tracer_start_def requested_def in_transit_def)
  moreover have "list_all (\<lambda>body. 0 < length (posted_spans body) \<and> length (posted_spans body) \<le> 512) (tw_posts w)"
    using tracer_path_inv [OF assms tracer_inv_start] by (simp add: tracer_inv_def post_ok_def [abs_def] MAX_BATCH_def)
  ultimately show ?thesis
    using tracer_path_inv [OF assms tracer_inv_start] delivered_subseq [of env w] by (auto simp: tracer_inv_def QUEUE_CAPACITY_def)
qed

section \<open>A flush waits for everything before it\<close>

text \<open>Either the flush is still queued behind the spans it waits for, or they have all been sent.\<close>

definition flush_waits :: "nat \<Rightarrow> json list \<Rightarrow> tracer_world \<Rightarrow> bool" where
  "flush_waits k before w \<longleftrightarrow>
     (\<exists>q1 q2. tw_queue w = q1 @ Flush k # q2 \<and> Flush k \<notin> set (q1 @ q2) \<and> k \<notin> set (tw_acks w) \<and>
        requested w @ map encode_span (tw_batch w @ concat (map queued_span q1)) = before) \<or>
     prefix before (requested w)"

lemma flush_waits_queue:
  assumes "tw_queue w = q1 @ Flush k # q2" "Flush k \<notin> set (q1 @ q2)" "k \<notin> set (tw_acks w)"
    "requested w @ map encode_span (tw_batch w @ concat (map queued_span q1)) = before"
  shows "flush_waits k before w"
  using assms unfolding flush_waits_def by blast

lemma flush_waits_sent: "prefix before (requested w) \<Longrightarrow> flush_waits k before w"
  by (simp add: flush_waits_def)

lemma requested_grows:
  assumes "ee_uri_ok env (ee_endpoint env)" "tracer_step env w ev w'"
  shows "prefix (requested w) (requested w')"
  using assms(2)
proof (induction rule: tracer_step.induct)
  case (received w cmd queue)
  have "requested (w\<lparr>tw_queue := queue, tw_batch := b\<rparr>) = requested w" "requested (w\<lparr>tw_queue := queue\<rparr>) = requested w" for b
    by (simp_all add: requested_def)
  moreover have "requested (w'\<lparr>tw_acks := x\<rparr>) = requested w'" for w' x by (simp add: requested_def)
  ultimately show ?case
    using export_requested [OF assms(1)] by (cases cmd) (auto simp: Let_def)
next
  case (closed w)
  have "requested (w'\<lparr>tw_running := x\<rparr>) = requested w'" for w' x by (simp add: requested_def)
  then show ?case using export_requested [OF assms(1)] by simp
next
  case (ticked w)
  then show ?case by (simp add: export_requested [OF assms(1)])
qed (auto simp: tracer_record_def requested_def)

lemma flush_waits_step:
  assumes "ee_uri_ok env (ee_endpoint env)" "tracer_step env w ev w'" "ev \<noteq> FlushQueued k" "flush_waits k before w"
  shows "flush_waits k before w'"
proof (cases "prefix before (requested w)")
  case True
  then show ?thesis
    using requested_grows [OF assms(1,2)] by (intro flush_waits_sent) (rule prefix_order.trans)
next
  case False
  then obtain q1 q2 where q: "tw_queue w = q1 @ Flush k # q2" "Flush k \<notin> set (q1 @ q2)" "k \<notin> set (tw_acks w)"
    "requested w @ map encode_span (tw_batch w @ concat (map queued_span q1)) = before"
    using assms(4) by (auto simp: flush_waits_def)
  note exp = export_requested [OF assms(1)]
  have same: "requested (w\<lparr>tw_queue := x, tw_batch := b\<rparr>) = requested w" "requested (w\<lparr>tw_queue := x\<rparr>) = requested w"
    "requested (w2\<lparr>tw_acks := y\<rparr>) = requested w2" for x b y w2
    by (simp_all add: requested_def)
  show ?thesis using assms(2)
  proof (cases rule: tracer_step.cases)
    case (recorded sp)
    with q show ?thesis
      by (intro flush_waits_queue [where ?q1.0 = q1 and ?q2.0 = "q2 @ [Span sp]"]) (auto simp: tracer_record_def requested_def)
  next
    case (overflowed sp)
    with q show ?thesis
      by (intro flush_waits_queue [where ?q1.0 = q1 and ?q2.0 = q2]) (auto simp: tracer_record_def requested_def)
  next
    case (flush_queued ack)
    with q assms(3) show ?thesis
      by (intro flush_waits_queue [where ?q1.0 = q1 and ?q2.0 = "q2 @ [Flush ack]"]) (auto simp: requested_def)
  next
    case (received cmd queue)
    show ?thesis
    proof (cases q1)
      case Nil
      then have "requested w' = before" using q received exp [of "w\<lparr>tw_queue := queue\<rparr>"] same by (auto simp: Let_def)
      then show ?thesis by (intro flush_waits_sent) simp
    next
      case (Cons c q1')
      then have c: "cmd = c" "queue = q1' @ Flush k # q2" using q received by auto
      show ?thesis
      proof (cases c)
        case (Span sp)
        with q Cons received c show ?thesis
          using exp [of "w\<lparr>tw_queue := queue, tw_batch := tw_batch w @ [sp]\<rparr>"] same
          by (intro flush_waits_queue [where ?q1.0 = q1' and ?q2.0 = q2]) (auto simp: Let_def)
      next
        case (Flush ack)
        with q Cons received c show ?thesis
          using exp [of "w\<lparr>tw_queue := queue\<rparr>"] same
          by (intro flush_waits_queue [where ?q1.0 = q1' and ?q2.0 = q2]) (auto simp: Let_def)
      qed
    qed
  next
    case ticked
    with q exp [of w] show ?thesis
      by (intro flush_waits_queue [where ?q1.0 = q1 and ?q2.0 = q2]) auto
  next
    case closed
    with q show ?thesis by simp
  qed
qed

text \<open>An acknowledged flush is no longer queued.\<close>

lemma flush_acked_sent: "flush_waits k before w \<Longrightarrow> k \<in> set (tw_acks w) \<Longrightarrow> prefix before (requested w)"
  by (auto simp: flush_waits_def)

lemma flush_waits_path:
  assumes "ee_uri_ok env (ee_endpoint env)" "tracer_path env w evs w'" "FlushQueued k \<notin> set evs" "flush_waits k before w"
  shows "flush_waits k before w'"
  using assms(2-)
proof (induction rule: tracer_path.induct)
  case (path_snoc w evs w1 ev w2)
  then show ?case using flush_waits_step [OF assms(1) path_snoc.hyps(2)] by auto
qed simp

text \<open>
  When a flush is acknowledged, every span accepted before the flush was asked for is in a request
  that has been made, in the order of acceptance, ahead of anything recorded later.
\<close>

theorem flush_complete:
  assumes "ee_uri_ok env (ee_endpoint env)" "tracer_path env tracer_start evs w"
    and "tracer_step env w (FlushQueued k) w1" "Flush k \<notin> set (tw_queue w)" "k \<notin> set (tw_acks w)"
    and "tracer_path env w1 evs' w'" "FlushQueued k \<notin> set evs'" "k \<in> set (tw_acks w')"
  shows "prefix (map encode_span (accepted evs)) (requested w')"
proof -
  have w1: "w1 = w\<lparr>tw_queue := tw_queue w @ [Flush k]\<rparr>" using assms(3) by (cases rule: tracer_step.cases) simp
  have "requested tracer_start = []" "in_transit tracer_start = []"
    by (simp_all add: tracer_start_def requested_def in_transit_def)
  then have "requested w @ map encode_span (in_transit w) = map encode_span (accepted evs)"
    using tracer_path_inv [OF assms(1,2) tracer_inv_start] by simp
  then have "flush_waits k (map encode_span (accepted evs)) w1"
    using assms(4,5) by (intro flush_waits_queue [where ?q1.0 = "tw_queue w" and ?q2.0 = "[]"])
      (auto simp: w1 in_transit_def requested_def)
  from flush_acked_sent [OF flush_waits_path [OF assms(1,6,7) this] assms(8)] show ?thesis .
qed

section \<open>The encoding loses nothing\<close>

definition dec_value :: "string \<Rightarrow> nat" where
  "dec_value s = foldl (\<lambda>a c. a * 10 + (code c - 48)) 0 s"

lemma dec_value_dec_string: "dec_value (dec_string n) = n"
proof (induction n rule: dec_string.induct)
  case (1 n)
  show ?case
  proof (cases "n < 10")
    case True
    then show ?thesis by (subst dec_string.simps) (simp add: dec_value_def code_digit_char)
  next
    case False
    with 1 show ?thesis by (subst dec_string.simps) (simp add: dec_value_def code_digit_char)
  qed
qed

lemma dec_string_inj: "dec_string m = dec_string n \<longleftrightarrow> m = n"
  by (metis dec_value_dec_string)

lemma dec_string_no_minus: "CHR ''-'' # s \<noteq> dec_string n"
  using dec_string_digits [of "CHR ''-''" n] by (auto simp: eq_commute)

lemma dec_int_inj: "dec_int i = dec_int j \<longleftrightarrow> i = j"
  using dec_string_no_minus dec_string_no_minus [symmetric] by (auto simp: dec_int_def dec_string_inj)

lemma encode_value_inj: "encode_value a = encode_value b \<longleftrightarrow> a = b"
  by (cases a; cases b) (auto simp: dec_int_inj)

lemma encode_attributes_inj: "encode_attributes xs = encode_attributes ys \<longleftrightarrow> xs = ys"
proof -
  have "inj (\<lambda>(key, value). JObj [(''key'', JStr key), (''value'', encode_value value)])"
    by (auto simp: inj_def encode_value_inj)
  then show ?thesis unfolding encode_attributes_def by (simp add: inj_map_eq_map)
qed

lemma unix_nanos_inj: "0 \<le> s \<Longrightarrow> 0 \<le> t \<Longrightarrow> unix_nanos s = unix_nanos t \<longleftrightarrow> s = t"
  by (auto simp: unix_nanos_def dec_string_inj)

lemma encode_event_inj: "0 \<le> ev_time e \<Longrightarrow> 0 \<le> ev_time f \<Longrightarrow> encode_event e = encode_event f \<longleftrightarrow> e = f"
  by (cases e; cases f) (auto simp: encode_event_def unix_nanos_inj encode_attributes_inj)

lemma encode_events_inj:
  "list_all (\<lambda>e. 0 \<le> ev_time e) es \<Longrightarrow> list_all (\<lambda>e. 0 \<le> ev_time e) fs \<Longrightarrow>
   map encode_event es = map encode_event fs \<longleftrightarrow> es = fs"
proof (induction es arbitrary: fs)
  case (Cons e es)
  then show ?case by (cases fs) (auto simp: encode_event_inj)
qed auto

lemma encode_status_inj: "encode_status a = encode_status b \<longleftrightarrow> a = b"
  by (cases a; cases b) (auto simp: encode_status_def)

definition span_times_ok :: "SpanRecord \<Rightarrow> bool" where
  "span_times_ok sp \<longleftrightarrow> 0 \<le> sp_start sp \<and> 0 \<le> sp_end sp \<and> list_all (\<lambda>e. 0 \<le> ev_time e) (sp_events sp)"

lemma span_kind_inj: "(a :: SpanKind) = b"
  by (cases a; cases b) simp

text \<open>
  The OTLP encoding determines the span: two spans stamped after the epoch with the same JSON are
  the same span, so a collector can read back every field.
\<close>

theorem encode_span_inj:
  assumes "span_times_ok a" "span_times_ok b" "encode_span a = encode_span b"
  shows "a = b"
proof -
  have "sp_trace_id a = sp_trace_id b" "sp_span_id a = sp_span_id b" "sp_name a = sp_name b"
    "unix_nanos (sp_start a) = unix_nanos (sp_start b)" "unix_nanos (sp_end a) = unix_nanos (sp_end b)"
    "encode_attributes (sp_attributes a) = encode_attributes (sp_attributes b)"
    "encode_status (sp_error a) = encode_status (sp_error b)"
    using assms(3) by (simp_all add: encode_span_def)
  moreover have "sp_parent_span_id a = sp_parent_span_id b"
    "map encode_event (sp_events a) = map encode_event (sp_events b)"
    using assms(3) by (auto simp: encode_span_def split: option.splits if_splits)
  moreover have "sp_kind a = sp_kind b" by (rule span_kind_inj)
  ultimately show ?thesis
    using assms(1,2) by (intro SpanRecord.equality)
      (auto simp: span_times_ok_def unix_nanos_inj encode_attributes_inj encode_status_inj encode_events_inj)
qed

section \<open>A concrete exporter\<close>

definition sample_span :: SpanRecord where
  "sample_span = \<lparr>sp_trace_id = ''a1'', sp_span_id = ''b2'', sp_parent_span_id = None, sp_name = ''GET api'',
     sp_kind = Client, sp_start = 5, sp_end = 9, sp_attributes = [(''n'', AttrInt (-3))], sp_events = [], sp_error = None\<rparr>"

definition sample_export :: export_env where
  "sample_export = \<lparr>ee_endpoint = ''http://c'', ee_resource = [], ee_uri_ok = (\<lambda>_. True),
     ee_post = (\<lambda>_. Some (200, None)), ee_json = (\<lambda>_. None)\<rparr>"

definition recorded_world :: tracer_world where
  "recorded_world = tracer_start\<lparr>tw_queue := [Span sample_span]\<rparr>"

lemma sample_recorded: "tracer_path sample_export tracer_start [Recorded sample_span] recorded_world"
proof -
  have "tracer_record sample_span tracer_start = recorded_world"
    by (simp add: tracer_record_def tracer_start_def recorded_world_def QUEUE_CAPACITY_def)
  then have "tracer_step sample_export tracer_start (Recorded sample_span) recorded_world"
    using tracer_step.recorded [of tracer_start sample_export sample_span]
    by (simp add: tracer_start_def QUEUE_CAPACITY_def)
  from path_snoc [OF path_nil this] show ?thesis by simp
qed

lemma sample_uri: "ee_uri_ok sample_export (ee_endpoint sample_export)"
  by (simp add: sample_export_def)

text \<open>The only request is answered with an error: its span is not delivered, and is counted.\<close>

definition failing_export :: export_env where
  "failing_export = sample_export\<lparr>ee_post := (\<lambda>_. Some (503, None))\<rparr>"

theorem spans_sent_once_witness:
  "\<exists>w. tracer_path failing_export tracer_start [Recorded sample_span, Dequeued, Ticked] w \<and>
     requested w = [encode_span sample_span] \<and> delivered failing_export w = [] \<and> tw_export_failed w = 1"
proof -
  let ?a = "exporter_recv failing_export (Span sample_span) tracer_start"
  let ?w = "export failing_export ?a"
  have uri: "ee_uri_ok failing_export (ee_endpoint failing_export)" by (simp add: failing_export_def sample_export_def)
  have "tracer_record sample_span tracer_start = recorded_world"
    by (simp add: tracer_record_def tracer_start_def recorded_world_def QUEUE_CAPACITY_def)
  then have "tracer_step failing_export tracer_start (Recorded sample_span) recorded_world"
    using tracer_step.recorded [of tracer_start failing_export sample_span]
    by (simp add: tracer_start_def QUEUE_CAPACITY_def)
  from path_snoc [OF path_nil this] have 1: "tracer_path failing_export tracer_start [Recorded sample_span] recorded_world" by simp
  have "tracer_step failing_export recorded_world Dequeued ?a"
    using tracer_step.received [of recorded_world "Span sample_span" "[]" failing_export]
    by (simp add: recorded_world_def tracer_start_def)
  from path_snoc [OF 1 this]
  have 2: "tracer_path failing_export tracer_start [Recorded sample_span, Dequeued] ?a" by simp
  have "tracer_step failing_export ?a Ticked ?w"
    by (rule tracer_step.ticked) (simp add: tracer_start_def MAX_BATCH_def)
  from path_snoc [OF 2 this] have 3: "tracer_path failing_export tracer_start [Recorded sample_span, Dequeued, Ticked] ?w" by simp
  have "in_transit ?w = []" by (simp add: in_transit_def tracer_start_def MAX_BATCH_def)
  moreover have "accepted [Recorded sample_span, Dequeued, Ticked] = [sample_span]" by (simp add: accepted_def)
  ultimately have r: "requested ?w = [encode_span sample_span]" using spans_sent_once [OF uri 3] by simp
  have d: "delivered failing_export ?w = []"
    by (simp add: delivered_def answered_ok_def failing_export_def enumerate_eq_zip)
  have "tw_export_failed ?w = length (requested ?w) - length (delivered failing_export ?w)"
    using spans_sent_once [OF uri 3] by blast
  then have "tw_export_failed ?w = 1" unfolding r d by simp
  with 3 r d show ?thesis by blast
qed

definition flushing_world :: tracer_world where
  "flushing_world = recorded_world\<lparr>tw_queue := tw_queue recorded_world @ [Flush 7]\<rparr>"

definition drained_world :: tracer_world where
  "drained_world = exporter_recv sample_export (Flush 7)
     (exporter_recv sample_export (Span sample_span) (flushing_world\<lparr>tw_queue := [Flush 7]\<rparr>)\<lparr>tw_queue := []\<rparr>)"

lemma sample_flush: "tracer_step sample_export recorded_world (FlushQueued 7) flushing_world"
  unfolding flushing_world_def
  by (rule tracer_step.flush_queued) (simp_all add: recorded_world_def tracer_start_def QUEUE_CAPACITY_def)

lemma sample_drained: "tracer_path sample_export flushing_world [Dequeued, Dequeued] drained_world"
proof -
  let ?w = "exporter_recv sample_export (Span sample_span) (flushing_world\<lparr>tw_queue := [Flush 7]\<rparr>)"
  have 1: "tracer_step sample_export flushing_world Dequeued ?w"
    by (rule tracer_step.received) (simp_all add: flushing_world_def recorded_world_def tracer_start_def)
  have 2: "tracer_step sample_export ?w Dequeued drained_world"
    unfolding drained_world_def
    by (rule tracer_step.received) (simp_all add: flushing_world_def recorded_world_def tracer_start_def MAX_BATCH_def)
  from path_snoc [OF path_snoc [OF path_nil 1] 2] show ?thesis by simp
qed

theorem flush_complete_witness:
  "7 \<in> set (tw_acks drained_world) \<and> prefix [encode_span sample_span] (requested drained_world)"
proof -
  have acks: "7 \<in> set (tw_acks drained_world)" by (simp add: drained_world_def)
  have "Flush 7 \<notin> set (tw_queue recorded_world)" "7 \<notin> set (tw_acks recorded_world)"
    by (simp_all add: recorded_world_def tracer_start_def)
  from flush_complete [OF sample_uri sample_recorded sample_flush this sample_drained _ acks] acks
  show ?thesis by simp
qed

theorem encode_span_inj_witness:
  "span_times_ok sample_span \<and> sample_span = sample_span\<lparr>sp_name := ''GET'' @ '' api''\<rparr>"
proof -
  have t: "span_times_ok sample_span" "span_times_ok (sample_span\<lparr>sp_name := ''GET'' @ '' api''\<rparr>)"
    by (simp_all add: span_times_ok_def sample_span_def)
  have "encode_span sample_span = encode_span (sample_span\<lparr>sp_name := ''GET'' @ '' api''\<rparr>)"
    by (simp add: encode_span_def sample_span_def)
  from conjI [OF t(1) encode_span_inj [OF t this]] show ?thesis .
qed

end
