(* ===== verification/Http_Proxy.thy ===== *)
theory Http_Proxy
  imports Proxy Http_Parts Telemetry
begin

text \<open>
  The HTTP proxy of one service (\<^verbatim>\<open>src/subscribe/http.rs\<close>): request bodies, the attempts over
  several nodes, and the handling of a whole request. What the HTTP client answers to the n-th attempt
  is a parameter, with the time it takes, as are the clocks and the random draws. The client's own
  connection pool, the copying of bodies and of upgraded streams, logs and metrics are outside.
\<close>

section \<open>Bodies, responses and the attempt log\<close>

record Incoming =
  inc_end_stream :: bool
  inc_upper :: "nat option"
  inc_collect :: "string + string"

datatype RequestBody = Replayable string | Stream "Incoming option"

datatype sent_body = SentBytes string | SentStream Incoming

definition MAX_BUFFERED_BODY :: nat where
  "MAX_BUFFERED_BODY = 64 * 1024"

definition prepare :: "Incoming \<Rightarrow> string + RequestBody" where
  "prepare body =
     (if inc_end_stream body then Inr (Replayable [])
      else if (case inc_upper body of Some n \<Rightarrow> n \<le> MAX_BUFFERED_BODY | None \<Rightarrow> False)
      then (case inc_collect body of Inl e \<Rightarrow> Inl e | Inr bs \<Rightarrow> Inr (Replayable bs))
      else Inr (Stream (Some body)))"

fun is_replayable :: "RequestBody \<Rightarrow> bool" where
  "is_replayable (Replayable _) = True"
| "is_replayable (Stream _) = False"

fun for_attempt :: "RequestBody \<Rightarrow> RequestBody \<times> sent_body option" where
  "for_attempt (Replayable bs) = (Replayable bs, Some (SentBytes bs))"
| "for_attempt (Stream body) = (Stream None, map_option SentStream body)"

record Response =
  re_status :: nat
  re_headers :: header_map
  re_body :: string

datatype Outcome = OutResponse Response string string | OutError nat string

record AttemptLog =
  al_tried :: "string list"
  al_last_err :: "string option"
  al_events :: "SpanEvent list"

definition empty_log :: AttemptLog where
  "empty_log = \<lparr>al_tried = [], al_last_err = None, al_events = []\<rparr>"

definition ERROR_HEADER :: string where
  "ERROR_HEADER = ''x-stouter-error''"

definition error_response :: "nat \<Rightarrow> string \<Rightarrow> Response" where
  "error_response status reason =
     \<lparr>re_status = status,
      re_headers = header_insert (header_insert [] ERROR_HEADER reason) ''content-type'' ''text/plain'',
      re_body = reason @ [CHR 0x0A]\<rparr>"

section \<open>Attempts\<close>

record Parts =
  pt_method :: string
  pt_headers :: header_map

record Upstream =
  up_method :: string
  up_uri :: string
  up_headers :: header_map
  up_body :: sent_body

datatype client_result = ClientOk Response | ConnectFailed string | SendFailed string

text \<open>
  \<open>he_send n req\<close> is the time the client takes for the n-th attempt and its result;
  \<open>he_uri_ok\<close> says whether the URI parser accepts an upstream URI.
\<close>

record http_env =
  he_now :: "nat \<Rightarrow> instant"
  he_failed_at :: "nat \<Rightarrow> instant"
  he_wall :: "nat \<Rightarrow> int"
  he_uri_ok :: "string \<Rightarrow> bool"
  he_send :: "nat \<Rightarrow> Upstream \<Rightarrow> duration \<times> client_result"

text \<open>
  What the attempts change: the balancer, the retry budget, the body, the log, the response kept in
  case nothing better comes, and the requests handed to the client so far.
\<close>

record attempt_state =
  as_inner :: Inner
  as_budget :: rat
  as_body :: RequestBody
  as_log :: AttemptLog
  as_fallback :: "Outcome option"
  as_sends :: "(string \<times> Upstream) list"

abbreviation as_tried :: "attempt_state \<Rightarrow> string list" where
  "as_tried s \<equiv> al_tried (as_log s)"

definition release :: "attempt_state \<Rightarrow> string \<Rightarrow> attempt_state" where
  "release s slot = s\<lparr>as_inner := drop_slot (as_inner s) slot\<rparr>"

definition release_outcome :: "attempt_state \<Rightarrow> Outcome option \<Rightarrow> attempt_state" where
  "release_outcome s out = (case out of Some (OutResponse _ slot _) \<Rightarrow> release s slot | _ \<Rightarrow> s)"

definition push_event :: "attempt_state \<Rightarrow> int \<Rightarrow> Attributes \<Rightarrow> attempt_state" where
  "push_event s time attrs =
     s\<lparr>as_log := (as_log s)\<lparr>al_events := al_events (as_log s) @
        [\<lparr>ev_time = time, ev_name = ''attempt_failed'', ev_attributes = attrs\<rparr>]\<rparr>\<rparr>"

definition set_last_err :: "attempt_state \<Rightarrow> string \<Rightarrow> attempt_state" where
  "set_last_err s e = s\<lparr>as_log := (as_log s)\<lparr>al_last_err := Some e\<rparr>\<rparr>"

text \<open>Assigning \<open>fallback\<close> drops the response it held, and with it that response's slot.\<close>

definition set_fallback :: "attempt_state \<Rightarrow> Outcome \<Rightarrow> attempt_state" where
  "set_fallback s out = (release_outcome s (as_fallback s))\<lparr>as_fallback := Some out\<rparr>"

definition unreachable :: Outcome where
  "unreachable = OutError 502 ''no_backend_reachable''"

definition timed_out :: "duration option \<Rightarrow> duration \<Rightarrow> bool" where
  "timed_out limit took = (case limit of Some l \<Rightarrow> l < took | None \<Rightarrow> False)"

text \<open>What is done with the client's result; no outcome means the loop goes round again.\<close>

definition handle_result ::
  "http_env \<Rightarrow> Parts \<Rightarrow> nat \<Rightarrow> nat \<Rightarrow> string \<Rightarrow> string \<Rightarrow> client_result \<Rightarrow> attempt_state \<Rightarrow> attempt_state \<times> Outcome option" where
  "handle_result env parts max_attempts n node_id slot result s =
     (case result of
        ClientOk resp \<Rightarrow>
          let s1 = s\<lparr>as_inner := record_success (as_inner s) node_id\<rparr>;
              out = OutResponse resp slot node_id in
          if \<not> is_retryable_status (re_status resp) \<or> \<not> is_idempotent (pt_method parts) \<or>
             \<not> is_replayable (as_body s) \<or> length (as_tried s) \<ge> max_attempts
          then (s1, Some out)
          else (case budget_try_withdraw (as_budget s1) of
                  (b, False) \<Rightarrow> (s1\<lparr>as_budget := b\<rparr>, Some out)
                | (b, True) \<Rightarrow>
                    (set_fallback (push_event (s1\<lparr>as_budget := b\<rparr>) (he_wall env n)
                       [(''stouter.node'', AttrStr node_id), (''http.response.status_code'', AttrInt (int (re_status resp)))])
                       out, None))
      | ConnectFailed e \<Rightarrow>
          let s1 = s\<lparr>as_inner := fst (record_failure (as_inner s) node_id (he_failed_at env n))\<rparr>;
              s2 = push_event s1 (he_wall env n) [(''stouter.node'', AttrStr node_id), (''error.type'', AttrStr ''connect_failed'')];
              s3 = set_last_err s2 e in
          if \<not> is_replayable (as_body s) then (release s3 slot, Some unreachable) else (release s3 slot, None)
      | SendFailed e \<Rightarrow> (release (set_last_err s e) slot, Some (OutError 502 ''upstream_error'')))"

definition upstream_request :: "Parts \<Rightarrow> string \<Rightarrow> string \<Rightarrow> sent_body \<Rightarrow> Upstream" where
  "upstream_request parts path_and_query node_id body =
     \<lparr>up_method = pt_method parts, up_uri = node_uri node_id path_and_query, up_headers = pt_headers parts, up_body = body\<rparr>"

text \<open>One turn of the attempt loop.\<close>

definition attempt_once ::
  "http_env \<Rightarrow> Parts \<Rightarrow> string \<Rightarrow> Backend list \<Rightarrow> nat \<Rightarrow> attempt_state \<Rightarrow> attempt_state \<times> Outcome option" where
  "attempt_once env parts path_and_query backends max_attempts s =
     (if length (as_tried s) \<ge> max_attempts then (s, Some unreachable)
      else
        (case pick (as_inner s) backends (as_tried s) (he_now env (length (as_tried s))) of
           (inner1, AllTried) \<Rightarrow> (s\<lparr>as_inner := inner1\<rparr>, Some unreachable)
         | (inner1, AtCapacity) \<Rightarrow>
             (s\<lparr>as_inner := inner1\<rparr>,
              Some (if as_tried s = [] then OutError 503 ''circuit_open'' else unreachable))
         | (inner1, Chosen idx slot) \<Rightarrow>
             let n = length (as_tried s);
                 backend = backends ! idx;
                 node_id = bk_id backend;
                 s1 = s\<lparr>as_inner := inner1, as_log := (as_log s)\<lparr>al_tried := as_tried s @ [node_id]\<rparr>\<rparr> in
             if \<not> he_uri_ok env (node_uri node_id path_and_query) then (release s1 slot, Some unreachable)
             else
               (case for_attempt (as_body s1) of
                  (body, None) \<Rightarrow> (release (s1\<lparr>as_body := body\<rparr>) slot, Some unreachable)
                | (body, Some req_body) \<Rightarrow>
                    let upstream = upstream_request parts path_and_query node_id req_body;
                        s2 = s1\<lparr>as_body := body, as_sends := as_sends s1 @ [(node_id, upstream)]\<rparr> in
                    (case he_send env n upstream of
                       (took, result) \<Rightarrow>
                         if timed_out (bk_request_timeout backend) took
                         then (release s2 slot, Some (OutError 504 ''timeout''))
                         else handle_result env parts max_attempts n node_id slot result s2))))"

lemma release_simps [simp]:
  "as_log (release s slot) = as_log s" "as_body (release s slot) = as_body s" "as_sends (release s slot) = as_sends s"
  "as_fallback (release s slot) = as_fallback s" "as_budget (release s slot) = as_budget s"
  "as_inner (release s slot) = drop_slot (as_inner s) slot"
  by (simp_all add: release_def)

lemma release_outcome_simps [simp]:
  "as_log (release_outcome s out) = as_log s" "as_body (release_outcome s out) = as_body s"
  "as_sends (release_outcome s out) = as_sends s" "as_fallback (release_outcome s out) = as_fallback s"
  "as_budget (release_outcome s out) = as_budget s"
  by (simp_all add: release_outcome_def split: option.splits Outcome.splits)

lemma log_simps [simp]:
  "as_tried (push_event s t attrs) = as_tried s" "as_body (push_event s t attrs) = as_body s"
  "as_sends (push_event s t attrs) = as_sends s" "as_fallback (push_event s t attrs) = as_fallback s"
  "as_inner (push_event s t attrs) = as_inner s" "as_budget (push_event s t attrs) = as_budget s"
  "as_tried (set_last_err s e) = as_tried s" "as_body (set_last_err s e) = as_body s"
  "as_sends (set_last_err s e) = as_sends s" "as_fallback (set_last_err s e) = as_fallback s"
  "as_inner (set_last_err s e) = as_inner s" "as_budget (set_last_err s e) = as_budget s"
  "as_tried (set_fallback s out) = as_tried s" "as_body (set_fallback s out) = as_body s"
  "as_sends (set_fallback s out) = as_sends s" "as_fallback (set_fallback s out) = Some out"
  "as_budget (set_fallback s out) = as_budget s"
  by (simp_all add: push_event_def set_last_err_def set_fallback_def)

lemma handle_result_frame:
  assumes "handle_result env parts m n node_id slot result s = (s', out)"
  shows "as_tried s' = as_tried s" "as_sends s' = as_sends s" "as_body s' = as_body s"
  using assms by (auto simp: handle_result_def Let_def split: client_result.splits if_splits prod.splits bool.splits)

lemma attempt_once_goes_on:
  assumes "attempt_once env parts pq bs m s = (s', None)"
  shows "length (as_tried s') = Suc (length (as_tried s)) \<and> length (as_tried s) < m"
proof -
  have m: "length (as_tried s) < m" using assms by (auto simp: attempt_once_def split: if_splits)
  moreover have "length (as_tried s') = Suc (length (as_tried s))"
    using assms m
    by (auto simp: attempt_once_def Let_def split: prod.splits Pick.splits if_splits option.splits dest!: handle_result_frame(1))
  ultimately show ?thesis by simp
qed

function attempt_loop ::
  "http_env \<Rightarrow> Parts \<Rightarrow> string \<Rightarrow> Backend list \<Rightarrow> nat \<Rightarrow> attempt_state \<Rightarrow> attempt_state \<times> Outcome" where
  "attempt_loop env parts path_and_query backends max_attempts s =
     (case attempt_once env parts path_and_query backends max_attempts s of
        (s', Some out) \<Rightarrow> (s', out)
      | (s', None) \<Rightarrow> attempt_loop env parts path_and_query backends max_attempts s')"
  by pat_completeness auto

termination
  by (relation "measure (\<lambda>(env, parts, pq, bs, m, s). m - length (as_tried s))")
    (auto dest: attempt_once_goes_on [OF sym])

declare attempt_loop.simps [simp del]

text \<open>A real backend answer beats a proxy-generated error.\<close>

definition prefer_answer :: "attempt_state \<Rightarrow> Outcome \<Rightarrow> attempt_state \<times> Outcome" where
  "prefer_answer s out =
     (case (out, as_fallback s) of
        (OutError _ _, Some fb) \<Rightarrow> (s, fb)
      | _ \<Rightarrow> (release_outcome s (as_fallback s), out))"

definition attempt_candidates :: "string \<Rightarrow> SharedState \<Rightarrow> string_map option \<Rightarrow> Backend list" where
  "attempt_candidates service_name st sel =
     (case sel of
        Some labels \<Rightarrow> filter (\<lambda>b. labels_match (bk_labels b) labels) (service_backends service_name st)
      | None \<Rightarrow> service_backends service_name st)"

definition attempt ::
  "http_env \<Rightarrow> string \<Rightarrow> SharedState \<Rightarrow> instant \<Rightarrow> Parts \<Rightarrow> string \<Rightarrow> string_map option \<Rightarrow> attempt_state \<Rightarrow> attempt_state \<times> Outcome" where
  "attempt env service_name st now parts path_and_query sel s =
     (let s1 = s\<lparr>as_inner := retain_nodes (as_inner s) (service_backends service_name st)\<rparr>;
          candidates = attempt_candidates service_name st sel in
      if candidates = [] \<and> sel \<noteq> None then (s1, OutError 503 ''no_route_backend'')
      else
        let backends = prefer_healthy candidates service_name st now;
            max_attempts = min (length backends) MAX_TUNNEL_ATTEMPTS;
            (s2, out) = attempt_loop env parts path_and_query backends max_attempts (s1\<lparr>as_fallback := None\<rparr>)
        in prefer_answer s2 out)"

section \<open>The loop, turn by turn\<close>

text \<open>An invariant that every continuing turn keeps holds before the turn that ends the loop.\<close>

lemma attempt_loop_last:
  assumes "P s" "\<And>s s'. P s \<Longrightarrow> attempt_once env parts pq bs m s = (s', None) \<Longrightarrow> P s'"
  shows "\<exists>s1 s' out. P s1 \<and> attempt_once env parts pq bs m s1 = (s', Some out) \<and>
    attempt_loop env parts pq bs m s = (s', out)"
  using assms
proof (induction env parts pq bs m s rule: attempt_loop.induct)
  case (1 env parts pq bs m s)
  obtain s' r where o: "attempt_once env parts pq bs m s = (s', r)" by fastforce
  show ?case
  proof (cases r)
    case None
    with o "1.prems" have "P s'" by blast
    with "1.IH" [OF o [symmetric] None] "1.prems"(2) o None show ?thesis
      by (subst attempt_loop.simps) simp
  next
    case (Some out)
    with o "1.prems"(1) show ?thesis by (subst attempt_loop.simps) auto
  qed
qed

definition chosen_state :: "attempt_state \<Rightarrow> Inner \<Rightarrow> string \<Rightarrow> attempt_state" where
  "chosen_state s inner1 node_id =
     s\<lparr>as_inner := inner1, as_log := (as_log s)\<lparr>al_tried := as_tried s @ [node_id]\<rparr>\<rparr>"

definition sent_state :: "attempt_state \<Rightarrow> Inner \<Rightarrow> string \<Rightarrow> RequestBody \<Rightarrow> Upstream \<Rightarrow> attempt_state" where
  "sent_state s inner1 node_id body up =
     (chosen_state s inner1 node_id)\<lparr>as_body := body, as_sends := as_sends s @ [(node_id, up)]\<rparr>"

lemma sent_state_simps [simp]:
  "as_inner (chosen_state s inner1 node_id) = inner1" "as_tried (chosen_state s inner1 node_id) = as_tried s @ [node_id]"
  "as_sends (chosen_state s inner1 node_id) = as_sends s" "as_fallback (chosen_state s inner1 node_id) = as_fallback s"
  "as_inner (sent_state s inner1 node_id body up) = inner1"
  "as_tried (sent_state s inner1 node_id body up) = as_tried s @ [node_id]"
  "as_sends (sent_state s inner1 node_id body up) = as_sends s @ [(node_id, up)]"
  "as_fallback (sent_state s inner1 node_id body up) = as_fallback s"
  "as_body (sent_state s inner1 node_id body up) = body"
  by (simp_all add: chosen_state_def sent_state_def)

lemma attempt_once_cases:
  assumes "attempt_once env parts pq bs m s = (s', r)"
  obtains
    (stop) c e where "r = Some (OutError c e)" "s' = s"
  | (unsent) i inner1 where "pick (as_inner s) bs (as_tried s) (he_now env (length (as_tried s))) = (inner1, Chosen i (bk_id (bs ! i)))"
      "length (as_tried s) < m" "r = Some unreachable" "as_sends s' = as_sends s" "as_fallback s' = as_fallback s"
      "as_inner s' = drop_slot inner1 (bk_id (bs ! i))"
  | (late) i inner1 body b up took result where
      "pick (as_inner s) bs (as_tried s) (he_now env (length (as_tried s))) = (inner1, Chosen i (bk_id (bs ! i)))"
      "length (as_tried s) < m" "for_attempt (as_body s) = (body, Some b)"
      "up = upstream_request parts pq (bk_id (bs ! i)) b" "he_send env (length (as_tried s)) up = (took, result)"
      "timed_out (bk_request_timeout (bs ! i)) took" "r = Some (OutError 504 ''timeout'')"
      "s' = release (sent_state s inner1 (bk_id (bs ! i)) body up) (bk_id (bs ! i))"
  | (answered) i inner1 body b up took result where
      "pick (as_inner s) bs (as_tried s) (he_now env (length (as_tried s))) = (inner1, Chosen i (bk_id (bs ! i)))"
      "length (as_tried s) < m" "for_attempt (as_body s) = (body, Some b)"
      "up = upstream_request parts pq (bk_id (bs ! i)) b" "he_send env (length (as_tried s)) up = (took, result)"
      "\<not> timed_out (bk_request_timeout (bs ! i)) took"
      "handle_result env parts m (length (as_tried s)) (bk_id (bs ! i)) (bk_id (bs ! i)) result
         (sent_state s inner1 (bk_id (bs ! i)) body up) = (s', r)"
proof (cases "length (as_tried s) < m")
  case False
  with assms stop show ?thesis by (auto simp: attempt_once_def unreachable_def)
next
  case True
  obtain inner1 p where p: "pick (as_inner s) bs (as_tried s) (he_now env (length (as_tried s))) = (inner1, p)" by fastforce
  note once = assms [unfolded attempt_once_def p Let_def]
  show ?thesis
  proof (cases p)
    case AllTried
    then have "inner1 = as_inner s" using p by (auto simp: pick_eq Let_def split: if_splits)
    with once AllTried True stop show ?thesis by (auto simp: unreachable_def)
  next
    case AtCapacity
    then have "inner1 = as_inner s" using p by (auto simp: pick_eq Let_def split: if_splits)
    with once AtCapacity True stop show ?thesis by (auto simp: unreachable_def split: if_splits)
  next
    case (Chosen i slot)
    let ?id = "bk_id (bs ! i)"
    have slot: "slot = ?id" using pick_Chosen(4) [OF p [unfolded Chosen]] by simp
    note pk = p [unfolded Chosen slot]
    note ch = once [unfolded Chosen slot]
    obtain body ob where f: "for_attempt (as_body s) = (body, ob)" by fastforce
    show ?thesis
    proof (cases "he_uri_ok env (node_uri ?id pq) \<and> ob \<noteq> None")
      case False
      with ch f True show ?thesis by (intro unsent [OF pk True]) (auto split: if_splits)
    next
      case ok: True
      then obtain b where b: "ob = Some b" by auto
      let ?up = "upstream_request parts pq ?id b"
      obtain took result where snd: "he_send env (length (as_tried s)) ?up = (took, result)" by fastforce
      show ?thesis
      proof (cases "timed_out (bk_request_timeout (bs ! i)) took")
        case late: True
        then show ?thesis
          using ch f ok b snd True that(3) [OF pk True f [unfolded b] refl snd late]
          by (auto simp: sent_state_def chosen_state_def)
      next
        case nlate: False
        then show ?thesis
          using ch f ok b snd True that(4) [OF pk True f [unfolded b] refl snd nlate]
          by (auto simp: sent_state_def chosen_state_def)
      qed
    qed
  qed
qed

section \<open>When a request is sent again, and what is answered\<close>

definition limit_of :: "Backend list \<Rightarrow> string \<Rightarrow> duration option" where
  "limit_of bs node_id = Option.bind (find (\<lambda>b. bk_id b = node_id) bs) bk_request_timeout"

text \<open>The answer a node gave in time to the k-th request, if it gave one.\<close>

definition answer_of :: "http_env \<Rightarrow> Backend list \<Rightarrow> nat \<Rightarrow> string \<times> Upstream \<Rightarrow> Outcome option" where
  "answer_of env bs k send =
     (case send of (node_id, up) \<Rightarrow>
        case he_send env k up of (took, result) \<Rightarrow>
          if timed_out (limit_of bs node_id) took then None
          else (case result of ClientOk resp \<Rightarrow> Some (OutResponse resp node_id node_id) | _ \<Rightarrow> None))"

definition answers :: "http_env \<Rightarrow> Backend list \<Rightarrow> (string \<times> Upstream) list \<Rightarrow> Outcome list" where
  "answers env bs sends =
     concat (map (\<lambda>(k, send). case answer_of env bs k send of Some a \<Rightarrow> [a] | None \<Rightarrow> []) (enumerate 0 sends))"

text \<open>
  It is safe to send the request to another node: the first one was never reached, or it refused with
  502, 503 or 504 a request of an idempotent method.
\<close>

definition may_resend :: "http_env \<Rightarrow> string \<Rightarrow> nat \<Rightarrow> string \<times> Upstream \<Rightarrow> bool" where
  "may_resend env meth k send \<longleftrightarrow>
     (case snd (he_send env k (snd send)) of
        ConnectFailed _ \<Rightarrow> True
      | ClientOk resp \<Rightarrow> is_retryable_status (re_status resp) \<and> is_idempotent meth
      | SendFailed _ \<Rightarrow> False)"

definition sends_ok ::
  "http_env \<Rightarrow> Parts \<Rightarrow> string \<Rightarrow> Backend list \<Rightarrow> nat \<Rightarrow> RequestBody \<Rightarrow> (string \<times> Upstream) list \<Rightarrow> bool" where
  "sends_ok env parts pq bs m body sends \<longleftrightarrow>
     distinct (map fst sends) \<and> set (map fst sends) \<subseteq> bk_id ` set bs \<and> length sends \<le> m \<and>
     (\<forall>k. Suc k < length sends \<longrightarrow> may_resend env (pt_method parts) k (sends ! k) \<and> is_replayable body) \<and>
     (\<forall>(node_id, up) \<in> set sends. \<exists>b. snd (for_attempt body) = Some b \<and> up = upstream_request parts pq node_id b)"

text \<open>Before every turn of the loop.\<close>

definition loop_inv ::
  "http_env \<Rightarrow> Parts \<Rightarrow> string \<Rightarrow> Backend list \<Rightarrow> nat \<Rightarrow> RequestBody \<Rightarrow> attempt_state \<Rightarrow> bool" where
  "loop_inv env parts pq bs m body s \<longleftrightarrow>
     sends_ok env parts pq bs m body (as_sends s) \<and> map fst (as_sends s) = as_tried s \<and> as_body s = body \<and>
     (as_sends s \<noteq> [] \<longrightarrow> may_resend env (pt_method parts) (length (as_sends s) - 1) (last (as_sends s)) \<and> is_replayable body) \<and>
     as_fallback s = (if answers env bs (as_sends s) = [] then None else Some (last (answers env bs (as_sends s))))"

lemma limit_of_nth:
  "distinct (map bk_id bs) \<Longrightarrow> i < length bs \<Longrightarrow> limit_of bs (bk_id (bs ! i)) = bk_request_timeout (bs ! i)"
proof -
  assume d: "distinct (map bk_id bs)" and i: "i < length bs"
  have "bk_id (bs ! j) \<noteq> bk_id (bs ! i)" if "j < i" for j
    using nth_map_inj [OF d, of j i] that i by auto
  then have "find (\<lambda>b. bk_id b = bk_id (bs ! i)) bs = Some (bs ! i)"
    unfolding find_Some_iff using i by (intro exI [of _ i]) auto
  then show ?thesis by (simp add: limit_of_def)
qed

lemma answers_Nil [simp]: "answers env bs [] = []"
  by (simp add: answers_def)

lemma answers_snoc:
  "answers env bs (sends @ [x]) = answers env bs sends @ (case answer_of env bs (length sends) x of Some a \<Rightarrow> [a] | None \<Rightarrow> [])"
  by (simp add: answers_def enumerate_append_eq)

lemma sends_ok_snoc:
  assumes "sends_ok env parts pq bs m body sends" "length sends < m"
    "sends \<noteq> [] \<longrightarrow> may_resend env (pt_method parts) (length sends - 1) (last sends) \<and> is_replayable body"
    "n \<notin> set (map fst sends)" "n \<in> bk_id ` set bs" "snd (for_attempt body) = Some b"
  shows "sends_ok env parts pq bs m body (sends @ [(n, upstream_request parts pq n b)])"
proof -
  have "may_resend env (pt_method parts) k ((sends @ [(n, upstream_request parts pq n b)]) ! k) \<and> is_replayable body"
    if k: "Suc k < length (sends @ [(n, upstream_request parts pq n b)])" for k
  proof (cases "Suc k < length sends")
    case True
    then show ?thesis using assms(1) by (simp add: sends_ok_def nth_append)
  next
    case False
    then have "k = length sends - 1" "sends \<noteq> []" "k < length sends" using k by auto
    then show ?thesis using assms(3) by (simp add: nth_append last_conv_nth)
  qed
  then show ?thesis using assms by (auto simp: sends_ok_def)
qed

lemma pick_fresh:
  assumes "pick inner bs tried now = (inner1, Chosen i slot)"
  shows "i < length bs" "bk_id (bs ! i) \<notin> set tried" "bk_id (bs ! i) \<in> bk_id ` set bs"
  using pick_Chosen(2,3) [OF assms] by (auto simp: usable_def)

text \<open>A request that reaches the client keeps the list of requests in order, whatever comes back.\<close>

lemma sent_ok:
  assumes "loop_inv env parts pq bs m body s" "length (as_tried s) < m"
    "pick (as_inner s) bs (as_tried s) now = (inner1, Chosen i slot)" "for_attempt (as_body s) = (body', Some b)"
  shows "sends_ok env parts pq bs m body (as_sends s @ [(bk_id (bs ! i), upstream_request parts pq (bk_id (bs ! i)) b)])"
    "length (as_sends s) = length (as_tried s)"
proof -
  have t: "set (map fst (as_sends s)) = set (as_tried s)" "length (as_sends s) = length (as_tried s)"
    using assms(1) unfolding loop_inv_def by (metis, metis length_map)
  show "length (as_sends s) = length (as_tried s)" by (rule t(2))
  show "sends_ok env parts pq bs m body (as_sends s @ [(bk_id (bs ! i), upstream_request parts pq (bk_id (bs ! i)) b)])"
    by (rule sends_ok_snoc) (use assms t pick_fresh [OF assms(3)] in \<open>auto simp: loop_inv_def\<close>)
qed

lemma handle_result_goes_on:
  assumes "handle_result env parts m n node_id slot result s = (s', None)"
  shows "is_replayable (as_body s) \<and>
    ((\<exists>resp. result = ClientOk resp \<and> is_retryable_status (re_status resp) \<and> is_idempotent (pt_method parts) \<and>
        as_fallback s' = Some (OutResponse resp slot node_id)) \<or>
     (\<exists>e. result = ConnectFailed e \<and> as_fallback s' = as_fallback s))"
  using assms by (auto simp: handle_result_def Let_def split: client_result.splits if_splits prod.splits bool.splits)

lemma handle_result_ends:
  assumes "handle_result env parts m n node_id slot result s = (s', Some out)"
  shows "as_fallback s' = as_fallback s \<and>
    (case result of ClientOk resp \<Rightarrow> out = OutResponse resp slot node_id | _ \<Rightarrow> (\<exists>c e. out = OutError c e))"
  using assms by (auto simp: handle_result_def Let_def unreachable_def
      split: client_result.splits if_splits prod.splits bool.splits)

lemma replayable_keeps: "for_attempt body = (body', x) \<Longrightarrow> is_replayable body' \<Longrightarrow> body' = body"
  by (cases body) auto

lemma loop_inv_step:
  assumes "distinct (map bk_id bs)" "loop_inv env parts pq bs m body s" "attempt_once env parts pq bs m s = (s', None)"
  shows "loop_inv env parts pq bs m body s'"
  using assms(3)
proof (cases rule: attempt_once_cases)
  case (answered i inner1 body' b up took result)
  let ?n = "bk_id (bs ! i)"
  note h = answered(7)
  note fr = handle_result_frame [OF h]
  note go = handle_result_goes_on [OF h]
  note snt = sent_ok [OF assms(2) answered(2,1,3)]
  have body: "body' = body" using go replayable_keeps [OF answered(3)] assms(2) by (simp add: loop_inv_def)
  have lim: "limit_of bs ?n = bk_request_timeout (bs ! i)"
    by (rule limit_of_nth [OF assms(1) pick_fresh(1) [OF answered(1)]])
  have an: "answer_of env bs (length (as_sends s)) (?n, up) =
      (case result of ClientOk resp \<Rightarrow> Some (OutResponse resp ?n ?n) | _ \<Rightarrow> None)"
    using answered(5,6) snt(2) lim by (simp add: answer_of_def)
  have re: "may_resend env (pt_method parts) (length (as_sends s)) (?n, up)"
    using go answered(5) snt(2) by (auto simp: may_resend_def)
  show ?thesis
    using assms(2) fr snt body an re go unfolding loop_inv_def
    by (auto simp: answers_snoc answered(4))
qed auto

definition final_ok ::
  "http_env \<Rightarrow> Parts \<Rightarrow> string \<Rightarrow> Backend list \<Rightarrow> nat \<Rightarrow> RequestBody \<Rightarrow> (string \<times> Upstream) list \<Rightarrow> Outcome \<Rightarrow> bool" where
  "final_ok env parts pq bs m body sends out \<longleftrightarrow> sends_ok env parts pq bs m body sends \<and>
     (if answers env bs sends = [] then (\<exists>c e. out = OutError c e) else out = last (answers env bs sends))"

lemma loop_inv_final:
  assumes "distinct (map bk_id bs)" "loop_inv env parts pq bs m body s" "attempt_once env parts pq bs m s = (s', Some out)"
  shows "final_ok env parts pq bs m body (as_sends s') (snd (prefer_answer s' out))"
  using assms(3)
proof (cases rule: attempt_once_cases)
  case (stop c e)
  then show ?thesis using assms(2) by (auto simp: final_ok_def loop_inv_def prefer_answer_def)
next
  case (unsent i inner1)
  then show ?thesis using assms(2) by (auto simp: final_ok_def loop_inv_def prefer_answer_def unreachable_def)
next
  case (late i inner1 body' b up took result)
  note snt = sent_ok [OF assms(2) late(2,1,3)]
  have lim: "limit_of bs (bk_id (bs ! i)) = bk_request_timeout (bs ! i)"
    by (rule limit_of_nth [OF assms(1) pick_fresh(1) [OF late(1)]])
  have "answer_of env bs (length (as_sends s)) (bk_id (bs ! i), up) = None"
    using late(5,6) snt(2) lim by (simp add: answer_of_def)
  then show ?thesis using late assms(2) snt
    by (auto simp: final_ok_def loop_inv_def prefer_answer_def answers_snoc)
next
  case (answered i inner1 body' b up took result)
  let ?n = "bk_id (bs ! i)"
  note snt = sent_ok [OF assms(2) answered(2,1,3)]
  note fr = handle_result_frame [OF answered(7)]
  note en = handle_result_ends [OF answered(7)]
  have lim: "limit_of bs ?n = bk_request_timeout (bs ! i)"
    by (rule limit_of_nth [OF assms(1) pick_fresh(1) [OF answered(1)]])
  have an: "answer_of env bs (length (as_sends s)) (?n, up) =
      (case result of ClientOk resp \<Rightarrow> Some (OutResponse resp ?n ?n) | _ \<Rightarrow> None)"
    using answered(5,6) snt(2) lim by (simp add: answer_of_def)
  have "final_ok env parts pq bs m body (as_sends s @ [(?n, up)]) (snd (prefer_answer s' out))"
    using assms(2) en an snt(1) answered(4)
    by (cases result) (auto simp: final_ok_def loop_inv_def prefer_answer_def answers_snoc)
  then show ?thesis using fr by simp
qed

text \<open>The attempts for a request start with an empty log, nothing sent and nothing kept.\<close>

definition fresh_attempt :: "Inner \<Rightarrow> rat \<Rightarrow> RequestBody \<Rightarrow> attempt_state" where
  "fresh_attempt inner budget body =
     \<lparr>as_inner = inner, as_budget = budget, as_body = body, as_log = empty_log, as_fallback = None, as_sends = []\<rparr>"

lemma loop_final:
  assumes "distinct (map bk_id bs)" "as_sends s = []" "as_tried s = []" "as_fallback s = None"
  shows "case attempt_loop env parts pq bs m s of (s', out) \<Rightarrow>
    final_ok env parts pq bs m (as_body s) (as_sends s') (snd (prefer_answer s' out))"
proof -
  have "loop_inv env parts pq bs m (as_body s) s" using assms by (simp add: loop_inv_def sends_ok_def)
  from attempt_loop_last [where P = "loop_inv env parts pq bs m (as_body s)", OF this loop_inv_step [OF assms(1)]]
  show ?thesis using loop_inv_final [OF assms(1)] by fastforce
qed

lemma prefer_answer_simps [simp]:
  "as_sends (fst (prefer_answer s out)) = as_sends s" "as_log (fst (prefer_answer s out)) = as_log s"
  "as_budget (fst (prefer_answer s out)) = as_budget s"
  by (auto simp: prefer_answer_def split: Outcome.splits option.splits)

lemma candidates_subset: "set (attempt_candidates name st sel) \<subseteq> set (service_backends name st)"
  by (auto simp: attempt_candidates_def split: option.splits)

lemma distinct_prefer_keep: "distinct (map f xs) \<Longrightarrow> distinct (map f (prefer_keep keep xs))"
  by (simp add: prefer_keep_def distinct_map_filter)

lemma distinct_attempt_backends:
  assumes "coherent st"
  shows "distinct (map bk_id (prefer_healthy (attempt_candidates name st sel) name st now))"
proof -
  have "distinct (map bk_id (attempt_candidates name st sel))"
    using distinct_service_backends [OF assms, of name]
    by (auto simp: attempt_candidates_def distinct_map_filter split: option.splits)
  then show ?thesis unfolding prefer_healthy_def Let_def by (intro distinct_prefer_keep)
qed

lemma attempt_final:
  assumes "coherent st"
  shows "case attempt env name st now parts pq sel (fresh_attempt inner budget body) of (s', out) \<Rightarrow>
    final_ok env parts pq (prefer_healthy (attempt_candidates name st sel) name st now) 3 body (as_sends s') out"
proof (cases "attempt_candidates name st sel = [] \<and> sel \<noteq> None")
  case True
  then show ?thesis by (simp add: attempt_def Let_def fresh_attempt_def final_ok_def sends_ok_def)
next
  case False
  let ?bs = "prefer_healthy (attempt_candidates name st sel) name st now"
  let ?m = "min (length ?bs) MAX_TUNNEL_ATTEMPTS"
  let ?s = "(fresh_attempt inner budget body)\<lparr>as_inner := retain_nodes inner (service_backends name st), as_fallback := None\<rparr>"
  obtain s' out where l: "attempt_loop env parts pq ?bs ?m ?s = (s', out)" by fastforce
  have "final_ok env parts pq ?bs ?m (as_body ?s) (as_sends s') (snd (prefer_answer s' out))"
    using loop_final [OF distinct_attempt_backends [OF assms, of name sel now], where s = ?s and m = ?m and env = env and parts = parts and pq = pq] l
    by (simp add: fresh_attempt_def empty_log_def)
  then have "final_ok env parts pq ?bs 3 body (as_sends s') (snd (prefer_answer s' out))"
    by (auto simp: final_ok_def sends_ok_def fresh_attempt_def MAX_TUNNEL_ATTEMPTS_def)
  moreover have "attempt env name st now parts pq sel (fresh_attempt inner budget body) = prefer_answer s' out"
    using False l by (auto simp: attempt_def Let_def fresh_attempt_def)
  ultimately show ?thesis by (cases "prefer_answer s' out") (auto simp: prefer_answer_simps(1) [of s' out, symmetric])
qed

text \<open>
  C4. A request is offered to at most three nodes, all different and each a candidate for it, with the
  same method, headers and body; it is sent to a further node only if its body can be replayed and
  the node before was never reached or refused an idempotent method with 502, 503 or 504. In
  particular a streamed body is sent at most once.
\<close>

theorem attempt_resends:
  assumes "coherent st"
  shows "case attempt env name st now parts pq sel (fresh_attempt inner budget body) of (s', out) \<Rightarrow>
    length (as_sends s') \<le> 3 \<and> distinct (map fst (as_sends s')) \<and>
    fst ` set (as_sends s') \<subseteq> bk_id ` set (attempt_candidates name st sel) \<and>
    (\<forall>k. Suc k < length (as_sends s') \<longrightarrow> may_resend env (pt_method parts) k (as_sends s' ! k)) \<and>
    (\<not> is_replayable body \<longrightarrow> length (as_sends s') \<le> 1) \<and>
    (\<forall>(node_id, up) \<in> set (as_sends s').
       \<exists>b. snd (for_attempt body) = Some b \<and> up = upstream_request parts pq node_id b)"
proof -
  obtain s' out where a: "attempt env name st now parts pq sel (fresh_attempt inner budget body) = (s', out)" by fastforce
  let ?bs = "prefer_healthy (attempt_candidates name st sel) name st now"
  have ok: "sends_ok env parts pq ?bs 3 body (as_sends s')"
    using attempt_final [OF assms, where env = env and name = name and now = now and parts = parts and pq = pq
        and sel = sel and inner = inner and budget = budget and body = body] a
    by (simp add: final_ok_def)
  have "bk_id ` set ?bs \<subseteq> bk_id ` set (attempt_candidates name st sel)"
    using prefer_healthy_subset by (intro image_mono)
  then have sub: "fst ` set (as_sends s') \<subseteq> bk_id ` set (attempt_candidates name st sel)"
    using ok by (simp add: sends_ok_def) (meson order.trans)
  have one: "length (as_sends s') \<le> 1" if "\<not> is_replayable body"
  proof (rule ccontr)
    assume "\<not> length (as_sends s') \<le> 1"
    then have "Suc 0 < length (as_sends s')" by simp
    with ok that show False by (auto simp: sends_ok_def)
  qed
  show ?thesis using ok sub one a by (auto simp: sends_ok_def)
qed

text \<open>
  C23. What the client gets: the last answer a node gave in time, if any node gave one, even if a later
  attempt failed; an error of the proxy's own only if no node answered.
\<close>

theorem attempt_answers:
  assumes "coherent st"
  shows "case attempt env name st now parts pq sel (fresh_attempt inner budget body) of (s', out) \<Rightarrow>
    (let got = answers env (prefer_healthy (attempt_candidates name st sel) name st now) (as_sends s') in
     if got = [] then \<exists>c reason. out = OutError c reason else out = last got)"
  using attempt_final [OF assms, where env = env and name = name and now = now and parts = parts and pq = pq
      and sel = sel and inner = inner and budget = budget and body = body]
  by (auto simp: final_ok_def Let_def)

section \<open>Slots are given back\<close>

definition counts_with :: "Inner \<Rightarrow> Outcome option \<Rightarrow> string \<Rightarrow> u32" where
  "counts_with inner0 out =
     (case out of
        Some (OutResponse _ slot _) \<Rightarrow> (active_count inner0)(slot := active_count inner0 slot + 1)
      | _ \<Rightarrow> active_count inner0)"

definition kept_ok :: "string set \<Rightarrow> Outcome option \<Rightarrow> bool" where
  "kept_ok nodes out \<longleftrightarrow> (case out of Some (OutResponse _ slot _) \<Rightarrow> slot \<in> nodes | _ \<Rightarrow> True)"

definition slots_kept :: "Inner \<Rightarrow> Backend list \<Rightarrow> attempt_state \<Rightarrow> bool" where
  "slots_kept inner0 bs s \<longleftrightarrow> active_count (as_inner s) = counts_with inner0 (as_fallback s) \<and>
     kept_ok (set (as_tried s) \<inter> bk_id ` set bs) (as_fallback s)"

lemma taken_slot:
  assumes "pick inner bs tried now = (inner1, Chosen i slot)" "in_active in2 = in_active inner1"
  shows "active_count in2 = (active_count inner)(slot := active_count inner slot + 1)"
  using pick_Chosen(5) [OF assms(1)] assms(2) by (auto simp: active_count_def fun_eq_iff)

lemma dropped_slot:
  assumes "active_count in2 = (active_count inner)(slot := active_count inner slot + 1)" "active_count inner slot \<noteq> - 1"
  shows "active_count (drop_slot in2 slot) = active_count inner"
proof -
  have "active_count in2 slot \<noteq> 0" using assms by (metis add_eq_0_iff2 fun_upd_same)
  then show ?thesis using active_drop_slot [of in2 slot] assms(1) by (auto simp: fun_eq_iff)
qed

text \<open>Replacing the kept response by a newer one, or returning the newer one, frees the older one's slot.\<close>

lemma release_kept:
  assumes "active_count (as_inner s) = (counts_with inner0 (as_fallback s))(n := active_count inner0 n + 1)"
    and "kept_ok (nodes - {n}) (as_fallback s)" "\<forall>x \<in> nodes. active_count inner0 x \<noteq> - 1"
  shows "active_count (as_inner (release_outcome s (as_fallback s))) = counts_with inner0 (Some (OutResponse r n m))"
proof (cases "as_fallback s")
  case None
  then show ?thesis using assms(1) by (simp add: release_outcome_def counts_with_def)
next
  case (Some out)
  show ?thesis
  proof (cases out)
    case (OutResponse r' slot' n')
    have sl: "slot' \<noteq> n" "active_count inner0 slot' \<noteq> - 1"
      using Some OutResponse assms(2,3) by (auto simp: kept_ok_def)
    have c: "active_count (as_inner s) = (active_count inner0)(slot' := active_count inner0 slot' + 1, n := active_count inner0 n + 1)"
      using assms(1) Some OutResponse by (simp add: counts_with_def)
    then have "active_count (as_inner s) slot' = active_count inner0 slot' + 1" using sl by simp
    moreover then have "active_count (as_inner s) slot' \<noteq> 0" using sl(2) by (metis add_eq_0_iff2)
    ultimately show ?thesis
      using active_drop_slot [of "as_inner s" slot'] c sl Some OutResponse
      by (auto simp: release_outcome_def counts_with_def fun_eq_iff)
  next
    case (OutError c e)
    then show ?thesis using assms(1) Some by (simp add: release_outcome_def counts_with_def)
  qed
qed

definition slots_done :: "Inner \<Rightarrow> Backend list \<Rightarrow> attempt_state \<Rightarrow> Outcome \<Rightarrow> bool" where
  "slots_done inner0 bs s out \<longleftrightarrow>
     active_count (as_inner (fst (prefer_answer s out))) = counts_with inner0 (Some (snd (prefer_answer s out))) \<and>
     kept_ok (bk_id ` set bs) (Some (snd (prefer_answer s out)))"

lemma slots_done_error:
  assumes "active_count (as_inner s) = counts_with inner0 (as_fallback s)" "out = OutError c e"
    "kept_ok (bk_id ` set bs) (as_fallback s)"
  shows "slots_done inner0 bs s out"
proof (cases "as_fallback s")
  case None
  with assms show ?thesis by (simp add: slots_done_def prefer_answer_def release_outcome_def counts_with_def kept_ok_def)
next
  case (Some fb)
  with assms show ?thesis by (simp add: slots_done_def prefer_answer_def)
qed

lemma slots_done_response:
  assumes "active_count (as_inner s) = (counts_with inner0 (as_fallback s))(n := active_count inner0 n + 1)"
    and "kept_ok (nodes - {n}) (as_fallback s)" "\<forall>x \<in> nodes. active_count inner0 x \<noteq> - 1" "n \<in> bk_id ` set bs"
  shows "slots_done inner0 bs s (OutResponse r n m)"
  using release_kept [OF assms(1-3)] assms(4) by (simp add: slots_done_def prefer_answer_def kept_ok_def)

lemma handle_result_slots:
  assumes "handle_result env parts m n node_id node_id result s = (s', r)"
    and inv: "slots_kept inner0 bs s0" "\<forall>b \<in> set bs. active_count inner0 (bk_id b) \<noteq> - 1"
    and pk: "pick (as_inner s0) bs (as_tried s0) now = (as_inner s, Chosen i node_id)"
    and s: "as_fallback s = as_fallback s0" "as_tried s = as_tried s0 @ [node_id]"
  shows "case r of None \<Rightarrow> slots_kept inner0 bs s' | Some out \<Rightarrow> slots_done inner0 bs s' out"
proof -
  have i: "i < length bs" "node_id \<notin> set (as_tried s0)" "node_id \<in> bk_id ` set bs"
    using pick_Chosen(4) [OF pk] pick_fresh [OF pk] by auto
  let ?nodes = "insert node_id (set (as_tried s0)) \<inter> bk_id ` set bs"
  have nodes: "\<forall>x \<in> ?nodes. active_count inner0 x \<noteq> - 1" using inv(2) by auto
  have kept: "kept_ok (?nodes - {node_id}) (as_fallback s0)"
    using inv(1) i by (auto simp: slots_kept_def kept_ok_def split: option.splits Outcome.splits)
  have at: "active_count (as_inner s0) node_id = active_count inner0 node_id"
    using inv(1) i by (auto simp: slots_kept_def counts_with_def kept_ok_def split: option.splits Outcome.splits)
  have up: "active_count in2 = (counts_with inner0 (as_fallback s0))(node_id := active_count inner0 node_id + 1)"
    if "in_active in2 = in_active (as_inner s)" for in2
    using taken_slot [OF pk that] at inv(1) by (simp add: slots_kept_def)
  have down: "active_count (drop_slot in2 node_id) = counts_with inner0 (as_fallback s0)"
    if "in_active in2 = in_active (as_inner s)" for in2
    using dropped_slot [OF taken_slot [OF pk that]] at i nodes inv(1) by (auto simp: slots_kept_def)
  have all: "kept_ok (bk_id ` set bs) (as_fallback s0)"
    using inv(1) by (auto simp: slots_kept_def kept_ok_def split: option.splits Outcome.splits)
  have grow: "kept_ok (set (as_tried s0 @ [node_id]) \<inter> bk_id ` set bs) (as_fallback s0)"
    using inv(1) by (auto simp: slots_kept_def kept_ok_def split: option.splits Outcome.splits)
  show ?thesis
  proof (cases result)
    case (ClientOk resp)
    let ?s1 = "s\<lparr>as_inner := record_success (as_inner s) node_id\<rparr>"
    have c: "active_count (record_success (as_inner s) node_id) =
        (counts_with inner0 (as_fallback s0))(node_id := active_count inner0 node_id + 1)"
      by (rule up) simp
    have resp: "slots_done inner0 bs s2 (OutResponse resp node_id node_id)"
      if "as_inner s2 = as_inner ?s1" "as_fallback s2 = as_fallback s0" for s2
      by (rule slots_done_response [where nodes = ?nodes]) (use that c kept nodes i in auto)
    have retry: "active_count (as_inner (set_fallback s2 (OutResponse resp node_id node_id))) =
        counts_with inner0 (Some (OutResponse resp node_id node_id))"
      if "as_inner s2 = as_inner ?s1" "as_fallback s2 = as_fallback s0" for s2
      using release_kept [where s = s2 and ?inner0.0 = inner0 and n = node_id and nodes = ?nodes] that c kept nodes
      by (simp add: set_fallback_def)
    show ?thesis
      using assms(1) ClientOk resp retry s i
      by (auto simp: handle_result_def Let_def slots_kept_def kept_ok_def split: if_splits prod.splits bool.splits)
  next
    case (ConnectFailed e)
    then show ?thesis
      using assms(1) s down grow all
      by (auto simp: handle_result_def Let_def slots_kept_def unreachable_def intro!: slots_done_error split: if_splits)
  next
    case (SendFailed e)
    then show ?thesis
      using assms(1) s down all by (auto simp: handle_result_def intro!: slots_done_error)
  qed
qed

lemma attempt_once_slots:
  assumes "attempt_once env parts pq bs m s = (s', r)"
    and inv: "slots_kept inner0 bs s" "\<forall>b \<in> set bs. active_count inner0 (bk_id b) \<noteq> - 1"
  shows "case r of None \<Rightarrow> slots_kept inner0 bs s' | Some out \<Rightarrow> slots_done inner0 bs s' out"
proof -
  have down: "active_count (drop_slot inner1 (bk_id (bs ! i))) = counts_with inner0 (as_fallback s)"
    if "pick (as_inner s) bs (as_tried s) now = (inner1, Chosen i (bk_id (bs ! i)))" for i inner1 now
  proof -
    note i = pick_fresh [OF that]
    have "active_count (as_inner s) (bk_id (bs ! i)) = active_count inner0 (bk_id (bs ! i))"
      using inv(1) i by (auto simp: slots_kept_def counts_with_def kept_ok_def split: option.splits Outcome.splits)
    then show ?thesis using dropped_slot [OF taken_slot [OF that refl]] inv i by (simp add: slots_kept_def)
  qed
  have all: "kept_ok (bk_id ` set bs) (as_fallback s)"
    using inv(1) by (auto simp: slots_kept_def kept_ok_def split: option.splits Outcome.splits)
  show ?thesis using assms(1)
  proof (cases rule: attempt_once_cases)
    case (stop c e)
    then show ?thesis using inv(1) all by (auto simp: slots_kept_def intro!: slots_done_error)
  next
    case (unsent i inner1)
    then show ?thesis using down all by (auto simp: unreachable_def intro!: slots_done_error)
  next
    case (late i inner1 body b up took result)
    then show ?thesis using down all by (auto intro!: slots_done_error)
  next
    case (answered i inner1 body b up took result)
    show ?thesis
      by (rule handle_result_slots [OF answered(7) inv, where i = i]) (use answered(1) in auto)
  qed
qed

text \<open>
  Whatever happens over the attempts, afterwards exactly the node whose response is returned counts
  one connection more, and if the proxy answers with an error the counts are as before.
\<close>

lemma attempt_slots:
  assumes "list_all (\<lambda>b. active_count inner (bk_id b) \<noteq> - 1) (service_backends name st)"
  shows "case attempt env name st now parts pq sel (fresh_attempt inner budget body) of (s', out) \<Rightarrow>
    active_count (as_inner s') = counts_with inner (Some out) \<and> kept_ok (bk_id ` set (service_backends name st)) (Some out)"
proof -
  let ?bs = "prefer_healthy (attempt_candidates name st sel) name st now"
  let ?m = "min (length ?bs) MAX_TUNNEL_ATTEMPTS"
  let ?s = "(fresh_attempt inner budget body)\<lparr>as_inner := retain_nodes inner (service_backends name st), as_fallback := None\<rparr>"
  have r: "active_count (retain_nodes inner (service_backends name st)) = active_count inner"
    by (rule active_count_cong) simp
  have n: "\<forall>b \<in> set ?bs. active_count inner (bk_id b) \<noteq> - 1"
    using assms prefer_healthy_subset [of "attempt_candidates name st sel" name st now] candidates_subset [of name st sel]
    by (auto simp: list_all_iff)
  have "slots_kept inner ?bs ?s" using r by (simp add: slots_kept_def counts_with_def kept_ok_def)
  from attempt_loop_last [where P = "slots_kept inner ?bs", OF this, where env = env and parts = parts and pq = pq and bs = ?bs and m = ?m]
  obtain s1 s' out where l: "slots_kept inner ?bs s1" "attempt_once env parts pq ?bs ?m s1 = (s', Some out)"
    "attempt_loop env parts pq ?bs ?m ?s = (s', out)"
    using attempt_once_slots [where r = None, OF _ _ n] by fastforce
  have d: "slots_done inner ?bs s' out" using attempt_once_slots [OF l(2) l(1) n] by simp
  show ?thesis
  proof (cases "attempt_candidates name st sel = [] \<and> sel \<noteq> None")
    case True
    then show ?thesis using r by (simp add: attempt_def Let_def fresh_attempt_def counts_with_def kept_ok_def)
  next
    case False
    then have "attempt env name st now parts pq sel (fresh_attempt inner budget body) = prefer_answer s' out"
      using l(3) by (auto simp: attempt_def Let_def fresh_attempt_def)
    moreover have "bk_id ` set ?bs \<subseteq> bk_id ` set (service_backends name st)"
      using prefer_healthy_subset candidates_subset by (intro image_mono) (rule order.trans)
    ultimately show ?thesis
      using d by (cases "prefer_answer s' out") (auto simp: slots_done_def kept_ok_def split: Outcome.splits)
  qed
qed

section \<open>A concrete proxy\<close>

definition refusing :: http_env where
  "refusing = \<lparr>he_now = (\<lambda>_. 5), he_failed_at = (\<lambda>_. 6), he_wall = (\<lambda>_. 7), he_uri_ok = (\<lambda>_. True),
     he_send = (\<lambda>_ _. (1, ConnectFailed ''refused''))\<rparr>"

definition get_parts :: Parts where
  "get_parts = \<lparr>pt_method = ''GET'', pt_headers = [(''host'', ''api'')]\<rparr>"

theorem attempt_resends_witness:
  "coherent joined_state \<and>
   (case attempt refusing ''api'' joined_state 0 get_parts ''/'' None (fresh_attempt new_inner 20 (Replayable [])) of
      (s', out) \<Rightarrow> length (as_sends s') \<le> 3 \<and> distinct (map fst (as_sends s')))"
  using attempt_resends [OF coherent_joined, where env = refusing and name = "''api''" and now = 0 and parts = get_parts
      and pq = "''/''" and sel = None and inner = new_inner and budget = 20 and body = "Replayable []"] coherent_joined
  by (simp add: case_prod_unfold)

theorem attempt_answers_witness:
  "coherent joined_state \<and>
   (\<exists>c reason. snd (attempt refusing ''api'' joined_state 0 get_parts ''/'' None (fresh_attempt new_inner 20 (Replayable []))) =
      OutError c reason)"
proof -
  have a: "answer_of refusing bs k x = None" for bs k x by (simp add: answer_of_def refusing_def split: prod.splits)
  have "answers refusing bs sends = []" for bs sends by (auto simp: answers_def a)
  then show ?thesis
    using attempt_answers [OF coherent_joined, where env = refusing and name = "''api''" and now = 0 and parts = get_parts
        and pq = "''/''" and sel = None and inner = new_inner and budget = 20 and body = "Replayable []"] coherent_joined
    by (simp add: case_prod_unfold Let_def)
qed

end
