(* ===== verification/Http_Handle.thy ===== *)
theory Http_Handle
  imports Http_Proxy
begin

text \<open>
  The handling of one HTTP request from end to end (\<^verbatim>\<open>HttpProxy::handle\<close> in
  \<^verbatim>\<open>src/subscribe/http.rs\<close>): trace context, header rewriting, route selection, the retry
  budget, the attempts, the response and the exported span; and the table of per-service proxies.
  Fresh trace and span ids, the route ticket and the clocks are parameters. Logging, metrics, and the
  copying of an upgraded stream are outside; the slot a response holds is part of the result.
\<close>

section \<open>The table of proxies\<close>

record HttpProxy =
  hp_balancer :: Inner
  hp_retry_budget :: rat

type_synonym HttpProxies = "string \<rightharpoonup> HttpProxy"

definition new_http_proxy :: HttpProxy where
  "new_http_proxy = \<lparr>hp_balancer = new_inner, hp_retry_budget = budget_new\<rparr>"

definition proxies_get :: "HttpProxies \<Rightarrow> string \<Rightarrow> HttpProxies \<times> HttpProxy" where
  "proxies_get m service_name =
     (case m service_name of
        Some p \<Rightarrow> (m, p)
      | None \<Rightarrow> (m(service_name \<mapsto> new_http_proxy), new_http_proxy))"

definition proxies_retain :: "HttpProxies \<Rightarrow> (string \<Rightarrow> bool) \<Rightarrow> HttpProxies" where
  "proxies_retain m keep = (\<lambda>name. if keep name then m name else None)"

section \<open>One request\<close>

record Request =
  rq_method :: string
  rq_path :: string
  rq_path_and_query :: "string option"
  rq_headers :: header_map
  rq_body :: Incoming

text \<open>
  \<open>ha_tracer\<close> is the exporter's sampling ratio with the random draw, if spans are exported;
  \<open>ha_header_ok\<close> says whether a string can be a header value.
\<close>

record handle_env =
  ha_http :: http_env
  ha_now :: instant
  ha_draw :: "nat \<Rightarrow> nat"
  ha_new_trace_id :: string
  ha_new_root_span :: string
  ha_new_child_span :: string
  ha_tracer :: "(f64 \<times> rat) option"
  ha_header_ok :: "string \<Rightarrow> bool"
  ha_start :: int
  ha_elapsed :: int

record handled =
  hd_response :: Response
  hd_slot :: "string option"
  hd_node :: "string option"
  hd_sends :: "(string \<times> Upstream) list"
  hd_span :: "SpanRecord option"

definition request_trace :: "handle_env \<Rightarrow> Request \<Rightarrow> TraceContext" where
  "request_trace env req =
     (case trace_from_headers (rq_headers req) of
        Some t \<Rightarrow> t
      | None \<Rightarrow>
          trace_new_root (ha_new_trace_id env) (ha_new_root_span env)
            (case ha_tracer env of None \<Rightarrow> True | Some (ratio, draw) \<Rightarrow> sample_new_trace ratio draw))"

definition upstream_trace :: "handle_env \<Rightarrow> Request \<Rightarrow> TraceContext" where
  "upstream_trace env req = trace_child (request_trace env req) (ha_new_child_span env)"

definition upstream_headers :: "handle_env \<Rightarrow> string \<Rightarrow> Request \<Rightarrow> header_map" where
  "upstream_headers env service_name req =
     (let stripped = strip_hop_by_hop (rq_headers req) (is_upgrade (rq_headers req));
          hosted = (if header_get stripped ''host'' = None \<and> ha_header_ok env service_name
                    then header_insert stripped ''host'' service_name else stripped)
      in header_insert hosted ''traceparent'' (trace_to_header (upstream_trace env req)))"

definition request_route :: "handle_env \<Rightarrow> string \<Rightarrow> SharedState \<Rightarrow> Request \<Rightarrow> RoutedTo option" where
  "request_route env service_name st req =
     select_route (ha_draw env) (case ss_routes st service_name of Some rs \<Rightarrow> rs | None \<Rightarrow> [])
       (rq_method req) (rq_path req) (upstream_headers env service_name req)"

definition run_attempts ::
  "handle_env \<Rightarrow> string \<Rightarrow> SharedState \<Rightarrow> Request \<Rightarrow> HttpProxy \<Rightarrow> attempt_state \<times> Outcome" where
  "run_attempts env service_name st req proxy =
     (let budget = budget_deposit (hp_retry_budget proxy);
          parts = \<lparr>pt_method = rq_method req, pt_headers = upstream_headers env service_name req\<rparr>;
          pq = (case rq_path_and_query req of Some pq \<Rightarrow> pq | None \<Rightarrow> ''/'') in
      case prepare (rq_body req) of
        Inl e \<Rightarrow>
          (set_last_err (fresh_attempt (hp_balancer proxy) budget (Replayable [])) e, OutError 400 ''bad_request_body'')
      | Inr body \<Rightarrow>
          attempt (ha_http env) service_name st (ha_now env) parts pq
            (map_option rto_labels (request_route env service_name st req))
            (fresh_attempt (hp_balancer proxy) budget body))"

definition error_type :: "Outcome \<Rightarrow> nat \<Rightarrow> string option" where
  "error_type out status =
     (case out of
        OutError _ reason \<Rightarrow> Some reason
      | OutResponse _ _ _ \<Rightarrow> if status \<ge> 400 then Some (dec_string status) else None)"

definition request_span ::
  "handle_env \<Rightarrow> string \<Rightarrow> SharedState \<Rightarrow> Request \<Rightarrow> Outcome \<Rightarrow> nat \<Rightarrow> string option \<Rightarrow> AttemptLog \<Rightarrow> SpanRecord" where
  "request_span env service_name st req out status node lg =
     (let route_label = (case request_route env service_name st req of Some r \<Rightarrow> rto_label r | None \<Rightarrow> ''default'') in
      \<lparr>sp_trace_id = trace_id (request_trace env req),
       sp_span_id = span_id (upstream_trace env req),
       sp_parent_span_id = map_option span_id (trace_from_headers (rq_headers req)),
       sp_name = rq_method req @ '' '' @ service_name,
       sp_kind = Client,
       sp_start = ha_start env,
       sp_end = ha_start env + ha_elapsed env,
       sp_attributes =
         [(''http.request.method'', AttrStr (rq_method req)), (''url.path'', AttrStr (rq_path req)),
          (''url.scheme'', AttrStr ''http''), (''network.protocol.version'', AttrStr ''1.1''),
          (''http.response.status_code'', AttrInt (int status)), (''stouter.service'', AttrStr service_name),
          (''stouter.route'', AttrStr route_label), (''stouter.attempts'', AttrInt (int (length (al_tried lg))))] @
         (case node of Some n \<Rightarrow> [(''server.address'', AttrStr n)] | None \<Rightarrow> []) @
         (case error_type out status of Some e \<Rightarrow> [(''error.type'', AttrStr e)] | None \<Rightarrow> []),
       sp_events = al_events lg,
       sp_error = error_type out status\<rparr>)"

text \<open>
  The response for the client, the node it is attributed to, and the slot it keeps: until the body is
  sent, or, for an upgrade the client asked for, until the upgraded stream ends. A 101 the client did
  not ask for keeps no slot.
\<close>

definition response_of :: "Request \<Rightarrow> attempt_state \<Rightarrow> Outcome \<Rightarrow> attempt_state \<times> Response \<times> string option \<times> string option" where
  "response_of req s out =
     (case out of
        OutResponse resp slot node_id \<Rightarrow>
          if re_status resp = 101
          then (if is_upgrade (rq_headers req) then (s, resp, Some slot, Some node_id)
                else (release s slot, resp, None, Some node_id))
          else (s, resp\<lparr>re_headers := strip_hop_by_hop (re_headers resp) False\<rparr>, Some slot, Some node_id)
      | OutError status reason \<Rightarrow>
          (s, error_response status reason, None,
           if as_tried s = [] then None else Some (last (as_tried s))))"

definition handle :: "handle_env \<Rightarrow> string \<Rightarrow> SharedState \<Rightarrow> Request \<Rightarrow> HttpProxy \<Rightarrow> HttpProxy \<times> handled" where
  "handle env service_name st req proxy =
     (let (s, out) = run_attempts env service_name st req proxy;
          (s', resp, slot, node) = response_of req s out;
          exported = (ha_tracer env \<noteq> None \<and> trace_is_sampled (request_trace env req)) in
      (\<lparr>hp_balancer = as_inner s', hp_retry_budget = as_budget s'\<rparr>,
       \<lparr>hd_response = resp, hd_slot = slot, hd_node = node, hd_sends = as_sends s',
        hd_span = (if exported then Some (request_span env service_name st req out (re_status resp) node (as_log s'))
                   else None)\<rparr>))"

section \<open>Traces are stitched together\<close>

lemma upstream_headers_trace: "header_get (upstream_headers env name req) ''traceparent'' = Some (trace_to_header (upstream_trace env req))"
  by (simp add: upstream_headers_def Let_def)

text \<open>The fresh ids come from the random generator.\<close>

definition fresh_ids :: "handle_env \<Rightarrow> bool" where
  "fresh_ids env \<longleftrightarrow>
     (\<exists>ds. draws_of 16 ds \<and> random_hex ds = Some (ha_new_trace_id env)) \<and>
     (\<exists>ds. draws_of 8 ds \<and> random_hex ds = Some (ha_new_root_span env)) \<and>
     (\<exists>ds. draws_of 8 ds \<and> random_hex ds = Some (ha_new_child_span env))"

lemma request_trace_valid: "fresh_ids env \<Longrightarrow> trace_valid (request_trace env req)"
  unfolding fresh_ids_def request_trace_def
  by (auto intro: trace_root_valid trace_parsed_valid split: option.split)

lemma upstream_trace_valid: "fresh_ids env \<Longrightarrow> trace_valid (upstream_trace env req)"
  using request_trace_valid [of env req] unfolding upstream_trace_def fresh_ids_def
  by (auto intro: trace_child_valid)

lemma response_of_simps [simp]:
  "as_sends (fst (response_of req s out)) = as_sends s" "as_log (fst (response_of req s out)) = as_log s"
  "as_budget (fst (response_of req s out)) = as_budget s"
  by (auto simp: response_of_def split: Outcome.splits)

lemma run_attempts_headers:
  assumes "coherent st" "run_attempts env name st req proxy = (s, out)" "(node_id, up) \<in> set (as_sends s)"
  shows "up_headers up = upstream_headers env name req"
proof (cases "prepare (rq_body req)")
  case (Inl e)
  with assms show ?thesis by (auto simp: run_attempts_def Let_def fresh_attempt_def)
next
  case (Inr body)
  let ?parts = "\<lparr>pt_method = rq_method req, pt_headers = upstream_headers env name req\<rparr>"
  let ?pq = "case rq_path_and_query req of Some pq \<Rightarrow> pq | None \<Rightarrow> ''/''"
  let ?sel = "map_option rto_labels (request_route env name st req)"
  have "attempt (ha_http env) name st (ha_now env) ?parts ?pq ?sel
      (fresh_attempt (hp_balancer proxy) (budget_deposit (hp_retry_budget proxy)) body) = (s, out)"
    using assms(2) Inr by (simp add: run_attempts_def Let_def)
  with attempt_final [OF assms(1), where env = "ha_http env" and name = name and now = "ha_now env" and parts = ?parts
      and pq = ?pq and sel = ?sel and inner = "hp_balancer proxy" and body = body
      and budget = "budget_deposit (hp_retry_budget proxy)"]
  have "sends_ok (ha_http env) ?parts ?pq (prefer_healthy (attempt_candidates name st ?sel) name st (ha_now env)) 3 body (as_sends s)"
    by (simp add: final_ok_def)
  then show ?thesis using assms(3) by (auto simp: sends_ok_def upstream_request_def)
qed

lemma trace_child_simps [simp]:
  "trace_id (trace_child t sid) = trace_id t" "span_id (trace_child t sid) = sid"
  "trace_is_sampled (trace_child t sid) = trace_is_sampled t"
  by (simp_all add: trace_child_def trace_is_sampled_def)

text \<open>
  C35. Distributed traces stay connected. Every request sent upstream carries a trace context that
  parses, continues the client's trace (or starts a new one) and keeps its sampling decision. A span
  is exported exactly when spans are exported and the trace is sampled; it has the client's span as
  parent and the id that the upstream request named as its own parent.
\<close>

theorem handle_traces:
  assumes "coherent st" "fresh_ids env" "handle env name st req proxy = (proxy', h)"
  shows "(\<forall>(node_id, up) \<in> set (hd_sends h). trace_from_headers (up_headers up) = Some (upstream_trace env req)) \<and>
    trace_id (upstream_trace env req) =
      (case trace_from_headers (rq_headers req) of Some t \<Rightarrow> trace_id t | None \<Rightarrow> ha_new_trace_id env) \<and>
    (\<forall>t. trace_from_headers (rq_headers req) = Some t \<longrightarrow>
       trace_is_sampled (upstream_trace env req) = trace_is_sampled t) \<and>
    (hd_span h \<noteq> None \<longleftrightarrow> ha_tracer env \<noteq> None \<and> trace_is_sampled (upstream_trace env req)) \<and>
    (\<forall>sp. hd_span h = Some sp \<longrightarrow>
       sp_trace_id sp = trace_id (upstream_trace env req) \<and> sp_span_id sp = span_id (upstream_trace env req) \<and>
       sp_parent_span_id sp = map_option span_id (trace_from_headers (rq_headers req)))"
proof -
  obtain s out where r: "run_attempts env name st req proxy = (s, out)" by fastforce
  obtain s' resp slot node where q: "response_of req s out = (s', resp, slot, node)" by (metis surj_pair)
  have h: "hd_sends h = as_sends s'" "hd_span h = (if ha_tracer env \<noteq> None \<and> trace_is_sampled (request_trace env req)
      then Some (request_span env name st req out (re_status resp) node (as_log s')) else None)"
    using assms(3) r q by (auto simp: handle_def Let_def)
  have "as_sends s' = as_sends s" using q response_of_simps(1) [of req s out] by simp
  then have "\<forall>(node_id, up) \<in> set (hd_sends h). trace_from_headers (up_headers up) = Some (upstream_trace env req)"
    using run_attempts_headers [OF assms(1) r] trace_reads_back [OF upstream_trace_valid [OF assms(2), of req] upstream_headers_trace] h(1)
    by auto
  moreover have "trace_id (upstream_trace env req) =
      (case trace_from_headers (rq_headers req) of Some t \<Rightarrow> trace_id t | None \<Rightarrow> ha_new_trace_id env)"
    by (simp add: upstream_trace_def request_trace_def trace_new_root_def split: option.split)
  moreover have "trace_is_sampled (upstream_trace env req) = trace_is_sampled (request_trace env req)"
    "trace_id (upstream_trace env req) = trace_id (request_trace env req)"
    by (simp_all add: upstream_trace_def)
  ultimately show ?thesis
    using h(2) by (auto simp: request_trace_def request_span_def Let_def split: if_splits)
qed

section \<open>Slots over a whole request\<close>

lemma run_attempts_slots:
  assumes "list_all (\<lambda>b. active_count (hp_balancer proxy) (bk_id b) \<noteq> - 1) (service_backends name st)"
    and "run_attempts env name st req proxy = (s, out)"
  shows "active_count (as_inner s) = counts_with (hp_balancer proxy) (Some out) \<and>
    kept_ok (bk_id ` set (service_backends name st)) (Some out)"
proof (cases "prepare (rq_body req)")
  case (Inl e)
  with assms(2) show ?thesis by (auto simp: run_attempts_def Let_def fresh_attempt_def set_last_err_def counts_with_def kept_ok_def)
next
  case (Inr body)
  then obtain parts pq sel budget where "attempt (ha_http env) name st (ha_now env) parts pq sel
      (fresh_attempt (hp_balancer proxy) budget body) = (s, out)"
    using assms(2) unfolding run_attempts_def Let_def by simp
  with attempt_slots [OF assms(1), where env = "ha_http env" and now = "ha_now env" and parts = parts and pq = pq
      and sel = sel and budget = budget and body = body] show ?thesis by simp
qed

text \<open>
  C26. After a request the balancer counts one connection more for the node whose slot the response
  still holds, and nothing else has changed: errors, retries and unexpected upgrades leave no trace.
\<close>

theorem handle_slots:
  assumes "list_all (\<lambda>b. active_count (hp_balancer proxy) (bk_id b) \<noteq> - 1) (service_backends name st)"
    and "handle env name st req proxy = (proxy', h)"
  shows "active_count (hp_balancer proxy') =
    (case hd_slot h of
       Some slot \<Rightarrow> (active_count (hp_balancer proxy))(slot := active_count (hp_balancer proxy) slot + 1)
     | None \<Rightarrow> active_count (hp_balancer proxy))"
proof -
  obtain s out where r: "run_attempts env name st req proxy = (s, out)" by fastforce
  obtain s' resp slot node where q: "response_of req s out = (s', resp, slot, node)" by (metis surj_pair)
  have h: "hd_slot h = slot" "hp_balancer proxy' = as_inner s'"
    using assms(2) r q by (auto simp: handle_def Let_def)
  note c = run_attempts_slots [OF assms(1) r]
  show ?thesis
  proof (cases out)
    case (OutError status reason)
    with c q h show ?thesis by (auto simp: response_of_def counts_with_def)
  next
    case (OutResponse rsp sl node_id)
    then have n: "active_count (hp_balancer proxy) sl \<noteq> - 1"
      using c assms(1) by (auto simp: kept_ok_def list_all_iff)
    have up: "active_count (as_inner s) = (active_count (hp_balancer proxy))(sl := active_count (hp_balancer proxy) sl + 1)"
      using c OutResponse by (simp add: counts_with_def)
    show ?thesis unfolding h
      using q up dropped_slot [OF up n] OutResponse by (auto simp: response_of_def split: if_splits)
  qed
qed

section \<open>A concrete request\<close>

definition ones :: "nat list" where
  "ones = [17, 17, 17, 17, 17, 17, 17, 17]"

definition sample_handle :: handle_env where
  "sample_handle = \<lparr>ha_http = refusing, ha_now = 0, ha_draw = (\<lambda>_. 0), ha_new_trace_id = hex_string (ones @ ones),
     ha_new_root_span = hex_string ones, ha_new_child_span = hex_string ones, ha_tracer = Some (F64_fin 1, 0),
     ha_header_ok = (\<lambda>_. True), ha_start = 10, ha_elapsed = 3\<rparr>"

definition sample_request :: Request where
  "sample_request = \<lparr>rq_method = ''GET'', rq_path = ''/'', rq_path_and_query = None, rq_headers = [],
     rq_body = \<lparr>inc_end_stream = True, inc_upper = None, inc_collect = Inr []\<rparr>\<rparr>"

lemma fresh_ids_sample: "fresh_ids sample_handle"
  unfolding fresh_ids_def
proof (intro conjI)
  show "\<exists>ds. draws_of 16 ds \<and> random_hex ds = Some (ha_new_trace_id sample_handle)"
    by (intro exI [of _ "[ones @ ones]"]) (simp add: draws_of_def sample_handle_def ones_def)
qed (intro exI [of _ "[ones]"], simp add: draws_of_def sample_handle_def ones_def)+

theorem handle_traces_witness:
  "coherent joined_state \<and> fresh_ids sample_handle \<and>
   hd_span (snd (handle sample_handle ''api'' joined_state sample_request new_http_proxy)) \<noteq> None"
proof -
  obtain proxy' h where h: "handle sample_handle ''api'' joined_state sample_request new_http_proxy = (proxy', h)" by fastforce
  have "trace_flags (upstream_trace sample_handle sample_request) = ''01''"
    by (simp add: upstream_trace_def request_trace_def sample_request_def trace_from_headers_def header_get_def
        sample_handle_def sample_new_trace_def trace_new_root_def trace_child_def)
  then have "trace_is_sampled (upstream_trace sample_handle sample_request)"
    by (simp add: trace_is_sampled_def from_str_radix_def to_digit_def)
  moreover have "ha_tracer sample_handle \<noteq> None" by (simp add: sample_handle_def)
  ultimately show ?thesis
    using handle_traces [OF coherent_joined fresh_ids_sample h] h coherent_joined fresh_ids_sample by simp
qed

theorem handle_slots_witness:
  "list_all (\<lambda>b. active_count (hp_balancer new_http_proxy) (bk_id b) \<noteq> - 1) (service_backends ''api'' joined_state) \<and>
   (case handle sample_handle ''api'' joined_state sample_request new_http_proxy of (proxy', h) \<Rightarrow>
      active_count (hp_balancer proxy') =
        (case hd_slot h of
           Some slot \<Rightarrow> (active_count new_inner)(slot := active_count new_inner slot + 1)
         | None \<Rightarrow> active_count new_inner))"
proof -
  have b: "hp_balancer new_http_proxy = new_inner" by (simp add: new_http_proxy_def)
  have "active_count new_inner k = 0" for k by (simp add: active_count_def new_inner_def)
  then have l: "list_all (\<lambda>b. active_count (hp_balancer new_http_proxy) (bk_id b) \<noteq> - 1) (service_backends ''api'' joined_state)"
    by (simp add: list_all_iff b)
  obtain proxy' h where h: "handle sample_handle ''api'' joined_state sample_request new_http_proxy = (proxy', h)" by fastforce
  show ?thesis using conjI [OF l handle_slots [OF l h, unfolded b]] h by simp
qed

end
