(* ===== verification/Http_Listener.thy ===== *)
theory Http_Listener
  imports Http_Handle
begin

text \<open>
  The shared HTTP listener (\<^verbatim>\<open>src/subscribe/listener.rs\<close>): which service a request is for, by
  the host it names, and its dispatch to that service's proxy. Accepting connections is outside.
\<close>

record ListenerRequest =
  lr_uri_host :: "string option"
  lr_request :: Request

definition header_host :: "string \<Rightarrow> string" where
  "header_host v =
     (case strip_prefix ''['' v of
        Some rest \<Rightarrow> ''['' @ hd (split_on CHR '']'' rest) @ '']''
      | None \<Rightarrow> hd (split_on CHR '':'' v))"

definition request_host :: "ListenerRequest \<Rightarrow> string option" where
  "request_host req =
     (let raw = (case lr_uri_host req of
                   Some h \<Rightarrow> Some h
                 | None \<Rightarrow> map_option header_host (Option.bind (header_get (rq_headers (lr_request req)) ''host'') header_to_str))
      in Option.bind raw (\<lambda>r.
           let host = to_ascii_lowercase (trim_end_matches CHR ''.'' r) in
           if host = [] then None else Some host))"

definition visible_in :: "SubscribeFilter option \<Rightarrow> string \<Rightarrow> Service \<Rightarrow> bool" where
  "visible_in flt group_name s =
     (case flt of None \<Rightarrow> True | Some f \<Rightarrow> sf_is_empty f \<or> sf_allows f group_name (svc_name s))"

definition visible_services :: "SubscribeFilter option \<Rightarrow> DynamicConfig \<Rightarrow> Service list" where
  "visible_services flt dc = concat (map (\<lambda>g. filter (visible_in flt (sg_name g)) (sg_services g)) (dc_service_groups dc))"

definition claims_domain :: "string \<Rightarrow> Service \<Rightarrow> bool" where
  "claims_domain host s \<longleftrightarrow> list_ex (\<lambda>d. eq_ignore_ascii_case (trim_end_matches CHR ''.'' d) host) (svc_domains s)"

definition resolve_service :: "string \<Rightarrow> DynamicConfig \<Rightarrow> SubscribeFilter option \<Rightarrow> string option" where
  "resolve_service host dc flt =
     (case find (\<lambda>s. eq_ignore_ascii_case (svc_name s) host) (visible_services flt dc) of
        Some svc \<Rightarrow> Some (svc_name svc)
      | None \<Rightarrow> map_option svc_name (find (claims_domain host) (visible_services flt dc)))"

definition rejected :: "nat \<Rightarrow> string \<Rightarrow> handled" where
  "rejected status reason = \<lparr>hd_response = error_response status reason, hd_slot = None, hd_node = None,
     hd_sends = [], hd_span = None\<rparr>"

definition dispatch ::
  "handle_env \<Rightarrow> SharedState \<Rightarrow> HttpProxies \<Rightarrow> ListenerRequest \<Rightarrow> HttpProxies \<times> handled" where
  "dispatch env st proxies req =
     (if rq_method (lr_request req) = ''CONNECT'' then (proxies, rejected 501 ''connect_not_supported'')
      else
        (case request_host req of
           None \<Rightarrow> (proxies, rejected 400 ''missing_host'')
         | Some host \<Rightarrow>
             (case resolve_service host (ss_dynamic_config st) (cfg_subscribe_filter (ss_config st)) of
                None \<Rightarrow> (proxies, rejected 404 ''unknown_service'')
              | Some service \<Rightarrow>
                  if \<not> service_is_http service st then (proxies, rejected 501 ''service_not_http'')
                  else
                    let (proxies1, proxy) = proxies_get proxies service;
                        (proxy', h) = handle env service st (lr_request req) proxy
                    in (proxies1(service \<mapsto> proxy'), h))))"

section \<open>What a host name resolves to\<close>

definition named_by :: "string \<Rightarrow> Service \<Rightarrow> bool" where
  "named_by host s \<longleftrightarrow> eq_ignore_ascii_case (svc_name s) host"

text \<open>
  A host resolves to the first visible service of that name, whatever the case; only if there is
  none, to the first visible service that claims the host as a domain; and to nothing exactly if no
  visible service has it as name or domain. A service hidden by the subscribe filter is never found
  through a group or name the filter does not list.
\<close>

theorem resolve_service_spec:
  "(resolve_service host dc flt = None \<longleftrightarrow>
      (\<forall>s \<in> set (visible_services flt dc). \<not> named_by host s \<and> \<not> claims_domain host s)) \<and>
   (\<forall>name. resolve_service host dc flt = Some name \<longrightarrow>
      (\<exists>g \<in> set (dc_service_groups dc). \<exists>s \<in> set (sg_services g).
         svc_name s = name \<and> visible_in flt (sg_name g) s \<and> (named_by host s \<or> claims_domain host s)) \<and>
      ((\<exists>s \<in> set (visible_services flt dc). named_by host s) \<longrightarrow> eq_ignore_ascii_case name host))"
proof -
  let ?vs = "visible_services flt dc"
  have mem: "s \<in> set ?vs \<longleftrightarrow> (\<exists>g \<in> set (dc_service_groups dc). s \<in> set (sg_services g) \<and> visible_in flt (sg_name g) s)" for s
    by (auto simp: visible_services_def)
  show ?thesis
  proof (cases "find (named_by host) ?vs")
    case None
    then have no: "\<forall>s \<in> set ?vs. \<not> named_by host s" by (auto simp: find_None_iff)
    have res: "resolve_service host dc flt = map_option svc_name (find (claims_domain host) ?vs)"
      using None by (simp add: resolve_service_def named_by_def [abs_def])
    show ?thesis
    proof (cases "find (claims_domain host) ?vs")
      case None
      then have "\<forall>s \<in> set ?vs. \<not> claims_domain host s" by (simp add: find_None_iff)
      then show ?thesis using None no res by simp
    next
      case (Some s)
      then have "s \<in> set ?vs" "claims_domain host s" by (auto simp: find_Some_iff)
      then show ?thesis using Some no res mem by auto
    qed
  next
    case (Some s)
    then have s: "s \<in> set ?vs" "named_by host s" by (auto simp: find_Some_iff)
    have res: "resolve_service host dc flt = Some (svc_name s)"
      using Some by (simp add: resolve_service_def named_by_def [abs_def])
    show ?thesis using s res mem [of s] by (auto simp: named_by_def)
  qed
qed

text \<open>
  The shared listener reaches the mesh only for a service that is visible under the subscribe
  filter and HTTP in every instance, and only that service's proxy changes; every other request is
  answered by the listener itself, with the error marked in the response, and changes nothing.
\<close>

theorem dispatch_scope:
  "case dispatch env st proxies req of (proxies', h) \<Rightarrow>
     (\<exists>status reason. status \<in> {400, 404, 501} \<and> proxies' = proxies \<and> h = rejected status reason \<and>
        header_get (re_headers (hd_response h)) ERROR_HEADER = Some reason) \<or>
     (\<exists>host service proxy'. request_host req = Some host \<and>
        resolve_service host (ss_dynamic_config st) (cfg_subscribe_filter (ss_config st)) = Some service \<and>
        service_is_http service st \<and> proxies' = proxies(service \<mapsto> proxy') \<and>
        handle env service st (lr_request req)
          (case proxies service of Some p \<Rightarrow> p | None \<Rightarrow> new_http_proxy) = (proxy', h))"
proof -
  have e: "header_get (re_headers (error_response status reason)) ERROR_HEADER = Some reason" for status reason
    by (simp add: error_response_def header_insert_def header_remove_def header_get_def ERROR_HEADER_def)
  show ?thesis
    using e by (auto simp: dispatch_def Let_def rejected_def proxies_get_def fun_eq_iff split: option.split prod.split)
qed

theorem resolve_service_spec_witness:
  "resolve_service ''api'' sample_dc None = Some ''api'' \<and>
   (\<exists>g \<in> set (dc_service_groups sample_dc). \<exists>s \<in> set (sg_services g). svc_name s = ''api'')"
proof -
  have "resolve_service ''api'' sample_dc None = Some ''api''"
    by (simp add: resolve_service_def visible_services_def visible_in_def sample_dc_def sample_service_def
        eq_ignore_ascii_case_def)
  with resolve_service_spec [of "''api''" sample_dc None] show ?thesis by blast
qed

end
