(* ===== verification/Proxy_Manager.thy ===== *)
theory Proxy_Manager
  imports Http_Handle
begin

text \<open>
  The subscriber's proxy manager (\<^verbatim>\<open>manage_proxies\<close> in \<^verbatim>\<open>src/subscribe/mod.rs\<close>): every two
  seconds it compares the services it should proxy with the proxies that run, stops and starts
  proxies, and keeps the table that the REST API reads. Whether a listener can be started, and the
  order in which a hash map is walked, are parameters.
\<close>

section \<open>State\<close>

record ServiceInfo =
  si_port :: u16
  si_domains :: "string list"
  si_meta :: string_map

record DesiredService =
  ds_name :: string
  ds_domains :: "string list"
  ds_meta :: string_map
  ds_local_port :: "u16 option"

record ProxyHandle =
  ph_service_name :: string
  ph_requested_port :: "u16 option"

text \<open>\<open>StartLost\<close>: the proxy task ended without reporting a port.\<close>

datatype start_result = Started u16 | StartFailed string | StartLost

record manager =
  mg_proxies :: "(string, ProxyHandle) hash_map"
  mg_service_ports :: "(string, ServiceInfo) hash_map"
  mg_start_errors :: "string \<rightharpoonup> string"
  mg_port_conflicts :: "string \<rightharpoonup> string"
  mg_http :: HttpProxies

record manage_env =
  me_order :: "(string \<times> DesiredService) list \<Rightarrow> (string \<times> DesiredService) list"
  me_start :: "string \<Rightarrow> string \<Rightarrow> u16 option \<Rightarrow> start_result"

definition new_manager :: manager where
  "new_manager = \<lparr>mg_proxies = [], mg_service_ports = [], mg_start_errors = Map.empty,
     mg_port_conflicts = Map.empty, mg_http = Map.empty\<rparr>"

section \<open>One pass\<close>

definition service_key :: "string \<Rightarrow> string \<Rightarrow> string" where
  "service_key group_name service_name = group_name @ ''/'' @ service_name"

definition skip_service :: "Config \<Rightarrow> string \<Rightarrow> Service \<Rightarrow> bool" where
  "skip_service cfg group_name svc \<longleftrightarrow>
     (cfg_mode cfg = NodeSubscribe \<and> svc_node_id svc = cfg_node_id cfg) \<or>
     (case cfg_subscribe_filter cfg of
        Some flt \<Rightarrow> \<not> sf_is_empty flt \<and> \<not> sf_allows flt group_name (svc_name svc)
      | None \<Rightarrow> False)"

text \<open>\<open>seen_svc_keys\<close> holds the keys of \<open>desired\<close>: the two are always extended together.\<close>

definition desire_service ::
  "Config \<Rightarrow> DynamicConfig \<Rightarrow> (string, NodeInfo) hash_map \<Rightarrow> string \<Rightarrow> Service \<Rightarrow>
     (string, DesiredService) hash_map \<times> (string \<rightharpoonup> string) \<Rightarrow> (string, DesiredService) hash_map \<times> (string \<rightharpoonup> string)" where
  "desire_service cfg dc nodes group_name svc acc =
     (case acc of (desired, conflicts) \<Rightarrow>
        if skip_service cfg group_name svc then (desired, conflicts)
        else
          let key = service_key group_name (svc_name svc) in
          if hm_get nodes (svc_node_id svc) \<noteq> None \<and> hm_get desired key = None
          then
            let (local_port, conflicts') =
                  (case local_port_for dc (svc_name svc) of
                     Inr port \<Rightarrow> (port, conflicts(key := None))
                   | Inl e \<Rightarrow> (None, conflicts(key \<mapsto> e))) in
            (hm_insert desired key \<lparr>ds_name = svc_name svc, ds_domains = svc_domains svc, ds_meta = svc_meta svc,
               ds_local_port = local_port\<rparr>, conflicts')
          else (desired, conflicts))"

definition compute_desired ::
  "Config \<Rightarrow> DynamicConfig \<Rightarrow> (string, NodeInfo) hash_map \<Rightarrow> (string \<rightharpoonup> string) \<Rightarrow>
     (string, DesiredService) hash_map \<times> (string \<rightharpoonup> string)" where
  "compute_desired cfg dc nodes conflicts =
     fold (\<lambda>(group_name, svc). desire_service cfg dc nodes group_name svc)
       (concat (map (\<lambda>grp. map (Pair (sg_name grp)) (sg_services grp)) (dc_service_groups dc)))
       ([], conflicts)"

definition stop_proxy :: "string \<Rightarrow> manager \<Rightarrow> manager" where
  "stop_proxy key m =
     (case hm_get (mg_proxies m) key of
        Some hdl \<Rightarrow>
          m\<lparr>mg_proxies := hm_remove (mg_proxies m) key,
            mg_service_ports := hm_remove (mg_service_ports m) (ph_service_name hdl)\<rparr>
      | None \<Rightarrow> m)"

definition removed_keys :: "(string, DesiredService) hash_map \<Rightarrow> manager \<Rightarrow> string list" where
  "removed_keys desired m =
     map fst (filter (\<lambda>(key, hdl).
         case hm_get desired key of None \<Rightarrow> True | Some d \<Rightarrow> ds_local_port d \<noteq> ph_requested_port hdl)
       (mg_proxies m))"

definition start_proxy :: "manage_env \<Rightarrow> string \<times> DesiredService \<Rightarrow> manager \<Rightarrow> manager" where
  "start_proxy env entry m =
     (case entry of (key, d) \<Rightarrow>
        case hm_get (mg_proxies m) key of
          Some hdl \<Rightarrow>
            (case hm_get (mg_service_ports m) (ph_service_name hdl) of
               Some info \<Rightarrow>
                 m\<lparr>mg_service_ports := hm_insert (mg_service_ports m) (ph_service_name hdl)
                     (info\<lparr>si_domains := ds_domains d, si_meta := ds_meta d\<rparr>)\<rparr>
             | None \<Rightarrow> m)
        | None \<Rightarrow>
            if hm_get (mg_service_ports m) (ds_name d) \<noteq> None then m
            else
              (case me_start env key (ds_name d) (ds_local_port d) of
                 Started port \<Rightarrow>
                   m\<lparr>mg_start_errors := (mg_start_errors m)(key := None),
                     mg_service_ports := hm_insert (mg_service_ports m) (ds_name d)
                       \<lparr>si_port = port, si_domains = ds_domains d, si_meta = ds_meta d\<rparr>,
                     mg_proxies := hm_insert (mg_proxies m) key
                       \<lparr>ph_service_name = ds_name d, ph_requested_port = ds_local_port d\<rparr>\<rparr>
               | StartFailed e \<Rightarrow> m\<lparr>mg_start_errors := (mg_start_errors m)(key \<mapsto> e)\<rparr>
               | StartLost \<Rightarrow> m))"

text \<open>
  How a proxy task starts: \<open>bind\<close> is the outcome of binding a port of the loopback address (None: the
  bound address cannot be read, and the task ends without reporting).
\<close>

definition run_proxy_start :: "(u16 \<Rightarrow> string + u16 option) \<Rightarrow> u16 option \<Rightarrow> start_result" where
  "run_proxy_start bind port =
     (let p = (case port of Some p \<Rightarrow> p | None \<Rightarrow> 0) in
      case bind p of
        Inl e \<Rightarrow> StartFailed (''bind 127.0.0.1:'' @ dec_string (unat p) @ '': '' @ e)
      | Inr None \<Rightarrow> StartLost
      | Inr (Some local_port) \<Rightarrow> Started local_port)"

definition manage_pass :: "manage_env \<Rightarrow> SharedState \<Rightarrow> manager \<Rightarrow> manager" where
  "manage_pass env st m =
     (let dc = ss_dynamic_config st;
          (desired, conflicts) = compute_desired (ss_config st) dc (ss_known_nodes st) (mg_port_conflicts m);
          m1 = m\<lparr>mg_port_conflicts := conflicts\<rparr>;
          m2 = fold stop_proxy (removed_keys desired m1) m1;
          m3 = m2\<lparr>mg_http := proxies_retain (mg_http m2) (\<lambda>name. \<exists>s \<in> set (all_services dc). svc_name s = name)\<rparr>
      in fold (start_proxy env) (me_order env desired) m3)"

section \<open>The two tables agree\<close>

abbreviation mg_running :: "manager \<Rightarrow> string \<Rightarrow> ProxyHandle option" where
  "mg_running m key \<equiv> hm_get (mg_proxies m) key"

abbreviation mg_listed :: "manager \<Rightarrow> string \<Rightarrow> ServiceInfo option" where
  "mg_listed m name \<equiv> hm_get (mg_service_ports m) name"

definition tables_ok :: "manager \<Rightarrow> bool" where
  "tables_ok m \<longleftrightarrow> hm_wf (mg_proxies m) \<and> hm_wf (mg_service_ports m) \<and>
     (\<forall>key h. mg_running m key = Some h \<longrightarrow> mg_listed m (ph_service_name h) \<noteq> None) \<and>
     (\<forall>key key' h h'. mg_running m key = Some h \<longrightarrow> mg_running m key' = Some h' \<longrightarrow>
        ph_service_name h = ph_service_name h' \<longrightarrow> key = key') \<and>
     (\<forall>name. mg_listed m name \<noteq> None \<longrightarrow> (\<exists>key h. mg_running m key = Some h \<and> ph_service_name h = name))"

lemma tables_ok_new: "tables_ok new_manager"
  by (simp add: tables_ok_def new_manager_def)

lemma stop_proxy_ok: "tables_ok m \<Longrightarrow> tables_ok (stop_proxy key m)"
  unfolding tables_ok_def stop_proxy_def by (auto split: option.splits; metis option.inject)

lemma start_proxy_ok: "tables_ok m \<Longrightarrow> tables_ok (start_proxy env entry m)"
  unfolding tables_ok_def start_proxy_def
  by (auto split: option.splits prod.splits start_result.splits; metis option.inject option.distinct(1))

lemma hm_insert_same: "hm_get m k = Some v \<Longrightarrow> hm_insert m k v = m"
  by (induction m) auto

lemma fold_keeps: "(\<And>x s. P s \<Longrightarrow> P (f x s)) \<Longrightarrow> P s \<Longrightarrow> P (fold f xs s)"
  by (induction xs arbitrary: s) auto

lemma tables_ok_cong:
  "tables_ok m \<Longrightarrow> mg_proxies m' = mg_proxies m \<Longrightarrow> mg_service_ports m' = mg_service_ports m \<Longrightarrow> tables_ok m'"
  by (simp add: tables_ok_def)

lemma manage_pass_ok:
  assumes "tables_ok m"
  shows "tables_ok (manage_pass env st m)"
proof -
  have "tables_ok (fold stop_proxy keys (m\<lparr>mg_port_conflicts := c\<rparr>))" for keys c
    by (rule fold_keeps [where P = tables_ok, OF stop_proxy_ok tables_ok_cong [OF assms]]) simp_all
  then have "tables_ok ((fold stop_proxy keys (m\<lparr>mg_port_conflicts := c\<rparr>))\<lparr>mg_http := h\<rparr>)" for keys c h
    by (rule tables_ok_cong) simp_all
  then show ?thesis
    unfolding manage_pass_def Let_def by (auto intro!: fold_keeps [where P = tables_ok, OF start_proxy_ok] split: prod.split)
qed

text \<open>The manager after a sequence of passes.\<close>

definition manager_after :: "(manage_env \<times> SharedState) list \<Rightarrow> manager" where
  "manager_after passes = fold (\<lambda>(env, st). manage_pass env st) passes new_manager"

text \<open>
  After any sequence of passes, over whatever configurations, the running proxies and the table
  that the REST API serves agree: every running proxy is listed under its service name, no two
  proxies share a name, and nothing is listed that does not run.
\<close>

lemma manager_after_ok: "tables_ok (manager_after passes)"
  unfolding manager_after_def by (rule fold_keeps [where P = tables_ok]) (auto intro: manage_pass_ok tables_ok_new)

section \<open>What is desired\<close>

definition all_instances :: "DynamicConfig \<Rightarrow> (string \<times> Service) list" where
  "all_instances dc = concat (map (\<lambda>grp. map (Pair (sg_name grp)) (sg_services grp)) (dc_service_groups dc))"

definition wanted :: "SharedState \<Rightarrow> string \<times> Service \<Rightarrow> bool" where
  "wanted st inst \<longleftrightarrow> (case inst of (group_name, svc) \<Rightarrow>
     \<not> skip_service (ss_config st) group_name svc \<and> hm_get (ss_known_nodes st) (svc_node_id svc) \<noteq> None)"

definition instance_key :: "string \<times> Service \<Rightarrow> string" where
  "instance_key inst = (case inst of (group_name, svc) \<Rightarrow> service_key group_name (svc_name svc))"

definition desired_of :: "DynamicConfig \<Rightarrow> Service \<Rightarrow> DesiredService" where
  "desired_of dc svc = \<lparr>ds_name = svc_name svc, ds_domains = svc_domains svc, ds_meta = svc_meta svc,
     ds_local_port = (case local_port_for dc (svc_name svc) of Inr port \<Rightarrow> port | Inl _ \<Rightarrow> None)\<rparr>"

definition desired_services :: "SharedState \<Rightarrow> (string, DesiredService) hash_map" where
  "desired_services st = fst (compute_desired (ss_config st) (ss_dynamic_config st) (ss_known_nodes st) Map.empty)"

lemma desire_service_fst:
  "fst (desire_service (ss_config st) dc (ss_known_nodes st) g svc (des, conf)) =
     (if wanted st (g, svc) \<and> hm_get des (instance_key (g, svc)) = None
      then hm_insert des (instance_key (g, svc)) (desired_of dc svc) else des)"
  by (auto simp: desire_service_def wanted_def instance_key_def desired_of_def Let_def split: sum.splits)

definition desire_all :: "SharedState \<Rightarrow> DynamicConfig \<Rightarrow> (string \<times> Service) list \<Rightarrow> (string, DesiredService) hash_map \<Rightarrow> (string, DesiredService) hash_map" where
  "desire_all st dc = fold (\<lambda>inst des. if wanted st inst \<and> hm_get des (instance_key inst) = None
     then hm_insert des (instance_key inst) (desired_of dc (snd inst)) else des)"

lemma compute_desired_fold:
  "fst (fold (\<lambda>(g, svc). desire_service (ss_config st) dc (ss_known_nodes st) g svc) xs (des, conf)) = desire_all st dc xs des"
proof (induction xs arbitrary: des conf)
  case (Cons x xs)
  obtain g svc where x: "x = (g, svc)" by fastforce
  obtain des' conf' where d: "desire_service (ss_config st) dc (ss_known_nodes st) g svc (des, conf) = (des', conf')" by fastforce
  have "des' = (if wanted st (g, svc) \<and> hm_get des (instance_key (g, svc)) = None
      then hm_insert des (instance_key (g, svc)) (desired_of dc svc) else des)"
    using desire_service_fst [of st dc g svc des conf] d by simp
  then show ?case using Cons.IH [of des' conf'] d by (simp add: x desire_all_def)
qed (simp add: desire_all_def)

lemma compute_desired_fst:
  "fst (compute_desired (ss_config st) (ss_dynamic_config st) (ss_known_nodes st) conf) = desired_services st"
  by (simp add: compute_desired_def desired_services_def compute_desired_fold)

lemma desire_all_get:
  "hm_get (desire_all st dc xs des) key =
     (case hm_get des key of
        Some d \<Rightarrow> Some d
      | None \<Rightarrow> map_option (\<lambda>inst. desired_of dc (snd inst)) (find (\<lambda>inst. wanted st inst \<and> instance_key inst = key) xs))"
proof (induction xs arbitrary: des)
  case (Cons x xs)
  have "desire_all st dc (x # xs) des = desire_all st dc xs (if wanted st x \<and> hm_get des (instance_key x) = None
      then hm_insert des (instance_key x) (desired_of dc (snd x)) else des)"
    by (simp add: desire_all_def)
  then show ?case using Cons.IH by (auto split: option.splits)
qed (simp add: desire_all_def split: option.splits)

lemma desired_get:
  "hm_get (desired_services st) key = map_option (\<lambda>inst. desired_of (ss_dynamic_config st) (snd inst))
     (find (\<lambda>inst. wanted st inst \<and> instance_key inst = key) (all_instances (ss_dynamic_config st)))"
  unfolding desired_services_def compute_desired_def all_instances_def compute_desired_fold
  by (simp add: desire_all_get)

lemma hm_wf_desire_all: "hm_wf des \<Longrightarrow> hm_wf (desire_all st dc xs des)"
  unfolding desire_all_def by (rule fold_keeps [where P = hm_wf]) auto

lemma hm_wf_desired: "hm_wf (desired_services st)"
  unfolding desired_services_def compute_desired_def compute_desired_fold by (rule hm_wf_desire_all) simp

section \<open>A pass settles every service\<close>

lemma stop_proxy_running: "mg_running (stop_proxy k m) key = (if key = k then None else mg_running m key)"
  by (auto simp: stop_proxy_def split: option.splits)

lemma stop_all_running: "mg_running (fold stop_proxy keys m) key = (if key \<in> set keys then None else mg_running m key)"
  by (induction keys arbitrary: m) (auto simp: stop_proxy_running)

definition matches_desired :: "(string, DesiredService) hash_map \<Rightarrow> manager \<Rightarrow> bool" where
  "matches_desired desired m \<longleftrightarrow>
     (\<forall>key h. mg_running m key = Some h \<longrightarrow> (\<exists>d. hm_get desired key = Some d \<and> ds_local_port d = ph_requested_port h))"

lemma stopped_matches:
  assumes "hm_wf (mg_proxies m)"
  shows "matches_desired desired (fold stop_proxy (removed_keys desired m) m)"
  unfolding matches_desired_def
proof (intro allI impI)
  fix key h assume a: "mg_running (fold stop_proxy (removed_keys desired m) m) key = Some h"
  then have r: "mg_running m key = Some h" "key \<notin> set (removed_keys desired m)"
    by (auto simp: stop_all_running split: if_splits)
  then have "(key, h) \<in> set (mg_proxies m)" using assms by (simp add: hm_wf_get_iff)
  with r(2) show "\<exists>d. hm_get desired key = Some d \<and> ds_local_port d = ph_requested_port h"
    by (force simp: removed_keys_def split: option.splits)
qed

definition settled :: "manage_env \<Rightarrow> manager \<Rightarrow> string \<times> DesiredService \<Rightarrow> bool" where
  "settled env m entry \<longleftrightarrow>
     (case entry of (key, d) \<Rightarrow>
        case mg_running m key of
          Some h \<Rightarrow> (\<exists>info. mg_listed m (ph_service_name h) = Some info \<and> si_domains info = ds_domains d \<and> si_meta info = ds_meta d)
        | None \<Rightarrow> mg_listed m (ds_name d) \<noteq> None \<or> (\<forall>port. me_start env key (ds_name d) (ds_local_port d) \<noteq> Started port))"

lemma start_proxy_settles: "tables_ok m \<Longrightarrow> settled env (start_proxy env entry m) entry"
  unfolding tables_ok_def start_proxy_def settled_def
  by (auto split: option.splits prod.splits start_result.splits; metis option.distinct(1))

lemma start_proxy_keeps:
  "tables_ok m \<Longrightarrow> settled env m (key, d) \<Longrightarrow> key' \<noteq> key \<Longrightarrow> settled env (start_proxy env (key', d') m) (key, d)"
  unfolding tables_ok_def start_proxy_def settled_def
  by (auto split: option.splits prod.splits start_result.splits; metis option.inject option.distinct(1))

lemma start_all_settled:
  "tables_ok m \<Longrightarrow> distinct (map fst es) \<Longrightarrow> \<forall>e \<in> set ds. settled env m e \<and> fst e \<notin> fst ` set es \<Longrightarrow>
   \<forall>e \<in> set (ds @ es). settled env (fold (start_proxy env) es m) e"
proof (induction es arbitrary: m ds)
  case (Cons e es)
  have ok: "tables_ok (start_proxy env e m)" by (rule start_proxy_ok [OF Cons.prems(1)])
  have "settled env (start_proxy env e m) x \<and> fst x \<notin> fst ` set es" if "x \<in> set (ds @ [e])" for x
  proof (cases "x = e")
    case True
    then show ?thesis using Cons.prems(2) start_proxy_settles [OF Cons.prems(1)] by simp
  next
    case False
    then have "settled env m x" "fst x \<noteq> fst e" "fst x \<notin> fst ` set es" using that Cons.prems(3) by auto
    then show ?thesis using start_proxy_keeps [OF Cons.prems(1)] by (cases x; cases e) auto
  qed
  then have "\<forall>x \<in> set (ds @ [e]). settled env (start_proxy env e m) x \<and> fst x \<notin> fst ` set es" by blast
  from Cons.IH [OF ok _ this] Cons.prems(2) show ?case by simp
qed simp

lemma start_all_matches:
  assumes "\<forall>(key, d) \<in> set es. hm_get desired key = Some d" "matches_desired desired m"
  shows "matches_desired desired (fold (start_proxy env) es m)"
  using assms
proof (induction es arbitrary: m)
  case (Cons e es)
  obtain key d where e: "e = (key, d)" by fastforce
  have "matches_desired desired (start_proxy env e m)"
    using Cons.prems unfolding matches_desired_def e start_proxy_def
    by (auto split: option.splits start_result.splits)
  then show ?case using Cons by simp
qed simp

definition walks_all :: "manage_env \<Rightarrow> bool" where
  "walks_all env \<longleftrightarrow> (\<forall>xs. mset (me_order env xs) = mset xs)"

lemma order_desired:
  assumes "walks_all env"
  shows "set (me_order env (desired_services st)) = set (desired_services st)"
    "distinct (map fst (me_order env (desired_services st)))"
    "\<forall>(key, d) \<in> set (me_order env (desired_services st)). hm_get (desired_services st) key = Some d"
proof -
  have m: "mset (me_order env (desired_services st)) = mset (desired_services st)" using assms by (simp add: walks_all_def)
  then show s: "set (me_order env (desired_services st)) = set (desired_services st)" by (rule mset_eq_setD)
  have "mset (map fst (me_order env (desired_services st))) = mset (map fst (desired_services st))" using m by simp
  then show "distinct (map fst (me_order env (desired_services st)))"
    using hm_wf_desired [of st] unfolding hm_wf_def by (metis mset_eq_imp_distinct_iff)
  show "\<forall>(key, d) \<in> set (me_order env (desired_services st)). hm_get (desired_services st) key = Some d"
    using s hm_wf_desired [of st] by (auto simp: hm_wf_get_iff [symmetric])
qed

text \<open>The state before the starts of a pass.\<close>

definition after_stops :: "SharedState \<Rightarrow> manager \<Rightarrow> manager" where
  "after_stops st m =
     (let m1 = m\<lparr>mg_port_conflicts :=
                snd (compute_desired (ss_config st) (ss_dynamic_config st) (ss_known_nodes st) (mg_port_conflicts m))\<rparr>;
          m2 = fold stop_proxy (removed_keys (desired_services st) m1) m1
      in m2\<lparr>mg_http := proxies_retain (mg_http m2)
              (\<lambda>name. \<exists>s \<in> set (all_services (ss_dynamic_config st)). svc_name s = name)\<rparr>)"

lemma manage_pass_eq:
  "manage_pass env st m = fold (start_proxy env) (me_order env (desired_services st)) (after_stops st m)"
  using compute_desired_fst [of st "mg_port_conflicts m"]
  by (auto simp: manage_pass_def after_stops_def Let_def split: prod.split)

lemma after_stops_ok: "tables_ok m \<Longrightarrow> tables_ok (after_stops st m)"
  unfolding after_stops_def Let_def
  by (rule tables_ok_cong [OF fold_keeps [where P = tables_ok, OF stop_proxy_ok tables_ok_cong]]) simp_all

lemma after_stops_matches:
  assumes "tables_ok m"
  shows "matches_desired (desired_services st) (after_stops st m)"
proof -
  let ?m1 = "m\<lparr>mg_port_conflicts := snd (compute_desired (ss_config st) (ss_dynamic_config st) (ss_known_nodes st) (mg_port_conflicts m))\<rparr>"
  have "hm_wf (mg_proxies ?m1)" using assms by (simp add: tables_ok_def)
  from stopped_matches [OF this, of "desired_services st"] show ?thesis
    by (simp add: after_stops_def Let_def matches_desired_def)
qed

lemma manage_pass_settled:
  assumes "tables_ok m" "walks_all env"
  shows "matches_desired (desired_services st) (manage_pass env st m)"
    "\<forall>e \<in> set (desired_services st). settled env (manage_pass env st m) e"
proof -
  note od = order_desired [OF assms(2), of st]
  show "matches_desired (desired_services st) (manage_pass env st m)"
    unfolding manage_pass_eq by (rule start_all_matches [OF od(3) after_stops_matches [OF assms(1)]])
  show "\<forall>e \<in> set (desired_services st). settled env (manage_pass env st m) e"
    using start_all_settled [OF after_stops_ok [OF assms(1)] od(2), where ds = "[]" and env = env] od(1)
    unfolding manage_pass_eq by simp
qed

section \<open>The served names\<close>

definition slash_free :: "string \<Rightarrow> bool" where
  "slash_free s \<longleftrightarrow> CHR ''/'' \<notin> set s"

text \<open>The key of a proxy ends in the name of the service it was started for.\<close>

definition keys_named :: "manager \<Rightarrow> bool" where
  "keys_named m \<longleftrightarrow> (\<forall>key h. mg_running m key = Some h \<longrightarrow>
     slash_free (ph_service_name h) \<and> (\<exists>g. key = service_key g (ph_service_name h)))"

lemma service_key_inj:
  assumes "slash_free n" "slash_free n'" "service_key g n = service_key g' n'"
  shows "n = n'"
  using assms rsplit_once_Some [of "CHR ''/''" "service_key g n"]
  by (metis Cons_eq_appendI append_Nil option.inject prod.inject service_key_def slash_free_def)

lemma desired_entry:
  assumes "hm_get (desired_services st) key = Some d"
  obtains g svc where "(g, svc) \<in> set (all_instances (ss_dynamic_config st))" "wanted st (g, svc)"
    "key = service_key g (svc_name svc)" "d = desired_of (ss_dynamic_config st) svc"
proof -
  obtain inst where i: "find (\<lambda>inst. wanted st inst \<and> instance_key inst = key) (all_instances (ss_dynamic_config st)) = Some inst"
    "d = desired_of (ss_dynamic_config st) (snd inst)"
    using assms by (auto simp: desired_get)
  obtain g svc where inst: "inst = (g, svc)" by fastforce
  have "inst \<in> set (all_instances (ss_dynamic_config st)) \<and> wanted st inst \<and> instance_key inst = key"
    using i(1) by (auto simp: find_Some_iff)
  then show ?thesis using that [of g svc] i(2) by (auto simp: inst instance_key_def)
qed

lemma wanted_desired:
  assumes "(g, svc) \<in> set (all_instances (ss_dynamic_config st))" "wanted st (g, svc)"
  shows "\<exists>d. hm_get (desired_services st) (service_key g (svc_name svc)) = Some d"
proof -
  have "find (\<lambda>inst. wanted st inst \<and> instance_key inst = service_key g (svc_name svc))
      (all_instances (ss_dynamic_config st)) \<noteq> None"
    using assms by (auto simp: find_None_iff instance_key_def)
  then show ?thesis by (auto simp: desired_get)
qed

lemma all_instances_services: "(g, svc) \<in> set (all_instances dc) \<Longrightarrow> svc \<in> set (all_services dc)"
  by (auto simp: all_instances_def all_services_def)

definition names_plain :: "SharedState \<Rightarrow> bool" where
  "names_plain st \<longleftrightarrow> list_all (\<lambda>s. slash_free (svc_name s)) (all_services (ss_dynamic_config st))"

lemma desired_named:
  assumes "names_plain st" "hm_get (desired_services st) key = Some d"
  shows "slash_free (ds_name d) \<and> (\<exists>g. key = service_key g (ds_name d))"
  using assms(2)
proof (cases rule: desired_entry)
  case (1 g svc)
  then show ?thesis
    using assms(1) all_instances_services [OF 1(1)] by (auto simp: names_plain_def list_all_iff desired_of_def)
qed

lemma running_name:
  assumes "keys_named m" "mg_running m key = Some h" "names_plain st" "hm_get (desired_services st) key = Some d"
  shows "ph_service_name h = ds_name d"
  using assms(1,2) desired_named [OF assms(3,4)] service_key_inj unfolding keys_named_def by metis

lemma keys_named_start:
  "keys_named m \<Longrightarrow> slash_free (ds_name d) \<and> (\<exists>g. key = service_key g (ds_name d)) \<Longrightarrow> keys_named (start_proxy env (key, d) m)"
  unfolding keys_named_def start_proxy_def by (auto split: option.splits start_result.splits)

lemma keys_named_start_all:
  assumes "\<forall>(key, d) \<in> set es. slash_free (ds_name d) \<and> (\<exists>g. key = service_key g (ds_name d))" "keys_named m"
  shows "keys_named (fold (start_proxy env) es m)"
  using assms
proof (induction es arbitrary: m)
  case (Cons e es)
  then show ?case using keys_named_start [of m] by (cases e) auto
qed simp

lemma keys_named_pass:
  assumes "keys_named m" "names_plain st" "walks_all env"
  shows "keys_named (manage_pass env st m)"
  unfolding manage_pass_eq
proof (rule keys_named_start_all)
  show "keys_named (after_stops st m)"
    using assms(1) by (auto simp: after_stops_def Let_def keys_named_def stop_all_running split: if_splits)
  show "\<forall>(key, d) \<in> set (me_order env (desired_services st)). slash_free (ds_name d) \<and> (\<exists>g. key = service_key g (ds_name d))"
    using order_desired(3) [OF assms(3), of st] desired_named [OF assms(2)] by blast
qed

lemma manager_after_named:
  "list_all (\<lambda>(env, st). walks_all env \<and> names_plain st) passes \<Longrightarrow> keys_named (manager_after passes)"
proof (induction passes rule: rev_induct)
  case Nil
  show ?case by (simp add: manager_after_def keys_named_def new_manager_def)
next
  case (snoc p passes)
  then show ?case using keys_named_pass by (cases p) (auto simp: manager_after_def)
qed

definition starts_all :: "manage_env \<Rightarrow> bool" where
  "starts_all env \<longleftrightarrow> (\<forall>key name port. \<exists>p. me_start env key name port = Started p)"

lemma settled_listed:
  assumes "starts_all env" "settled env m (key, d)" "tables_ok m" "keys_named m" "names_plain st"
    "hm_get (desired_services st) key = Some d"
  shows "mg_listed m (ds_name d) \<noteq> None"
proof (cases "mg_running m key")
  case None
  then show ?thesis using assms(1,2) by (simp add: settled_def starts_all_def) metis
next
  case (Some h)
  have "ph_service_name h = ds_name d" by (rule running_name [OF assms(4) Some assms(5,6)])
  then show ?thesis using assms(3) Some unfolding tables_ok_def by metis
qed

lemma pass_lists_wanted:
  assumes "list_all (\<lambda>(env, st). walks_all env \<and> names_plain st) passes"
    and "walks_all env" "names_plain st" "starts_all env"
  shows "{name. mg_listed (manage_pass env st (manager_after passes)) name \<noteq> None} =
    {svc_name svc | g svc. (g, svc) \<in> set (all_instances (ss_dynamic_config st)) \<and> wanted st (g, svc)}"
proof -
  let ?m = "manage_pass env st (manager_after passes)"
  have ok: "tables_ok ?m" by (rule manage_pass_ok [OF manager_after_ok])
  have named: "keys_named ?m" by (rule keys_named_pass [OF manager_after_named [OF assms(1)] assms(3,2)])
  note set = manage_pass_settled [OF manager_after_ok assms(2), of st passes]
  show ?thesis
  proof (intro equalityI subsetI CollectI)
    fix name assume "name \<in> {name. mg_listed ?m name \<noteq> None}"
    then obtain key h where h: "mg_running ?m key = Some h" "ph_service_name h = name" using ok by (auto simp: tables_ok_def)
    then obtain d where d: "hm_get (desired_services st) key = Some d" using set(1) by (auto simp: matches_desired_def)
    have "name = ds_name d" using running_name [OF named h(1) assms(3) d] h(2) by simp
    with d show "\<exists>g svc. name = svc_name svc \<and> (g, svc) \<in> set (all_instances (ss_dynamic_config st)) \<and> wanted st (g, svc)"
      by (elim desired_entry) (auto simp: desired_of_def)
  next
    fix name assume "name \<in> {svc_name svc | g svc. (g, svc) \<in> set (all_instances (ss_dynamic_config st)) \<and> wanted st (g, svc)}"
    then obtain g svc where s: "name = svc_name svc" "(g, svc) \<in> set (all_instances (ss_dynamic_config st))" "wanted st (g, svc)"
      by auto
    then obtain d where d: "hm_get (desired_services st) (service_key g name) = Some d" using wanted_desired by blast
    then have e: "(service_key g name, d) \<in> set (desired_services st)" using hm_wf_desired by (simp add: hm_wf_get_iff)
    have "slash_free name" using s assms(3) all_instances_services by (auto simp: names_plain_def list_all_iff)
    then have "ds_name d = name" using desired_named [OF assms(3) d] service_key_inj by blast
    with settled_listed [OF assms(4) _ ok named assms(3) d] set(2) e show "mg_listed ?m name \<noteq> None" by blast
  qed
qed

section \<open>The served ports\<close>

text \<open>A socket bound to a port other than 0 has that port.\<close>

definition binds_as_asked :: "(u16 \<Rightarrow> string + u16 option) \<Rightarrow> bool" where
  "binds_as_asked bind \<longleftrightarrow> (\<forall>p l. p \<noteq> 0 \<longrightarrow> bind p = Inr (Some l) \<longrightarrow> l = p)"

definition starts_proxies :: "manage_env \<Rightarrow> bool" where
  "starts_proxies env \<longleftrightarrow> (\<exists>bind. binds_as_asked bind \<and> me_start env = (\<lambda>_ _. run_proxy_start bind))"

definition pinned :: "manager \<Rightarrow> bool" where
  "pinned m \<longleftrightarrow> (\<forall>key h p. mg_running m key = Some h \<longrightarrow> ph_requested_port h = Some p \<longrightarrow> p \<noteq> 0 \<longrightarrow>
     (\<exists>info. mg_listed m (ph_service_name h) = Some info \<and> si_port info = p))"

lemma starts_as_asked:
  "starts_proxies env \<Longrightarrow> me_start env key name (Some p) = Started l \<Longrightarrow> p \<noteq> 0 \<Longrightarrow> l = p"
  by (auto simp: starts_proxies_def run_proxy_start_def binds_as_asked_def split: sum.splits option.splits)

lemma pinned_stop: "tables_ok m \<Longrightarrow> pinned m \<Longrightarrow> pinned (stop_proxy key m)"
  unfolding tables_ok_def pinned_def stop_proxy_def by (auto split: option.splits if_splits; metis)

lemma pinned_start: "starts_proxies env \<Longrightarrow> tables_ok m \<Longrightarrow> pinned m \<Longrightarrow> pinned (start_proxy env entry m)"
  unfolding tables_ok_def pinned_def start_proxy_def
  by (auto split: option.splits prod.splits start_result.splits if_splits dest: starts_as_asked)
    (metis option.inject option.distinct(1))+

lemma pinned_pass:
  assumes "starts_proxies env" "tables_ok m" "pinned m"
  shows "pinned (manage_pass env st m)"
proof -
  have "tables_ok (fold stop_proxy keys m1) \<and> pinned (fold stop_proxy keys m1)" if "tables_ok m1" "pinned m1" for keys m1
    using that by (intro fold_keeps [where P = "\<lambda>m. tables_ok m \<and> pinned m"]) (auto intro: stop_proxy_ok pinned_stop)
  moreover have "tables_ok (fold (start_proxy env) es m1) \<and> pinned (fold (start_proxy env) es m1)"
    if "tables_ok m1" "pinned m1" for es m1
    using that assms(1) by (intro fold_keeps [where P = "\<lambda>m. tables_ok m \<and> pinned m"]) (auto intro: start_proxy_ok pinned_start)
  moreover have "tables_ok (m1\<lparr>mg_port_conflicts := c\<rparr>) \<and> pinned (m1\<lparr>mg_port_conflicts := c\<rparr>)"
      "tables_ok (m1\<lparr>mg_http := h\<rparr>) \<and> pinned (m1\<lparr>mg_http := h\<rparr>)" if "tables_ok m1" "pinned m1" for m1 c h
    using that by (simp_all add: tables_ok_def pinned_def)
  ultimately show ?thesis
    using assms(2,3) unfolding manage_pass_def Let_def by (simp split: prod.split)
qed

lemma manager_after_pinned:
  "list_all (\<lambda>(env, st). starts_proxies env) passes \<Longrightarrow> pinned (manager_after passes)"
proof (induction passes rule: rev_induct)
  case Nil
  show ?case by (simp add: manager_after_def pinned_def new_manager_def)
next
  case (snoc p passes)
  then show ?case using pinned_pass [OF _ manager_after_ok [of passes]] by (cases p) (auto simp: manager_after_def)
qed

lemma pass_pins_ports:
  assumes "list_all (\<lambda>(env, st). walks_all env \<and> names_plain st \<and> starts_proxies env) passes"
    and "walks_all env" "names_plain st" "starts_proxies env"
    and "mg_listed (manage_pass env st (manager_after passes)) name = Some info"
    and "local_port_for (ss_dynamic_config st) name = Inr (Some p)" "p \<noteq> 0"
  shows "si_port info = p"
proof -
  let ?m = "manage_pass env st (manager_after passes)"
  have p: "list_all (\<lambda>(env, st). walks_all env \<and> names_plain st) passes" "list_all (\<lambda>(env, st). starts_proxies env) passes"
    using assms(1) by (auto simp: list_all_iff)
  have ok: "tables_ok ?m" by (rule manage_pass_ok [OF manager_after_ok])
  have named: "keys_named ?m" by (rule keys_named_pass [OF manager_after_named [OF p(1)] assms(3,2)])
  obtain key h where h: "mg_running ?m key = Some h" "ph_service_name h = name"
    using ok assms(5) unfolding tables_ok_def by (metis option.distinct(1))
  obtain d where d: "hm_get (desired_services st) key = Some d" "ds_local_port d = ph_requested_port h"
    using manage_pass_settled(1) [OF manager_after_ok assms(2), of st passes] h(1) unfolding matches_desired_def by blast
  have n: "ds_name d = name" using running_name [OF named h(1) assms(3) d(1)] h(2) by simp
  from d(1) have "ds_local_port d = Some p"
    by (rule desired_entry) (use n assms(6) in \<open>auto simp: desired_of_def\<close>)
  then have "\<exists>info. mg_listed ?m name = Some info \<and> si_port info = p"
    using pinned_pass [OF assms(4) manager_after_ok manager_after_pinned [OF p(2)], of st] h d(2) assms(7)
    unfolding pinned_def by metis
  with assms(5) show ?thesis by simp
qed

text \<open>
  C19. Once a pass can start its listeners, the REST API lists exactly the services it should: those
  with an instance on a known node that the subscribe filter lets through and that are not the node's
  own; whatever ran before. A service whose configuration fixes a local port is listed under that
  port, also right after the port was changed. (The names contain no slash; proxies are keyed by
  group and name joined by one.)
\<close>

theorem manager_lists_wanted:
  assumes "list_all (\<lambda>(env, st). walks_all env \<and> names_plain st \<and> starts_proxies env) passes"
    and "walks_all env" "names_plain st" "starts_proxies env" "starts_all env"
  shows "{name. mg_listed (manage_pass env st (manager_after passes)) name \<noteq> None} =
      {svc_name svc | g svc. (g, svc) \<in> set (all_instances (ss_dynamic_config st)) \<and> wanted st (g, svc)} \<and>
    (\<forall>name info p. mg_listed (manage_pass env st (manager_after passes)) name = Some info \<longrightarrow>
      local_port_for (ss_dynamic_config st) name = Inr (Some p) \<longrightarrow> p \<noteq> 0 \<longrightarrow> si_port info = p)"
proof (intro conjI allI impI)
  have "list_all (\<lambda>(env, st). walks_all env \<and> names_plain st) passes" using assms(1) by (auto simp: list_all_iff)
  then show "{name. mg_listed (manage_pass env st (manager_after passes)) name \<noteq> None} =
      {svc_name svc | g svc. (g, svc) \<in> set (all_instances (ss_dynamic_config st)) \<and> wanted st (g, svc)}"
    by (rule pass_lists_wanted [OF _ assms(2,3,5)])
qed (rule pass_pins_ports [OF assms(1-4)])

section \<open>A pass that finds nothing changed changes nothing\<close>

definition same_tables :: "manager \<Rightarrow> manager \<Rightarrow> bool" where
  "same_tables m m' \<longleftrightarrow> mg_proxies m' = mg_proxies m \<and> mg_service_ports m' = mg_service_ports m"

lemma settled_start_idle:
  assumes "starts_all env" "settled env m e"
  shows "same_tables m (start_proxy env e m)"
proof -
  obtain key d where e: "e = (key, d)" by fastforce
  show ?thesis
  proof (cases "mg_running m key")
    case None
    then have "mg_listed m (ds_name d) \<noteq> None" using assms by (simp add: e settled_def starts_all_def) metis
    with None show ?thesis by (simp add: e start_proxy_def same_tables_def)
  next
    case (Some h)
    then obtain info where i: "mg_listed m (ph_service_name h) = Some info" "si_domains info = ds_domains d" "si_meta info = ds_meta d"
      using assms(2) by (auto simp: e settled_def)
    then have "info\<lparr>si_domains := ds_domains d, si_meta := ds_meta d\<rparr> = info" by (cases info) simp
    with Some i(1) show ?thesis by (simp add: e start_proxy_def same_tables_def hm_insert_same)
  qed
qed

lemma settled_cong: "same_tables m m1 \<Longrightarrow> settled env m1 e = settled env m e"
proof -
  assume "same_tables m m1"
  then have t: "mg_proxies m1 = mg_proxies m" "mg_service_ports m1 = mg_service_ports m" by (simp_all add: same_tables_def)
  show ?thesis unfolding settled_def t ..
qed

lemma settled_start_all_idle:
  assumes "starts_all env" "\<forall>e \<in> set es. settled env m e" "same_tables m m1"
  shows "same_tables m (fold (start_proxy env) es m1)"
  using assms(2,3)
proof (induction es arbitrary: m1)
  case (Cons e es)
  have "settled env m1 e" using Cons.prems settled_cong by simp
  from settled_start_idle [OF assms(1) this] have "same_tables m (start_proxy env e m1)"
    using Cons.prems(2) by (simp add: same_tables_def)
  with Cons show ?case by simp
qed simp

lemma removed_keys_none:
  "matches_desired desired m \<Longrightarrow> hm_wf (mg_proxies m) \<Longrightarrow> removed_keys desired m = []"
  unfolding removed_keys_def matches_desired_def
  by (auto simp: filter_empty_conv hm_wf_get_iff split: option.splits) (metis option.inject)+

lemma after_stops_idle:
  assumes "matches_desired (desired_services st) m" "tables_ok m"
  shows "same_tables m (after_stops st m)"
proof -
  let ?m1 = "m\<lparr>mg_port_conflicts := snd (compute_desired (ss_config st) (ss_dynamic_config st) (ss_known_nodes st) (mg_port_conflicts m))\<rparr>"
  have "removed_keys (desired_services st) ?m1 = []"
    by (rule removed_keys_none) (use assms in \<open>simp_all add: matches_desired_def tables_ok_def\<close>)
  then show ?thesis by (simp add: after_stops_def Let_def same_tables_def)
qed

text \<open>
  The manager comes to rest: when a pass has started everything it wanted, the next pass over an
  unchanged configuration stops no proxy, starts none and leaves the API's table as it is.
\<close>

theorem manager_stable:
  assumes "walks_all env" "starts_all env"
  shows "same_tables (manage_pass env st (manager_after passes))
    (manage_pass env st (manage_pass env st (manager_after passes)))"
proof -
  let ?m = "manage_pass env st (manager_after passes)"
  note set = manage_pass_settled [OF manager_after_ok assms(1), of st passes]
  have "same_tables ?m (after_stops st ?m)"
    by (rule after_stops_idle [OF set(1) manage_pass_ok [OF manager_after_ok]])
  moreover have "\<forall>e \<in> set (me_order env (desired_services st)). settled env ?m e"
    using set(2) order_desired(1) [OF assms(1)] by blast
  ultimately show ?thesis
    unfolding manage_pass_eq [of env st ?m] using settled_start_all_idle [OF assms(2)] by blast
qed

section \<open>A concrete manager\<close>

definition sample_bind :: "u16 \<Rightarrow> string + u16 option" where
  "sample_bind p = Inr (Some (if p = 0 then 15000 else p))"

definition sample_manage :: manage_env where
  "sample_manage = \<lparr>me_order = (\<lambda>xs. xs), me_start = (\<lambda>_ _. run_proxy_start sample_bind)\<rparr>"

lemma sample_manage_ok: "walks_all sample_manage" "starts_all sample_manage"
  by (simp_all add: walks_all_def starts_all_def sample_manage_def run_proxy_start_def sample_bind_def Let_def)

lemma sample_manage_starts: "starts_proxies sample_manage"
proof -
  have "binds_as_asked sample_bind" by (simp add: binds_as_asked_def sample_bind_def)
  then show ?thesis by (auto simp: starts_proxies_def sample_manage_def)
qed

lemma names_plain_joined: "names_plain joined_state"
  by (simp add: names_plain_def joined_state_def apply_message_config sample_dc_def all_services_def sample_service_def slash_free_def)

theorem manager_lists_wanted_witness:
  "names_plain joined_state \<and>
   {name. mg_listed (manage_pass sample_manage joined_state (manager_after [])) name \<noteq> None} =
     {svc_name svc | g svc. (g, svc) \<in> set (all_instances (ss_dynamic_config joined_state)) \<and> wanted joined_state (g, svc)}"
  using manager_lists_wanted [of "[]", OF _ sample_manage_ok(1) names_plain_joined sample_manage_starts sample_manage_ok(2)] names_plain_joined
  by simp

theorem manager_stable_witness:
  "same_tables (manage_pass sample_manage joined_state (manager_after []))
     (manage_pass sample_manage joined_state (manage_pass sample_manage joined_state (manager_after [])))"
  by (rule manager_stable [OF sample_manage_ok])

end
