(* ===== verification/Subscribe_Api.thy ===== *)
theory Subscribe_Api
  imports Proxy_Manager
begin

text \<open>
  What else the subscriber runs beside its proxies: the REST API over the manager's table
  (\<^verbatim>\<open>src/subscribe/api.rs\<close>), the tasks that keep warm connections and multiplexed sessions to the
  known nodes (\<^verbatim>\<open>src/subscribe/mod.rs\<close>), and the connector through which the HTTP client opens
  tunnels (\<^verbatim>\<open>src/subscribe/http.rs\<close>). Dialling is a parameter.
\<close>

section \<open>The REST API\<close>

definition loopback_addr :: "u16 \<Rightarrow> string" where
  "loopback_addr port = ''127.0.0.1:'' @ dec_string (unat port)"

definition json_strings :: "string list \<Rightarrow> json" where
  "json_strings xs = JArr (map JStr xs)"

definition json_string_map :: "string_map \<Rightarrow> json" where
  "json_string_map m = JObj (map (\<lambda>(k, v). (k, JStr v)) m)"

definition service_json :: "string \<Rightarrow> ServiceInfo \<Rightarrow> json" where
  "service_json name info = JObj [(''name'', JStr name), (''port'', JInt (uint (si_port info))),
     (''address'', JStr (loopback_addr (si_port info))), (''domains'', json_strings (si_domains info)),
     (''meta'', json_string_map (si_meta info))]"

definition list_services :: "(string, ServiceInfo) hash_map \<Rightarrow> json" where
  "list_services ports = JArr (map (\<lambda>(name, info). service_json name info) ports)"

definition get_service :: "(string, ServiceInfo) hash_map \<Rightarrow> string \<Rightarrow> nat \<times> json" where
  "get_service ports name =
     (if name = [] then (400, JObj [(''error'', JStr ''missing service name'')])
      else
        (case hm_get ports name of
           Some info \<Rightarrow> (200, service_json name info)
         | None \<Rightarrow> (404, JObj [(''error'', JStr (''service '' @ quoted name @ '' not found''))])))"

definition peer_json :: "SharedState \<Rightarrow> NodeInfo \<Rightarrow> json" where
  "peer_json st node = JObj [(''id'', JStr (ni_id node)), (''addr'', JStr (ni_addr node)),
     (''relay'', case ni_relay node of Some r \<Rightarrow> JStr r | None \<Rightarrow> JNull),
     (''tunnel_pool'', JInt (int (pool_count (ss_tunnel_pool st) (connect_addr node)))),
     (''reverse_pool'', JInt (int (pool_count (ss_reverse_pool st) (ni_id node))))]"

definition proxied_json :: "string \<Rightarrow> ServiceInfo \<Rightarrow> json" where
  "proxied_json name info = JObj [(''name'', JStr name), (''port'', JInt (uint (si_port info))),
     (''address'', JStr (loopback_addr (si_port info)))]"

definition health_check :: "SharedState \<Rightarrow> (string, ServiceInfo) hash_map \<Rightarrow> nat \<times> json" where
  "health_check st ports =
     (let nodes = ss_known_nodes st; healthy = (length nodes > 0) in
      (if healthy then 200 else 503,
       JObj [(''status'', JStr (if healthy then ''healthy'' else ''degraded'')),
         (''node_id'', JStr (cfg_node_id (ss_config st))),
         (''nodes'', JObj [(''count'', JInt (int (length nodes))), (''peers'', JArr (map (peer_json st) (hm_values nodes)))]),
         (''proxies'', JObj [(''count'', JInt (int (length ports))),
            (''services'', JArr (map (\<lambda>(name, info). proxied_json name info) ports))])]))"

section \<open>Warm connections\<close>

definition POOL_TARGET :: nat where
  "POOL_TARGET = 8"

definition pool_addrs :: "SharedState \<Rightarrow> string list" where
  "pool_addrs st =
     List.map_filter (\<lambda>node.
         let addr = connect_addr node in
         if addr = [] \<or> pool_count (ss_tunnel_pool st) addr \<ge> POOL_TARGET then None else Some addr)
       (hm_values (ss_known_nodes st))"

text \<open>One round: \<open>dial n addr\<close> is the connection the n-th attempt gets, after the TLS handshake.\<close>

fun fill_round :: "(nat \<Rightarrow> string \<Rightarrow> conn option) \<Rightarrow> nat \<Rightarrow> string list \<Rightarrow> StreamPool \<Rightarrow> StreamPool" where
  "fill_round dial n [] pool = pool"
| "fill_round dial n (addr # addrs) pool =
     fill_round dial (Suc n) addrs (case dial n addr of Some stream \<Rightarrow> pool_push pool addr stream | None \<Rightarrow> pool)"

definition fill_tunnel_pool :: "(nat \<Rightarrow> string \<Rightarrow> conn option) \<Rightarrow> SharedState \<Rightarrow> SharedState" where
  "fill_tunnel_pool dial st = st\<lparr>ss_tunnel_pool := fill_round dial 0 (pool_addrs st) (ss_tunnel_pool st)\<rparr>"

definition mux_addrs :: "SharedState \<Rightarrow> MuxPool \<Rightarrow> string list" where
  "mux_addrs st sessions =
     List.map_filter (\<lambda>node.
         let addr = connect_addr node in
         if addr = [] \<or> mux_contains sessions addr then None else Some addr)
       (hm_values (ss_known_nodes st))"

fun mux_round :: "(nat \<Rightarrow> string \<Rightarrow> nat option) \<Rightarrow> nat \<Rightarrow> string list \<Rightarrow> MuxPool \<Rightarrow> MuxPool" where
  "mux_round establish n [] sessions = sessions"
| "mux_round establish n (addr # addrs) sessions =
     mux_round establish (Suc n) addrs
       (case establish n addr of Some session \<Rightarrow> mux_insert sessions addr session | None \<Rightarrow> sessions)"

definition maintain_mux_sessions :: "(nat \<Rightarrow> string \<Rightarrow> nat option) \<Rightarrow> SharedState \<Rightarrow> MuxPool \<Rightarrow> MuxPool" where
  "maintain_mux_sessions establish st sessions = mux_round establish 0 (mux_addrs st sessions) sessions"

section \<open>The connector of the HTTP client\<close>

definition connector_call ::
  "tunnel_env \<Rightarrow> (conn \<Rightarrow> string + unit) \<Rightarrow> string option \<Rightarrow> SharedState \<Rightarrow> MuxPool \<Rightarrow> SharedState \<times> MuxPool \<times> (string + Tunnel)" where
  "connector_call env exchange host st sessions =
     (case Option.bind host node_id_from_host of
        None \<Rightarrow> (st, sessions, Inl ''invalid upstream node address'')
      | Some node_id \<Rightarrow>
          (case hm_get (ss_known_nodes st) node_id of
             None \<Rightarrow> (st, sessions, Inl (''unknown node '' @ node_id))
           | Some node \<Rightarrow> establish_tunnel env exchange node st sessions))"

section \<open>The API reports what runs\<close>

text \<open>
  Looking up a service over REST answers 200 exactly if a proxy for that name runs, and then with
  the port, domains and metadata the manager's table holds for it; the list endpoint has exactly
  those services, each once.
\<close>

theorem api_reports_running:
  assumes "name \<noteq> []"
  shows "(fst (get_service (mg_service_ports (manager_after passes)) name) = 200 \<longleftrightarrow>
      (\<exists>key h. mg_running (manager_after passes) key = Some h \<and> ph_service_name h = name)) \<and>
    (\<forall>body. get_service (mg_service_ports (manager_after passes)) name = (200, body) \<longleftrightarrow>
      body \<in> set (json_items (list_services (mg_service_ports (manager_after passes)))) \<and> json_at body ''name'' = JStr name) \<and>
    distinct (map (\<lambda>body. json_at body ''name'') (json_items (list_services (mg_service_ports (manager_after passes)))))"
proof -
  let ?m = "manager_after passes"
  let ?ports = "mg_service_ports ?m"
  have wf: "hm_wf ?ports" and ok: "tables_ok ?m" using manager_after_ok [of passes] by (auto simp: tables_ok_def)
  have nm: "json_at (service_json n info) ''name'' = JStr n" for n info by (simp add: service_json_def)
  have "(\<exists>key h. mg_running ?m key = Some h \<and> ph_service_name h = name) \<longleftrightarrow> hm_get ?ports name \<noteq> None"
    using ok unfolding tables_ok_def by metis
  then have 1: "fst (get_service ?ports name) = 200 \<longleftrightarrow> (\<exists>key h. mg_running ?m key = Some h \<and> ph_service_name h = name)"
    using assms by (auto simp: get_service_def split: option.splits)
  have "get_service ?ports name = (200, body) \<longleftrightarrow> (\<exists>info. (name, info) \<in> set ?ports \<and> body = service_json name info)" for body
    using assms by (auto simp: get_service_def hm_wf_get_iff [OF wf] split: option.splits)
  then have 2: "get_service ?ports name = (200, body) \<longleftrightarrow>
      body \<in> set (json_items (list_services ?ports)) \<and> json_at body ''name'' = JStr name" for body
    using nm by (force simp: list_services_def)
  have "map (\<lambda>body. json_at body ''name'') (json_items (list_services ?ports)) = map JStr (map fst ?ports)"
    using nm by (simp add: list_services_def case_prod_unfold)
  moreover have "distinct (map JStr xs) = distinct xs" for xs by (simp add: distinct_map inj_on_def)
  then have "distinct (map JStr (map fst ?ports))" using wf unfolding hm_wf_def by blast
  ultimately show ?thesis using 1 2 by simp
qed

theorem api_reports_running_witness:
  "''api'' \<noteq> [] \<and>
   (fst (get_service (mg_service_ports (manager_after [(sample_manage, joined_state)])) ''api'') = 200 \<longleftrightarrow>
      (\<exists>key h. mg_running (manager_after [(sample_manage, joined_state)]) key = Some h \<and> ph_service_name h = ''api''))"
  using api_reports_running [of "''api''" "[(sample_manage, joined_state)]"] by simp

section \<open>Pools are topped up, not flooded\<close>

lemma pool_count_push: "pool_count (pool_push pool a c) k = pool_count pool k + (if k = a then 1 else 0)"
  by (simp add: pool_count_def pool_push_def pool_list_def split: option.splits)

lemma fill_round_count: "pool_count pool k \<le> pool_count (fill_round dial n addrs pool) k \<and>
    pool_count (fill_round dial n addrs pool) k \<le> pool_count pool k + count_list addrs k"
proof (induction addrs arbitrary: n pool)
  case (Cons a addrs)
  let ?p = "case dial n a of Some stream \<Rightarrow> pool_push pool a stream | None \<Rightarrow> pool"
  have "pool_count pool k \<le> pool_count ?p k" "pool_count ?p k \<le> pool_count pool k + (if k = a then 1 else 0)"
    by (auto simp: pool_count_push split: option.splits)
  with Cons.IH [of ?p "Suc n"] show ?case by auto
qed simp

lemma count_pool_addrs:
  "count_list (List.map_filter (\<lambda>node. let addr = connect_addr node in
      if addr = [] \<or> pool_count pool addr \<ge> t then None else Some addr) nodes) k =
   (if k = [] \<or> pool_count pool k \<ge> t then 0 else count_list (map connect_addr nodes) k)"
  by (induction nodes) (auto simp: map_filter_simps Let_def)

lemma mux_round_mono: "sessions addr \<noteq> None \<Longrightarrow> mux_round establish n addrs sessions addr \<noteq> None"
  by (induction addrs arbitrary: n sessions) (auto simp: mux_insert_def split: option.splits)

text \<open>
  A round of pool maintenance never takes connections away, never touches a pool that is full or an
  address nobody has, and adds at most one connection per node reached at an address: from fewer than
  eight, a pool used by one node grows to eight at most.
\<close>

theorem fill_tunnel_pool_bounds:
  "pool_count (ss_tunnel_pool st) k \<le> pool_count (ss_tunnel_pool (fill_tunnel_pool dial st)) k \<and>
   pool_count (ss_tunnel_pool (fill_tunnel_pool dial st)) k \<le>
     max (pool_count (ss_tunnel_pool st) k) (7 + count_list (map connect_addr (hm_values (ss_known_nodes st))) k) \<and>
   (if pool_count (ss_tunnel_pool st) k \<ge> 8 \<or> k = [] \<or> k \<notin> connect_addr ` set (hm_values (ss_known_nodes st))
    then pool_count (ss_tunnel_pool (fill_tunnel_pool dial st)) k = pool_count (ss_tunnel_pool st) k else True)"
proof -
  let ?n = "count_list (pool_addrs st) k"
  have n: "?n = (if k = [] \<or> pool_count (ss_tunnel_pool st) k \<ge> 8 then 0
      else count_list (map connect_addr (hm_values (ss_known_nodes st))) k)"
    unfolding pool_addrs_def count_pool_addrs by (simp add: POOL_TARGET_def)
  have "k \<notin> connect_addr ` set (hm_values (ss_known_nodes st)) \<Longrightarrow>
      count_list (map connect_addr (hm_values (ss_known_nodes st))) k = 0"
    by (simp only: count_list_0_iff set_map) simp
  with fill_round_count [of "ss_tunnel_pool st" k dial 0 "pool_addrs st"] n show ?thesis
    by (auto simp: fill_tunnel_pool_def split: if_splits)
qed

section \<open>Requests reach the node they are addressed to\<close>

text \<open>
  The HTTP client's connection to the pool key of a node is a tunnel to exactly that node, for
  every node id; two nodes never share pooled connections.
\<close>

theorem connector_reaches_node:
  assumes "utf8_ok (map code node_id)"
  shows "connector_call env exchange (Some (node_host node_id)) st sessions =
    (case hm_get (ss_known_nodes st) node_id of
       None \<Rightarrow> (st, sessions, Inl (''unknown node '' @ node_id))
     | Some node \<Rightarrow> establish_tunnel env exchange node st sessions) \<and>
    (utf8_ok (map code other) \<longrightarrow> node_host other = node_host node_id \<longrightarrow> other = node_id)"
  using node_host_roundtrip [OF assms] node_host_roundtrip [of other] by (auto simp: connector_call_def)

theorem connector_reaches_node_witness:
  "utf8_ok (map code ''n2'') \<and>
   connector_call \<lparr>te_opens = (\<lambda>_. None), te_connect = (\<lambda>_. Inl ''refused''), te_wakes = []\<rparr> (\<lambda>_. Inr ())
     (Some (node_host ''n9'')) joined_state Map.empty =
   (case hm_get (ss_known_nodes joined_state) ''n9'' of
       None \<Rightarrow> (joined_state, Map.empty, Inl (''unknown node '' @ ''n9''))
     | Some node \<Rightarrow> establish_tunnel \<lparr>te_opens = (\<lambda>_. None), te_connect = (\<lambda>_. Inl ''refused''), te_wakes = []\<rparr>
         (\<lambda>_. Inr ()) node joined_state Map.empty)"
  using connector_reaches_node [of "''n9''"] by simp

end
