(* ===== verification/Config_Store.thy ===== *)
theory Config_Store
  imports Config_Model
begin

text \<open>
  How a configuration file is replaced on disk (\<^verbatim>\<open>write_atomic\<close> and \<^verbatim>\<open>write_then_rename\<close> in
  \<^verbatim>\<open>src/config.rs\<close>). The file system is a map from paths to files; which system calls fail, and how
  far a write gets, is a parameter. Running a write gives every state the disk passes through, so
  that a crash can be placed between any two of them. A file whose data has been flushed is
  \<open>f_synced\<close>; one that has not may lose data when the machine stops. Paths are resolved: a
  symbolic link has been followed.
\<close>

section \<open>The file system\<close>

type_synonym path = "string \<times> string"

record fs_file =
  f_data :: string
  f_perms :: nat
  f_owner :: nat
  f_synced :: bool

type_synonym fs = "path \<rightharpoonup> fs_file"

datatype ErrorKind = ResourceBusy | CrossesDevices | PermissionDenied | OtherError

text \<open>
  A failed write gives the number of bytes that were written. \<open>we_new_perms\<close> and
  \<open>we_self\<close> are what a new file gets.
\<close>

record write_env =
  we_random_hex :: string
  we_new_perms :: nat
  we_self :: nat
  we_open :: "ErrorKind option"
  we_create :: "ErrorKind option"
  we_set_perms :: "ErrorKind option"
  we_chown_ok :: bool
  we_write :: "(nat \<times> ErrorKind) option"
  we_sync :: "ErrorKind option"
  we_rename :: "ErrorKind option"
  we_remove_ok :: bool
  we_in_place :: "(nat \<times> ErrorKind) option"

datatype write_way = Atomic | InPlace

definition new_file :: "write_env \<Rightarrow> fs_file" where
  "new_file env = \<lparr>f_data = [], f_perms = we_new_perms env, f_owner = we_self env, f_synced = False\<rparr>"

text \<open>The states while \<open>n\<close> bytes of \<open>data\<close> go into the file at \<open>p\<close>.\<close>

definition write_states :: "fs \<Rightarrow> path \<Rightarrow> fs_file \<Rightarrow> nat \<Rightarrow> string \<Rightarrow> fs list" where
  "write_states s p f n data = map (\<lambda>k. s(p \<mapsto> f\<lparr>f_data := take k data, f_synced := False\<rparr>)) [0..<Suc n]"

section \<open>Replacing a file\<close>

definition tmp_path :: "write_env \<Rightarrow> path \<Rightarrow> path" where
  "tmp_path env target = (fst target, ''.'' @ snd target @ ''.'' @ we_random_hex env @ ''.tmp'')"

text \<open>
  \<^verbatim>\<open>std::fs::write\<close>: truncate (or create) and write. A failure to open the file, which leaves it
  alone, is taken for one that has truncated it and written nothing: the model may lose more than the program.
\<close>

definition write_in_place :: "write_env \<Rightarrow> fs \<Rightarrow> path \<Rightarrow> string \<Rightarrow> fs list \<times> (ErrorKind + unit)" where
  "write_in_place env s target data =
     (let f = (case s target of Some f \<Rightarrow> f | None \<Rightarrow> new_file env) in
      case we_in_place env of
        None \<Rightarrow> (write_states s target f (length data) data, Inr ())
      | Some (n, e) \<Rightarrow> (write_states s target f (min n (length data)) data, Inl e))"

text \<open>The permissions and, where allowed, the owner of the file to be replaced.\<close>

definition take_meta :: "write_env \<Rightarrow> fs \<Rightarrow> path \<Rightarrow> fs_file \<Rightarrow> ErrorKind + fs_file" where
  "take_meta env s target f =
     (case s target of
        None \<Rightarrow> Inr f
      | Some old \<Rightarrow>
          (case we_set_perms env of
             Some e \<Rightarrow> Inl e
           | None \<Rightarrow> Inr (f\<lparr>f_perms := f_perms old, f_owner := (if we_chown_ok env then f_owner old else f_owner f)\<rparr>)))"

definition write_then_rename :: "write_env \<Rightarrow> fs \<Rightarrow> path \<Rightarrow> path \<Rightarrow> string \<Rightarrow> fs list \<times> (ErrorKind + unit)" where
  "write_then_rename env s tmp target data =
     (case take_meta env s target (the (s tmp)) of
        Inl e \<Rightarrow> ([s], Inl e)
      | Inr f \<Rightarrow>
          (case we_write env of
             Some (n, e) \<Rightarrow> (s(tmp \<mapsto> f) # write_states s tmp f (min n (length data)) data, Inl e)
           | None \<Rightarrow>
               let written = s(tmp \<mapsto> f) # write_states s tmp f (length data) data in
               (case we_sync env of
                  Some e \<Rightarrow> (written, Inl e)
                | None \<Rightarrow>
                    let synced = f\<lparr>f_data := data, f_synced := True\<rparr> in
                    (case we_rename env of
                       Some e \<Rightarrow> (written @ [s(tmp \<mapsto> synced)], Inl e)
                     | None \<Rightarrow> (written @ [s(tmp \<mapsto> synced), s(tmp := None, target \<mapsto> synced)], Inr ())))))"

definition falls_back :: "ErrorKind \<Rightarrow> bool" where
  "falls_back e \<longleftrightarrow> e \<in> {ResourceBusy, CrossesDevices, PermissionDenied}"

definition write_atomic :: "write_env \<Rightarrow> fs \<Rightarrow> path \<Rightarrow> string \<Rightarrow> fs list \<times> write_way \<times> (ErrorKind + unit)" where
  "write_atomic env s target data =
     (case (if s target \<noteq> None then we_open env else None) of
        Some e \<Rightarrow> ([s], Atomic, Inl e)
      | None \<Rightarrow>
          let tmp = tmp_path env target in
          if we_create env \<noteq> None \<or> s tmp \<noteq> None
          then (case write_in_place env s target data of (states, r) \<Rightarrow> (s # states, InPlace, r))
          else
            (case write_then_rename env (s(tmp \<mapsto> new_file env)) tmp target data of
               (states, Inr _) \<Rightarrow> (s # states, Atomic, Inr ())
             | (states, Inl e) \<Rightarrow>
                 let cleaned = (if we_remove_ok env then (last states)(tmp := None) else last states) in
                 if falls_back e
                 then (case write_in_place env cleaned target data of
                         (more_states, r) \<Rightarrow> (s # states @ [cleaned] @ more_states, InPlace, r))
                 else (s # states @ [cleaned], Atomic, Inl e)))"

definition save :: "(Config \<Rightarrow> string) \<Rightarrow> write_env \<Rightarrow> fs \<Rightarrow> path \<Rightarrow> Config \<Rightarrow> fs list \<times> write_way \<times> (ErrorKind + unit)" where
  "save print_json env s target cfg = write_atomic env s target (print_json cfg)"

section \<open>A crash leaves the old file or the new one\<close>

lemma tmp_not_target: "tmp_path env target \<noteq> target"
proof
  assume "tmp_path env target = target"
  then have "length (snd (tmp_path env target)) = length (snd target)" by simp
  then show False by (simp add: tmp_path_def)
qed

text \<open>The target is untouched, or it holds the new data, flushed, with the old file's permissions.\<close>

definition replaced :: "fs \<Rightarrow> path \<Rightarrow> string \<Rightarrow> fs \<Rightarrow> bool" where
  "replaced s target data s' \<longleftrightarrow> (\<exists>f. s' target = Some f \<and> f_data f = data \<and> f_synced f \<and>
     (\<forall>old. s target = Some old \<longrightarrow> f_perms f = f_perms old))"

definition safe_state :: "fs \<Rightarrow> path \<Rightarrow> path \<Rightarrow> string \<Rightarrow> fs \<Rightarrow> bool" where
  "safe_state s tmp target data s' \<longleftrightarrow>
     (s' target = s target \<or> replaced s target data s') \<and> (\<forall>p. p \<noteq> target \<longrightarrow> p \<noteq> tmp \<longrightarrow> s' p = s p)"

lemma take_meta_perms:
  "take_meta env s target f = Inr g \<Longrightarrow> \<forall>old. s target = Some old \<longrightarrow> f_perms g = f_perms old"
  by (auto simp: take_meta_def split: option.splits)

lemma write_then_rename_safe:
  assumes "tmp \<noteq> target" "write_then_rename env (s(tmp \<mapsto> f0)) tmp target data = (states, r)"
  shows "states \<noteq> [] \<and> list_all (safe_state s tmp target data) states \<and>
    (case r of
       Inl e \<Rightarrow> list_all (\<lambda>s'. s' target = s target) states
     | Inr _ \<Rightarrow> replaced s target data (last states) \<and> (last states) tmp = None)"
proof (cases "take_meta env (s(tmp \<mapsto> f0)) target f0")
  case (Inl e)
  with assms show ?thesis by (auto simp: write_then_rename_def safe_state_def)
next
  case (Inr f)
  then have "\<forall>old. s target = Some old \<longrightarrow> f_perms f = f_perms old"
    using take_meta_perms [OF Inr] assms(1) by simp
  with assms Inr show ?thesis
    by (auto simp: write_then_rename_def Let_def write_states_def safe_state_def replaced_def list_all_iff
        split: option.splits)
qed

text \<open>A save that succeeds, either way, leaves the new contents.\<close>

lemma write_in_place_data:
  "write_in_place env s target data = (states, Inr u) \<Longrightarrow> states \<noteq> [] \<and> map_option f_data (last states target) = Some data"
  by (auto simp: write_in_place_def write_states_def Let_def split: option.splits)

lemma write_atomic_data:
  assumes "write_atomic env s target data = (states, way, Inr u)"
  shows "map_option f_data (last states target) = Some data"
proof -
  let ?tmp = "tmp_path env target"
  obtain ss r where w: "write_then_rename env (s(?tmp \<mapsto> new_file env)) ?tmp target data = (ss, r)" by fastforce
  note safe = write_then_rename_safe [OF tmp_not_target w]
  have ok: "map_option f_data (last ss target) = Some data" if "r = Inr x" for x
    using safe that by (auto simp: replaced_def)
  show ?thesis
    using assms w ok safe unfolding write_atomic_def Let_def
    by (auto split: option.splits prod.splits sum.splits if_splits dest!: write_in_place_data)
qed

text \<open>
  C5. Saving the configuration is crash-safe. Unless it had to fall back to writing in place, at every
  moment the file is the old one, or has exactly the new contents, already flushed, with the old
  permissions; no file but it and the temporary one is ever touched. Success means the new contents
  are in place and the temporary file is gone; an error means the old file is. The fallback happens
  only when the temporary file cannot be created or the replacement fails as busy, across devices or
  not permitted.
\<close>

theorem write_atomic_crash_safe:
  "case write_atomic env s target data of (states, way, r) \<Rightarrow>
     (case way of
        Atomic \<Rightarrow>
          list_all (safe_state s (tmp_path env target) target data) states \<and>
          (case r of
             Inr _ \<Rightarrow> replaced s target data (last states) \<and> (last states) (tmp_path env target) = None
           | Inl e \<Rightarrow> (last states) target = s target)
      | InPlace \<Rightarrow>
          (\<exists>e. we_create env = Some e) \<or> (\<exists>f. s (tmp_path env target) = Some f) \<or>
          (\<exists>e. falls_back e \<and> (we_set_perms env = Some e \<or> (\<exists>n. we_write env = Some (n, e)) \<or> we_sync env = Some e \<or> we_rename env = Some e)))"
proof -
  let ?tmp = "tmp_path env target"
  obtain states r where w: "write_then_rename env (s(?tmp \<mapsto> new_file env)) ?tmp target data = (states, r)" by fastforce
  note safe = write_then_rename_safe [OF tmp_not_target w]
  have self: "safe_state s ?tmp target data s" by (simp add: safe_state_def)
  have cleaned: "safe_state s ?tmp target data ((last states)(?tmp := x))" "((last states)(?tmp := x)) target = s target"
    if "r = Inl e" for e x
    using safe that tmp_not_target [of env target] by (auto simp: safe_state_def list_all_iff)
  have why: "we_set_perms env = Some e \<or> (\<exists>n. we_write env = Some (n, e)) \<or> we_sync env = Some e \<or> we_rename env = Some e"
    if "r = Inl e" for e
    using w that by (auto simp: write_then_rename_def take_meta_def Let_def split: option.splits)
  have end_state: "safe_state s ?tmp target data (last states)" "(last states) target = s target" if "r = Inl e" for e
    using safe that by (auto simp: list_all_iff)
  show ?thesis
    using w safe self cleaned end_state why tmp_not_target [of env target]
    unfolding write_atomic_def Let_def
    by (cases r) (auto split: prod.splits option.splits sum.splits)
qed

end
