(* ===== verification/Pki.thy ===== *)
theory Pki
  imports Config_Store
begin

text \<open>
  The certificates of a node (\<^verbatim>\<open>src/pki.rs\<close>): the cluster's CA, the node certificate made from it,
  and issuing a certificate for another node. X.509, key generation and PEM are the
  \<^verbatim>\<open>rcgen\<close> and \<^verbatim>\<open>rustls_pemfile\<close> crates', the parameter \<open>pki_lib\<close>; key pairs, certificates and
  DER are opaque strings. As in the store, an operation gives every state the file system passes
  through, and which system calls fail is a parameter. An error is the outermost context message.
\<close>

section \<open>Data\<close>

type_synonym key_pair = string
type_synonym certificate = string
type_synonym der = string

definition MESH_SERVER_NAME :: string where
  "MESH_SERVER_NAME = ''stouter-node''"

record PkiMaterial =
  pm_ca_cert_der :: der
  pm_node_cert_der :: der
  pm_node_key :: der

record CertificateParams =
  cp_names :: "string list"
  cp_is_ca :: bool
  cp_common_name :: string
  cp_not_before :: "nat \<times> nat \<times> nat"
  cp_not_after :: "nat \<times> nat \<times> nat"

record pki_lib =
  pl_names_ok :: "string list \<Rightarrow> bool"
  pl_self_signed :: "CertificateParams \<Rightarrow> key_pair \<Rightarrow> certificate option"
  pl_signed_by :: "CertificateParams \<Rightarrow> key_pair \<Rightarrow> certificate \<Rightarrow> key_pair \<Rightarrow> certificate option"
  pl_from_ca_cert_der :: "der \<Rightarrow> CertificateParams option"
  pl_der :: "certificate \<Rightarrow> der"
  pl_pem :: "certificate \<Rightarrow> string"
  pl_serialize_pem :: "key_pair \<Rightarrow> string"
  pl_serialize_der :: "key_pair \<Rightarrow> der"
  pl_key_from_pem :: "string \<Rightarrow> key_pair option"
  pl_pem_certs :: "string \<Rightarrow> der option list"
  pl_pem_private_key :: "string \<Rightarrow> der option option"

text \<open>The keys that \<^verbatim>\<open>generate_for\<close> hands out, and the outcome of each system call.\<close>

record pki_env =
  pe_lib :: pki_lib
  pe_ca_key :: "key_pair option"
  pe_node_key :: "key_pair option"
  pe_create_dir :: "string \<Rightarrow> bool"
  pe_readable :: "path \<Rightarrow> bool"
  pe_write :: "path \<Rightarrow> write_env"
  pe_umask :: nat
  pe_self :: nat
  pe_key_open :: bool
  pe_key_perms :: bool
  pe_key_write :: "nat option"
  pe_key_sync :: bool

section \<open>Sequencing\<close>

text \<open>
  The states passed through (never empty), the key files warned about, and the result.
\<close>

type_synonym 'a pki_run = "fs list \<times> path list \<times> (string + 'a)"

definition pki_done :: "fs \<Rightarrow> string + 'a \<Rightarrow> 'a pki_run" where
  "pki_done s r = ([s], [], r)"

definition pki_then :: "'a pki_run \<Rightarrow> (fs \<Rightarrow> 'a \<Rightarrow> 'b pki_run) \<Rightarrow> 'b pki_run" where
  "pki_then m k =
     (case m of
        (ss, ws, Inl e) \<Rightarrow> (ss, ws, Inl e)
      | (ss, ws, Inr x) \<Rightarrow> (case k (last ss) x of (ss', ws', r) \<Rightarrow> (ss @ ss', ws @ ws', r)))"

definition ok_or :: "string \<Rightarrow> 'a option \<Rightarrow> string + 'a" where
  "ok_or msg x = (case x of Some v \<Rightarrow> Inr v | None \<Rightarrow> Inl msg)"

definition read_to_string :: "pki_env \<Rightarrow> fs \<Rightarrow> path \<Rightarrow> string + string" where
  "read_to_string env s p =
     ok_or (''read '' @ snd p) (if pe_readable env p then map_option f_data (s p) else None)"

definition fs_write :: "pki_env \<Rightarrow> string \<Rightarrow> fs \<Rightarrow> path \<Rightarrow> string \<Rightarrow> unit pki_run" where
  "fs_write env msg s p data =
     (case write_in_place (pe_write env p) s p data of (ss, r) \<Rightarrow> (ss, [], map_err (\<lambda>_. msg) r))"

section \<open>Private key files\<close>

text \<open>Mode \<^verbatim>\<open>0o600\<close>, and the bits \<^verbatim>\<open>0o077\<close> of everyone but the owner.\<close>

definition OWNER_ONLY :: nat where
  "OWNER_ONLY = 384"

definition others_bits :: "nat \<Rightarrow> nat" where
  "others_bits perms = perms mod 64"

definition write_private_key :: "pki_env \<Rightarrow> string \<Rightarrow> fs \<Rightarrow> path \<Rightarrow> string \<Rightarrow> unit pki_run" where
  "write_private_key env msg s p pem =
     (if \<not> pe_key_open env then pki_done s (Inl msg)
      else
        let opened = (case s p of
              Some f \<Rightarrow> f\<lparr>f_data := [], f_synced := False\<rparr>
            | None \<Rightarrow> \<lparr>f_data = [], f_perms = OWNER_ONLY - Bit_Operations.and OWNER_ONLY (pe_umask env),
                       f_owner = pe_self env, f_synced = False\<rparr>)
        in if \<not> pe_key_perms env then ([s(p \<mapsto> opened)], [], Inl msg)
           else
             let tight = opened\<lparr>f_perms := OWNER_ONLY\<rparr> in
             (case pe_key_write env of
                Some n \<Rightarrow> (s(p \<mapsto> opened) # write_states s p tight (min n (length pem)) pem, [], Inl msg)
              | None \<Rightarrow>
                  let written = s(p \<mapsto> opened) # write_states s p tight (length pem) pem in
                  if \<not> pe_key_sync env then (written, [], Inl msg)
                  else (written @ [s(p \<mapsto> tight\<lparr>f_data := pem, f_synced := True\<rparr>)], [], Inr ())))"

definition warn_if_readable_by_others :: "fs \<Rightarrow> path \<Rightarrow> path list" where
  "warn_if_readable_by_others s p =
     (case s p of Some f \<Rightarrow> if others_bits (f_perms f) \<noteq> 0 then [p] else [] | None \<Rightarrow> [])"

section \<open>PEM\<close>

definition pem_to_der :: "pki_lib \<Rightarrow> string \<Rightarrow> string \<Rightarrow> string + der" where
  "pem_to_der lib msg pem = (case pl_pem_certs lib pem of Some der # _ \<Rightarrow> Inr der | _ \<Rightarrow> Inl msg)"

definition pem_to_private_key :: "pki_lib \<Rightarrow> string \<Rightarrow> string \<Rightarrow> string + der" where
  "pem_to_private_key lib msg pem = (case pl_pem_private_key lib pem of Some (Some key) \<Rightarrow> Inr key | _ \<Rightarrow> Inl msg)"

section \<open>The CA\<close>

definition ca_params :: CertificateParams where
  "ca_params = \<lparr>cp_names = [], cp_is_ca = True, cp_common_name = ''stouter-cluster-ca'',
     cp_not_before = (2024, 1, 1), cp_not_after = (2044, 1, 1)\<rparr>"

definition generate_ca :: "pki_env \<Rightarrow> fs \<Rightarrow> path \<Rightarrow> path \<Rightarrow> (der \<times> certificate \<times> key_pair) pki_run" where
  "generate_ca env s cert_path key_path =
     (let lib = pe_lib env in
      pki_then (pki_done s (ok_or ''generate CA key'' (pe_ca_key env))) (\<lambda>s key.
      pki_then (pki_done s (if pl_names_ok lib [] then Inr () else Inl ''CA cert params'')) (\<lambda>s _.
      pki_then (pki_done s (ok_or ''self-sign CA'' (pl_self_signed lib ca_params key))) (\<lambda>s cert.
      pki_then (fs_write env (''write '' @ snd cert_path) s cert_path (pl_pem lib cert)) (\<lambda>s _.
      pki_then (write_private_key env (''write '' @ snd key_path) s key_path (pl_serialize_pem lib key)) (\<lambda>s _.
        pki_done s (Inr (pl_der lib cert, cert, key))))))))"

definition load_ca :: "pki_env \<Rightarrow> fs \<Rightarrow> path \<Rightarrow> path \<Rightarrow> (der \<times> certificate \<times> key_pair) pki_run" where
  "load_ca env s cert_path key_path =
     (let lib = pe_lib env in
      pki_then (pki_done s (read_to_string env s cert_path)) (\<lambda>s cert_pem.
      pki_then ([s], warn_if_readable_by_others s key_path, read_to_string env s key_path) (\<lambda>s key_pem.
      pki_then (pki_done s (pem_to_der lib ''decode CA cert'' cert_pem)) (\<lambda>s der.
      pki_then (pki_done s (ok_or ''parse CA key'' (pl_key_from_pem lib key_pem))) (\<lambda>s key.
      pki_then (pki_done s (ok_or ''parse CA cert params'' (pl_from_ca_cert_der lib der))) (\<lambda>s params.
      pki_then (pki_done s (ok_or ''re-create CA cert'' (pl_self_signed lib params key))) (\<lambda>s cert.
        pki_done s (Inr (der, cert, key)))))))))"

section \<open>Node certificates\<close>

definition node_params :: "string \<Rightarrow> CertificateParams" where
  "node_params node_id = \<lparr>cp_names = [MESH_SERVER_NAME], cp_is_ca = False, cp_common_name = node_id,
     cp_not_before = (2024, 1, 1), cp_not_after = (2034, 1, 1)\<rparr>"

definition sign_node_cert :: "pki_env \<Rightarrow> string \<Rightarrow> certificate \<Rightarrow> key_pair \<Rightarrow> string + certificate \<times> key_pair" where
  "sign_node_cert env node_id ca_cert ca_key =
     try_then (ok_or ''generate node key'' (pe_node_key env)) (\<lambda>key.
     try_then (if pl_names_ok (pe_lib env) [MESH_SERVER_NAME] then Inr () else Inl ''node cert params'') (\<lambda>_.
     try_then (ok_or ''sign node cert with CA'' (pl_signed_by (pe_lib env) (node_params node_id) key ca_cert ca_key)) (\<lambda>cert.
       Inr (cert, key))))"

definition generate_node_cert :: "pki_env \<Rightarrow> string \<Rightarrow> certificate \<Rightarrow> key_pair \<Rightarrow> string + der \<times> der" where
  "generate_node_cert env node_id ca_cert ca_key =
     try_then (sign_node_cert env node_id ca_cert ca_key) (\<lambda>(cert, key).
       Inr (pl_der (pe_lib env) cert, pl_serialize_der (pe_lib env) key))"

definition load_issued :: "pki_env \<Rightarrow> fs \<Rightarrow> path \<Rightarrow> path \<Rightarrow> path \<Rightarrow> PkiMaterial pki_run" where
  "load_issued env s ca_cert_path node_cert_path node_key_path =
     (let lib = pe_lib env in
      pki_then (pki_done s (read_to_string env s ca_cert_path)) (\<lambda>s ca_pem.
      pki_then (pki_done s (read_to_string env s node_cert_path)) (\<lambda>s node_cert_pem.
      pki_then ([s], warn_if_readable_by_others s node_key_path, read_to_string env s node_key_path) (\<lambda>s node_key_pem.
      pki_then (pki_done s (pem_to_der lib ''decode CA cert'' ca_pem)) (\<lambda>s ca_cert_der.
      pki_then (pki_done s (pem_to_der lib ''decode node cert'' node_cert_pem)) (\<lambda>s node_cert_der.
      pki_then (pki_done s (pem_to_private_key lib ''decode node key'' node_key_pem)) (\<lambda>s node_key.
        pki_done s (Inr \<lparr>pm_ca_cert_der = ca_cert_der, pm_node_cert_der = node_cert_der, pm_node_key = node_key\<rparr>))))))))"

definition with_node_cert :: "pki_env \<Rightarrow> string \<Rightarrow> (der \<times> certificate \<times> key_pair) pki_run \<Rightarrow> PkiMaterial pki_run" where
  "with_node_cert env node_id ca =
     pki_then ca (\<lambda>s (ca_cert_der, ca_cert, ca_key).
     pki_then (pki_done s (generate_node_cert env node_id ca_cert ca_key)) (\<lambda>s (node_cert_der, node_key).
       pki_done s (Inr \<lparr>pm_ca_cert_der = ca_cert_der, pm_node_cert_der = node_cert_der, pm_node_key = node_key\<rparr>)))"

definition load_or_create :: "pki_env \<Rightarrow> fs \<Rightarrow> string \<Rightarrow> string \<Rightarrow> PkiMaterial pki_run" where
  "load_or_create env s tls_dir node_id =
     (let ca_cert_path = (tls_dir, ''ca.crt'');
          ca_key_path = (tls_dir, ''ca.key'');
          node_cert_path = (tls_dir, ''node.crt'');
          node_key_path = (tls_dir, ''node.key'')
      in if \<not> pe_create_dir env tls_dir then pki_done s (Inl (''create TLS directory '' @ tls_dir))
         else if s ca_cert_path \<noteq> None \<and> s ca_key_path \<noteq> None
         then with_node_cert env node_id (load_ca env s ca_cert_path ca_key_path)
         else if s ca_cert_path \<noteq> None \<and> s node_cert_path \<noteq> None \<and> s node_key_path \<noteq> None
         then load_issued env s ca_cert_path node_cert_path node_key_path
         else with_node_cert env node_id (generate_ca env s ca_cert_path ca_key_path))"

definition issue_cert_to_dir :: "pki_env \<Rightarrow> fs \<Rightarrow> string \<Rightarrow> string \<Rightarrow> string \<Rightarrow> unit pki_run" where
  "issue_cert_to_dir env s tls_dir node_id out_dir =
     (let lib = pe_lib env;
          ca_cert_path = (tls_dir, ''ca.crt'');
          ca_key_path = (tls_dir, ''ca.key'')
      in if s ca_cert_path = None \<or> s ca_key_path = None
         then pki_done s (Inl (''CA not found in '' @ tls_dir @ ''; start the daemon once to generate it''))
         else
           pki_then (load_ca env s ca_cert_path ca_key_path) (\<lambda>s (_, ca_cert, ca_key).
           pki_then (pki_done s (sign_node_cert env node_id ca_cert ca_key)) (\<lambda>s (cert, key).
           pki_then (pki_done s (if pe_create_dir env out_dir then Inr () else Inl (''create output directory '' @ out_dir))) (\<lambda>s _.
           pki_then (pki_done s (read_to_string env s ca_cert_path)) (\<lambda>s ca_pem.
           pki_then (fs_write env ''write ca.crt'' s (out_dir, ''ca.crt'') ca_pem) (\<lambda>s _.
           pki_then (fs_write env ''write node.crt'' s (out_dir, ''node.crt'') (pl_pem lib cert)) (\<lambda>s _.
             write_private_key env ''write node.key'' s (out_dir, ''node.key'') (pl_serialize_pem lib key))))))))"

section \<open>Reasoning about runs\<close>

definition run_in :: "(fs \<Rightarrow> bool) \<Rightarrow> 'a pki_run \<Rightarrow> bool" where
  "run_in P m \<longleftrightarrow> fst m \<noteq> [] \<and> list_all P (fst m)"

lemma run_in_done [keep_intros]: "P s \<Longrightarrow> run_in P (pki_done s r)"
  by (simp add: run_in_def pki_done_def)

lemma run_in_then [keep_intros]:
  assumes "run_in P m" "\<And>s x. P s \<Longrightarrow> run_in P (k s x)"
  shows "run_in P (pki_then m k)"
proof -
  obtain ss ws r where m: "m = (ss, ws, r)" by (cases m)
  then have "P (last ss)" using assms(1) by (auto simp: run_in_def list_all_iff)
  with assms m show ?thesis
    by (auto simp: run_in_def pki_then_def split: sum.splits prod.splits) (metis fst_conv)+
qed

lemma pki_then_ok [loop_simps]:
  "pki_then m k = (ss, ws, Inr y) \<longleftrightarrow>
     (\<exists>ss1 ws1 x ss2 ws2. m = (ss1, ws1, Inr x) \<and> k (last ss1) x = (ss2, ws2, Inr y) \<and> ss = ss1 @ ss2 \<and> ws = ws1 @ ws2)"
  by (auto simp: pki_then_def split: sum.splits prod.splits)

lemma pki_done_ok [loop_simps]: "pki_done s r = (ss, ws, Inr y) \<longleftrightarrow> ss = [s] \<and> ws = [] \<and> r = Inr y"
  by (auto simp: pki_done_def)

lemma ok_or_ok [loop_simps]: "ok_or msg x = Inr y \<longleftrightarrow> x = Some y"
  by (auto simp: ok_or_def split: option.splits)

lemma read_ok [loop_simps]:
  "read_to_string env s p = Inr data \<longleftrightarrow> pe_readable env p \<and> (\<exists>f. s p = Some f \<and> f_data f = data)"
  by (auto simp: read_to_string_def ok_or_ok)

lemma write_states_nonempty [simp]: "write_states s p f n data \<noteq> []"
  by (simp add: write_states_def)

lemma last_write_states: "last (write_states s p f n data) = s(p \<mapsto> f\<lparr>f_data := take n data, f_synced := False\<rparr>)"
  by (simp add: write_states_def)

lemma fs_write_ok:
  assumes "fs_write env msg s p data = (ss, ws, Inr u)"
  shows "ss \<noteq> [] \<and> ws = [] \<and> last ss = s(p := last ss p) \<and> (\<exists>f. last ss p = Some f \<and> f_data f = data)"
  using assms by (auto simp: fs_write_def write_in_place_def last_write_states map_err_def Let_def
      split: option.splits prod.splits sum.splits)

lemma write_private_key_ok:
  assumes "write_private_key env msg s p pem = (ss, ws, Inr u)"
  shows "ss \<noteq> [] \<and> ws = [] \<and> last ss = s(p := last ss p) \<and>
    (\<exists>f. last ss p = Some f \<and> f_data f = pem \<and> f_perms f = OWNER_ONLY \<and> f_synced f)"
  using assms by (auto simp: write_private_key_def pki_done_def Let_def split: if_splits option.splits)

section \<open>Private keys stay private\<close>

text \<open>
  Compared with the state \<open>s\<close>, the key file \<open>kp\<close> is untouched, or it is empty, or only its owner
  may use it; apart from it and \<open>ws\<close> no file is touched.
\<close>

definition keys_kept :: "fs \<Rightarrow> path \<Rightarrow> path set \<Rightarrow> fs \<Rightarrow> bool" where
  "keys_kept s kp ws s' \<longleftrightarrow>
     (s' kp = s kp \<or> (\<exists>f. s' kp = Some f \<and> (f_data f = [] \<or> f_perms f = OWNER_ONLY))) \<and>
     (\<forall>p. p \<notin> insert kp ws \<longrightarrow> s' p = s p)"

lemma keys_kept_refl [simp]: "keys_kept s kp ws s"
  by (simp add: keys_kept_def)

lemma keys_kept_write [keep_intros]:
  assumes "keys_kept s kp ws s'" "p \<in> ws" "p \<noteq> kp"
  shows "run_in (keys_kept s kp ws) (fs_write env msg s' p data)"
proof -
  have upd: "keys_kept s kp ws (s'(p \<mapsto> f))" for f using assms by (auto simp: keys_kept_def)
  then show ?thesis
    by (auto simp: run_in_def fs_write_def write_in_place_def write_states_def list_all_iff Let_def
        simp del: upt_Suc split: option.splits prod.splits)
qed

lemma keys_kept_key [keep_intros]:
  assumes "keys_kept s kp ws s'"
  shows "run_in (keys_kept s kp ws) (write_private_key env msg s' kp pem)"
proof -
  have upd: "keys_kept s kp ws (s'(kp \<mapsto> f))" if "f_data f = [] \<or> f_perms f = OWNER_ONLY" for f
    using assms that by (auto simp: keys_kept_def)
  show ?thesis
    using assms by (auto simp: run_in_def write_private_key_def write_states_def list_all_iff Let_def pki_done_def
        intro!: upd simp del: upt_Suc split: option.splits)
qed

lemma keys_kept_load_ca [keep_intros]: "keys_kept s kp ws s' \<Longrightarrow> run_in (keys_kept s kp ws) (load_ca env s' cp p)"
  unfolding load_ca_def Let_def
  by (intro run_in_then run_in_done) (simp_all add: run_in_def)

lemma keys_kept_generate [keep_intros]:
  "keys_kept s kp ws s' \<Longrightarrow> cp \<in> ws \<Longrightarrow> cp \<noteq> kp \<Longrightarrow> run_in (keys_kept s kp ws) (generate_ca env s' cp kp)"
  unfolding generate_ca_def Let_def by (intro keep_intros) simp_all

lemma keys_kept_issued [keep_intros]:
  "keys_kept s kp ws s' \<Longrightarrow> run_in (keys_kept s kp ws) (load_issued env s' p q r)"
  unfolding load_issued_def Let_def
  by (intro run_in_then run_in_done) (simp_all add: run_in_def)

lemma keys_kept_node_cert [keep_intros]:
  "run_in (keys_kept s kp ws) ca \<Longrightarrow> run_in (keys_kept s kp ws) (with_node_cert env node_id ca)"
  unfolding with_node_cert_def by (intro run_in_then) (auto split: prod.splits intro!: keep_intros)

text \<open>
  C21. Private keys are never exposed. At every moment of starting a node and of issuing a
  certificate, whatever system call fails, the key file being written is still the old one, or
  holds nothing yet, or is readable and writable by its owner only, even where a world-readable
  file stood before; besides it only the certificate files are touched. An issued certificate's
  key file is complete, flushed and owner-only.
\<close>

theorem private_keys_owner_only:
  "list_all (keys_kept s (dir, ''ca.key'') {(dir, ''ca.crt'')}) (fst (load_or_create env s dir node_id)) \<and>
   list_all (keys_kept s (out, ''node.key'') {(out, ''ca.crt''), (out, ''node.crt'')})
     (fst (issue_cert_to_dir env s dir node_id out)) \<and>
   (case issue_cert_to_dir env s dir node_id out of
      (ss, ws, Inl e) \<Rightarrow> True
    | (ss, ws, Inr u) \<Rightarrow>
        (\<exists>key f. pe_node_key env = Some key \<and> last ss (out, ''node.key'') = Some f \<and>
           f_data f = pl_serialize_pem (pe_lib env) key \<and> f_perms f = OWNER_ONLY \<and> f_synced f))"
proof -
  have "run_in (keys_kept s (dir, ''ca.key'') {(dir, ''ca.crt'')}) (load_or_create env s dir node_id)"
    unfolding load_or_create_def Let_def by (auto intro!: keep_intros)
  moreover have "run_in (keys_kept s (out, ''node.key'') {(out, ''ca.crt''), (out, ''node.crt'')})
     (issue_cert_to_dir env s dir node_id out)"
    unfolding issue_cert_to_dir_def Let_def by (auto intro!: keep_intros split: prod.splits)
  moreover have "\<exists>key f. pe_node_key env = Some key \<and> last ss (out, ''node.key'') = Some f \<and>
     f_data f = pl_serialize_pem (pe_lib env) key \<and> f_perms f = OWNER_ONLY \<and> f_synced f"
    if "issue_cert_to_dir env s dir node_id out = (ss, ws, Inr u)" for ss ws u
    using that unfolding issue_cert_to_dir_def Let_def
    by (auto simp: loop_simps sign_node_cert_def dest!: write_private_key_ok split: if_splits prod.splits)
  ultimately show ?thesis by (auto simp: run_in_def split: prod.splits sum.splits)
qed

section \<open>The CA survives restarts, issued certificates load\<close>

text \<open>What the code relies on of the crates: PEM is read back as what it was written from.\<close>

definition pki_lib_ok :: "pki_lib \<Rightarrow> bool" where
  "pki_lib_ok lib \<longleftrightarrow>
     (\<forall>c. \<exists>rest. pl_pem_certs lib (pl_pem lib c) = Some (pl_der lib c) # rest) \<and>
     (\<forall>k. pl_key_from_pem lib (pl_serialize_pem lib k) = Some k) \<and>
     (\<forall>k. pl_pem_private_key lib (pl_serialize_pem lib k) = Some (Some (pl_serialize_der lib k)))"

lemma pem_to_der_ok: "pki_lib_ok lib \<Longrightarrow> pem_to_der lib msg (pl_pem lib c) = Inr (pl_der lib c)"
  unfolding pki_lib_ok_def pem_to_der_def by (metis list.case(2) option.case(2))

lemma pem_to_private_key_ok:
  "pki_lib_ok lib \<Longrightarrow> pem_to_private_key lib msg (pl_serialize_pem lib k) = Inr (pl_serialize_der lib k)"
  by (simp add: pki_lib_ok_def pem_to_private_key_def)

lemma pem_to_der_msg: "pem_to_der lib msg pem = Inr d \<Longrightarrow> pem_to_der lib msg' pem = Inr d"
  by (auto simp: pem_to_der_def split: list.splits option.splits)

text \<open>The file \<open>p\<close> holds a certificate that decodes to \<open>d\<close>.\<close>

definition cert_at :: "pki_lib \<Rightarrow> fs \<Rightarrow> path \<Rightarrow> der \<Rightarrow> bool" where
  "cert_at lib s p d \<longleftrightarrow> (\<exists>f. s p = Some f \<and> pem_to_der lib [] (f_data f) = Inr d)"

lemma cert_at_unique: "cert_at lib s p d \<Longrightarrow> cert_at lib s p d' \<Longrightarrow> d = d'"
  by (auto simp: cert_at_def)

lemma load_ca_ok:
  assumes "load_ca env s cp kp = (ss, ws, Inr (d, cert, key))"
  shows "ss \<noteq> [] \<and> last ss = s \<and> cert_at (pe_lib env) s cp d"
  using assms by (auto simp: load_ca_def loop_simps cert_at_def Let_def intro: pem_to_der_msg)

lemma load_issued_ok:
  assumes "load_issued env s cp np kp = (ss, ws, Inr m)"
  shows "last ss = s \<and> cert_at (pe_lib env) s cp (pm_ca_cert_der m)"
  using assms by (auto simp: load_issued_def loop_simps cert_at_def Let_def intro: pem_to_der_msg)

lemma generate_ca_ok:
  assumes "pki_lib_ok (pe_lib env)" "cp \<noteq> kp" "generate_ca env s cp kp = (ss, ws, Inr (d, cert, key))"
  shows "ss \<noteq> [] \<and> cert_at (pe_lib env) (last ss) cp d \<and> last ss kp \<noteq> None"
  using assms(2,3) pem_to_der_ok [OF assms(1)]
  by (auto simp: generate_ca_def loop_simps cert_at_def Let_def dest!: fs_write_ok write_private_key_ok)

lemma with_node_cert_ok:
  assumes "with_node_cert env node_id ca = (ss, ws, Inr m)"
  shows "\<exists>ss1 ws1 d cert key. ca = (ss1, ws1, Inr (d, cert, key)) \<and> last ss = last ss1 \<and> pm_ca_cert_der m = d"
  using assms by (auto simp: with_node_cert_def loop_simps split: prod.splits)

text \<open>What a successful start leaves: \<^verbatim>\<open>ca.crt\<close> is the CA it returned, and the files that decide the next start are there.\<close>

lemma load_or_create_ok:
  assumes "pki_lib_ok (pe_lib env)" "load_or_create env s dir node_id = (ss, ws, Inr m)"
  shows "cert_at (pe_lib env) (last ss) (dir, ''ca.crt'') (pm_ca_cert_der m) \<and>
    (last ss (dir, ''ca.key'') \<noteq> None \<or> last ss (dir, ''node.crt'') \<noteq> None \<and> last ss (dir, ''node.key'') \<noteq> None) \<and>
    (s (dir, ''ca.crt'') \<noteq> None \<longrightarrow>
      s (dir, ''ca.key'') \<noteq> None \<or> s (dir, ''node.crt'') \<noteq> None \<and> s (dir, ''node.key'') \<noteq> None \<longrightarrow> last ss = s)"
  using assms(2) unfolding load_or_create_def Let_def
  by (auto simp: loop_simps split: if_splits
      dest!: with_node_cert_ok load_ca_ok load_issued_ok generate_ca_ok [OF assms(1), rotated])

lemma issue_ok:
  assumes "issue_cert_to_dir env s dir node_id out = (ss, ws, Inr u)"
  shows "\<exists>ca_der ca_cert ca_key cert key f ss1 ws1 ss3 ss4 ss5 pre.
    load_ca env s (dir, ''ca.crt'') (dir, ''ca.key'') = (ss1, ws1, Inr (ca_der, ca_cert, ca_key)) \<and>
    sign_node_cert env node_id ca_cert ca_key = Inr (cert, key) \<and> s (dir, ''ca.crt'') = Some f \<and>
    fs_write env ''write ca.crt'' s (out, ''ca.crt'') (f_data f) = (ss3, [], Inr ()) \<and>
    fs_write env ''write node.crt'' (last ss3) (out, ''node.crt'') (pl_pem (pe_lib env) cert) = (ss4, [], Inr ()) \<and>
    write_private_key env ''write node.key'' (last ss4) (out, ''node.key'') (pl_serialize_pem (pe_lib env) key) = (ss5, [], Inr ()) \<and>
    ss = pre @ ss5"
proof -
  from assms obtain ss1 ws1 ca_der ca_cert ca_key where ca: "load_ca env s (dir, ''ca.crt'') (dir, ''ca.key'') = (ss1, ws1, Inr (ca_der, ca_cert, ca_key))"
    unfolding issue_cert_to_dir_def Let_def by (auto simp: loop_simps split: if_splits)
  with assms load_ca_ok [OF ca] show ?thesis
    unfolding issue_cert_to_dir_def Let_def
    by (auto simp: pki_then_ok pki_done_ok ok_or_ok read_ok split: if_splits)
      (blast dest: fs_write_ok write_private_key_ok)+
qed

text \<open>
  The cluster's CA outlives restarts. Once a node has started from a directory, by creating a
  CA, loading one or loading issued certificates, any later start from it that succeeds trusts the
  same CA and changes no file, even under another node id and with other keys drawn.
\<close>

theorem ca_survives_restart:
  assumes "pki_lib_ok (pe_lib env)" "pe_lib env' = pe_lib env"
    and "load_or_create env s dir node_id = (ss, ws, Inr m)"
    and "load_or_create env' (last ss) dir node_id' = (ss', ws', Inr m')"
  shows "pm_ca_cert_der m' = pm_ca_cert_der m \<and> last ss' = last ss"
proof -
  have first: "cert_at (pe_lib env) (last ss) (dir, ''ca.crt'') (pm_ca_cert_der m)"
    and present: "last ss (dir, ''ca.key'') \<noteq> None \<or> last ss (dir, ''node.crt'') \<noteq> None \<and> last ss (dir, ''node.key'') \<noteq> None"
    using load_or_create_ok [OF assms(1,3)] by auto
  then have "last ss (dir, ''ca.crt'') \<noteq> None" by (auto simp: cert_at_def)
  then have "last ss' = last ss" "cert_at (pe_lib env) (last ss') (dir, ''ca.crt'') (pm_ca_cert_der m')"
    using load_or_create_ok [OF _ assms(4)] assms(1,2) present by auto
  with first show ?thesis by (auto dest: cert_at_unique)
qed

text \<open>
  Issued certificates work. After \<^verbatim>\<open>cert issue\<close> has succeeded into a directory without a
  \<^verbatim>\<open>ca.key\<close>, a node that can read its files starts from them: it trusts the CA of the issuing
  directory, presents the certificate signed for the name asked for (whatever node id it is
  configured with), holds that certificate's key, is given no warning about the key's permissions,
  and nothing is written.
\<close>

theorem issued_cert_loads:
  assumes "pki_lib_ok (pe_lib env)" "pe_lib env' = pe_lib env"
    and "issue_cert_to_dir env s dir node_id out = (ss, ws, Inr u)"
    and "s (out, ''ca.key'') = None" "pe_create_dir env' out" "pe_readable env' = (\<lambda>_. True)"
  shows "\<exists>ss' ca_der ca_cert ca_key cert key.
    load_or_create env' (last ss) out other_id = (ss', [],
      Inr \<lparr>pm_ca_cert_der = ca_der, pm_node_cert_der = pl_der (pe_lib env) cert,
           pm_node_key = pl_serialize_der (pe_lib env) key\<rparr>) \<and>
    last ss' = last ss \<and> cert_at (pe_lib env) s (dir, ''ca.crt'') ca_der \<and>
    sign_node_cert env node_id ca_cert ca_key = Inr (cert, key)"
proof -
  let ?lib = "pe_lib env"
  obtain ca_der ca_cert ca_key cert key f ss1 ws1 ss3 ss4 ss5 pre
    where ca: "load_ca env s (dir, ''ca.crt'') (dir, ''ca.key'') = (ss1, ws1, Inr (ca_der, ca_cert, ca_key))"
      and sign: "sign_node_cert env node_id ca_cert ca_key = Inr (cert, key)"
      and f: "s (dir, ''ca.crt'') = Some f"
      and w: "fs_write env ''write ca.crt'' s (out, ''ca.crt'') (f_data f) = (ss3, [], Inr ())"
        "fs_write env ''write node.crt'' (last ss3) (out, ''node.crt'') (pl_pem ?lib cert) = (ss4, [], Inr ())"
        "write_private_key env ''write node.key'' (last ss4) (out, ''node.key'') (pl_serialize_pem ?lib key) = (ss5, [], Inr ())"
      and ss: "ss = pre @ ss5"
    using issue_ok [OF assms(3)] by blast
  have last: "last ss = last ss5" using ss write_private_key_ok [OF w(3)] by simp
  obtain c where c: "last ss3 = s((out, ''ca.crt'') \<mapsto> c)" "f_data c = f_data f" using fs_write_ok [OF w(1)] by metis
  obtain n where n: "last ss4 = (last ss3)((out, ''node.crt'') \<mapsto> n)" "f_data n = pl_pem ?lib cert"
    using fs_write_ok [OF w(2)] by metis
  obtain k where k: "last ss5 = (last ss4)((out, ''node.key'') \<mapsto> k)" "f_data k = pl_serialize_pem ?lib key" "f_perms k = OWNER_ONLY"
    using write_private_key_ok [OF w(3)] by metis
  have files: "last ss (out, ''ca.crt'') = Some c" "last ss (out, ''node.crt'') = Some n"
      "last ss (out, ''node.key'') = Some k" "last ss (out, ''ca.key'') = None"
    using c(1) n(1) k(1) assms(4) by (simp_all add: last)
  have der: "cert_at ?lib s (dir, ''ca.crt'') ca_der" using load_ca_ok [OF ca] by simp
  then have "pem_to_der ?lib msg (f_data f) = Inr ca_der" for msg
    using f by (auto simp: cert_at_def intro: pem_to_der_msg)
  then have "\<exists>ss'. load_or_create env' (last ss) out other_id = (ss', [],
      Inr \<lparr>pm_ca_cert_der = ca_der, pm_node_cert_der = pl_der ?lib cert, pm_node_key = pl_serialize_der ?lib key\<rparr>) \<and> last ss' = last ss"
    using files c(2) n(2) k(2,3) assms(2,5,6) pem_to_der_ok [OF assms(1)] pem_to_private_key_ok [OF assms(1)]
    by (simp add: load_or_create_def load_issued_def pki_then_def pki_done_def read_to_string_def ok_or_def
        warn_if_readable_by_others_def others_bits_def OWNER_ONLY_def Let_def)
  then show ?thesis using der sign by blast
qed

section \<open>Witnesses\<close>

text \<open>Certificates that spell out their name, and PEM that marks its kind.\<close>

definition sample_pki_lib :: pki_lib where
  "sample_pki_lib =
     \<lparr>pl_names_ok = (\<lambda>_. True),
      pl_self_signed = (\<lambda>p k. Some (cp_common_name p @ ''/'' @ k)),
      pl_signed_by = (\<lambda>p k c ck. Some (cp_common_name p @ ''<'' @ c)),
      pl_from_ca_cert_der = (\<lambda>_. Some ca_params),
      pl_der = (\<lambda>c. c), pl_pem = (\<lambda>c. CHR ''C'' # c),
      pl_serialize_pem = (\<lambda>k. CHR ''K'' # k), pl_serialize_der = (\<lambda>k. k),
      pl_key_from_pem = (\<lambda>s. case s of c # k \<Rightarrow> if c = CHR ''K'' then Some k else None | [] \<Rightarrow> None),
      pl_pem_certs = (\<lambda>s. case s of c # d \<Rightarrow> if c = CHR ''C'' then [Some d] else [] | [] \<Rightarrow> []),
      pl_pem_private_key = (\<lambda>s. case s of c # k \<Rightarrow> if c = CHR ''K'' then Some (Some k) else None | [] \<Rightarrow> None)\<rparr>"

definition sample_write_env :: write_env where
  "sample_write_env =
     \<lparr>we_random_hex = ''0'', we_new_perms = 420, we_self = 0, we_open = None, we_create = None, we_set_perms = None,
      we_chown_ok = True, we_write = None, we_sync = None, we_rename = None, we_remove_ok = True, we_in_place = None\<rparr>"

definition sample_pki_env :: "string \<Rightarrow> pki_env" where
  "sample_pki_env key =
     \<lparr>pe_lib = sample_pki_lib, pe_ca_key = Some (''ca'' @ key), pe_node_key = Some key, pe_create_dir = (\<lambda>_. True),
      pe_readable = (\<lambda>_. True), pe_write = (\<lambda>_. sample_write_env), pe_umask = 18, pe_self = 0, pe_key_open = True,
      pe_key_perms = True, pe_key_write = None, pe_key_sync = True\<rparr>"

definition sample_tls_fs :: fs where
  "sample_tls_fs = Map.empty
     ((''tls'', ''ca.crt'') \<mapsto> \<lparr>f_data = ''Cca/k'', f_perms = 420, f_owner = 0, f_synced = True\<rparr>,
      (''tls'', ''ca.key'') \<mapsto> \<lparr>f_data = ''Kk'', f_perms = 384, f_owner = 0, f_synced = True\<rparr>)"

lemma sample_pki_lib_ok: "pki_lib_ok sample_pki_lib"
  by (simp add: pki_lib_ok_def sample_pki_lib_def)

lemmas pki_eval = load_or_create_def issue_cert_to_dir_def with_node_cert_def load_ca_def generate_ca_def
  generate_node_cert_def sign_node_cert_def node_params_def ca_params_def pki_then_def pki_done_def read_to_string_def ok_or_def fs_write_def
  write_in_place_def write_private_key_def last_write_states warn_if_readable_by_others_def others_bits_def
  pem_to_der_def sample_pki_env_def sample_pki_lib_def sample_write_env_def sample_tls_fs_def try_then_def map_err_def
  OWNER_ONLY_def MESH_SERVER_NAME_def new_file_def Let_def

theorem ca_survives_restart_witness:
  "\<exists>ss ws m ss' ws' m'.
     load_or_create (sample_pki_env ''k1'') Map.empty ''tls'' ''n1'' = (ss, ws, Inr m) \<and>
     load_or_create (sample_pki_env ''k2'') (last ss) ''tls'' ''n2'' = (ss', ws', Inr m') \<and>
     pm_ca_cert_der m' = ''stouter-cluster-ca/cak1''"
proof -
  obtain ss ws m where r1: "load_or_create (sample_pki_env ''k1'') Map.empty ''tls'' ''n1'' = (ss, ws, Inr m)"
    and m: "pm_ca_cert_der m = ''stouter-cluster-ca/cak1''"
    and files: "map_option f_data (last ss (''tls'', ''ca.crt'')) = Some ''Cstouter-cluster-ca/cak1''"
      "map_option f_data (last ss (''tls'', ''ca.key'')) = Some ''Kcak1''"
    by (simp add: pki_eval)
  have "\<exists>ss' ws' m'. load_or_create (sample_pki_env ''k2'') (last ss) ''tls'' ''n2'' = (ss', ws', Inr m')"
    using files by (auto simp: pki_eval)
  then obtain ss' ws' m' where r2: "load_or_create (sample_pki_env ''k2'') (last ss) ''tls'' ''n2'' = (ss', ws', Inr m')"
    by blast
  have "pm_ca_cert_der m' = pm_ca_cert_der m"
    using ca_survives_restart [OF _ _ r1 r2] sample_pki_lib_ok by (simp add: sample_pki_env_def)
  with r1 r2 m show ?thesis by auto
qed

theorem issued_cert_loads_witness:
  "\<exists>ss ws. issue_cert_to_dir (sample_pki_env ''k9'') sample_tls_fs ''tls'' ''n7'' ''out'' = (ss, ws, Inr ()) \<and>
     (\<exists>ss' m. load_or_create (sample_pki_env ''x'') (last ss) ''out'' ''other'' = (ss', [], Inr m) \<and> last ss' = last ss)"
proof -
  have "\<exists>ss ws. issue_cert_to_dir (sample_pki_env ''k9'') sample_tls_fs ''tls'' ''n7'' ''out'' = (ss, ws, Inr ())"
    by (simp add: pki_eval)
  then obtain ss ws where i: "issue_cert_to_dir (sample_pki_env ''k9'') sample_tls_fs ''tls'' ''n7'' ''out'' = (ss, ws, Inr ())"
    by blast
  have "pki_lib_ok (pe_lib (sample_pki_env ''k9''))" "pe_lib (sample_pki_env ''x'') = pe_lib (sample_pki_env ''k9'')"
    "sample_tls_fs (''out'', ''ca.key'') = None" "pe_create_dir (sample_pki_env ''x'') ''out''"
    "pe_readable (sample_pki_env ''x'') = (\<lambda>_. True)"
    using sample_pki_lib_ok by (simp_all add: sample_pki_env_def sample_tls_fs_def)
  from issued_cert_loads [OF this(1,2) i this(3-5)] i show ?thesis by blast
qed

end
