(* ===== verification/Tls.thy ===== *)
theory Tls
  imports Pki Gossip_Laws
begin

text \<open>
  Mutual TLS between daemons (\<^verbatim>\<open>src/tls.rs\<close>): the contexts made from a node's certificates, the two
  ends of a handshake, and the name by which a daemon knows its peer. The handshake and the parsing
  of X.509 are the \<^verbatim>\<open>rustls\<close> and \<^verbatim>\<open>x509_parser\<close> crates', the parameter \<open>tls_lib\<close>. A stream is
  its end of a connection here; \<open>Mesh_Io\<close> has its reads and writes.
\<close>

section \<open>Contexts and streams\<close>

record TlsContext =
  tc_roots :: "der list"
  tc_chain :: "der list"
  tc_key :: der
  tc_server_name :: string

text \<open>
  \<open>tl_accept\<close> is the acceptor's side of a handshake with a client: None if it fails, otherwise the
  certificates that the session reports of the peer. \<open>tl_common_names\<close> are the common names of a
  certificate's subject, None where one is not a string.
\<close>

record tls_lib =
  tl_add_root :: "der \<Rightarrow> bool"
  tl_client_verifier :: "der list \<Rightarrow> string + unit"
  tl_server_config :: "der list \<Rightarrow> der \<Rightarrow> bool"
  tl_client_config :: "der list \<Rightarrow> der \<Rightarrow> bool"
  tl_server_name :: "string \<Rightarrow> string + string"
  tl_accept :: "TlsContext \<Rightarrow> TlsContext \<Rightarrow> der list option option"
  tl_connect :: "TlsContext \<Rightarrow> string \<Rightarrow> TlsContext \<Rightarrow> bool"
  tl_common_names :: "der \<Rightarrow> string option list option"

datatype MeshStream = TlsServer conn "string option" | TlsClient conn

definition peer_cn :: "MeshStream \<Rightarrow> string option" where
  "peer_cn stream = (case stream of TlsServer _ cn \<Rightarrow> cn | TlsClient _ \<Rightarrow> None)"

definition tls_context_new :: "tls_lib \<Rightarrow> PkiMaterial \<Rightarrow> string + TlsContext" where
  "tls_context_new lib pki =
     try_then (if tl_add_root lib (pm_ca_cert_der pki) then Inr () else Inl ''add CA cert to root store'') (\<lambda>_.
     let root_store = [pm_ca_cert_der pki];
         cert_chain = [pm_node_cert_der pki];
         private_key = pm_node_key pki
     in try_then (map_err (\<lambda>e. ''build client verifier: '' @ e) (tl_client_verifier lib root_store)) (\<lambda>_.
        try_then (if tl_server_config lib cert_chain private_key then Inr () else Inl ''build server TLS config'') (\<lambda>_.
        try_then (if tl_client_config lib cert_chain private_key then Inr () else Inl ''build client TLS config'') (\<lambda>_.
        try_then (map_err (\<lambda>e. ''parse mesh server name: '' @ e) (tl_server_name lib MESH_SERVER_NAME)) (\<lambda>server_name.
          Inr \<lparr>tc_roots = root_store, tc_chain = cert_chain, tc_key = private_key, tc_server_name = server_name\<rparr>)))))"

definition peer_leaf_cn :: "tls_lib \<Rightarrow> der list option \<Rightarrow> string option" where
  "peer_leaf_cn lib peer_certificates =
     Option.bind peer_certificates (\<lambda>certs.
       case certs of
         [] \<Rightarrow> None
       | leaf # _ \<Rightarrow> Option.bind (tl_common_names lib leaf) (\<lambda>names. case names of [] \<Rightarrow> None | cn # _ \<Rightarrow> cn))"

definition tls_ctx_accept :: "tls_lib \<Rightarrow> TlsContext \<Rightarrow> TlsContext \<Rightarrow> conn \<Rightarrow> string + MeshStream" where
  "tls_ctx_accept lib ctx client stream =
     (case tl_accept lib ctx client of
        None \<Rightarrow> Inl ''TLS accept''
      | Some certs \<Rightarrow> Inr (TlsServer stream (peer_leaf_cn lib certs)))"

definition tls_ctx_connect :: "tls_lib \<Rightarrow> TlsContext \<Rightarrow> TlsContext \<Rightarrow> conn \<Rightarrow> string + MeshStream" where
  "tls_ctx_connect lib ctx server stream =
     (if tl_connect lib ctx (tc_server_name ctx) server then Inr (TlsClient stream) else Inl ''TLS connect'')"

text \<open>
  A daemon without certificates (no \<^verbatim>\<open>tlsDir\<close>) neither accepts nor connects: there is no plain
  connection between daemons.
\<close>

definition state_tls_accept :: "tls_lib \<Rightarrow> TlsContext option \<Rightarrow> TlsContext \<Rightarrow> conn \<Rightarrow> string + MeshStream" where
  "state_tls_accept lib tls client stream =
     (case tls of
        Some ctx \<Rightarrow> tls_ctx_accept lib ctx client stream
      | None \<Rightarrow> Inl ''mTLS is required but tlsDir is not configured'')"

definition state_tls_connect :: "tls_lib \<Rightarrow> TlsContext option \<Rightarrow> TlsContext \<Rightarrow> conn \<Rightarrow> string + MeshStream" where
  "state_tls_connect lib tls server stream =
     (case tls of
        Some ctx \<Rightarrow> tls_ctx_connect lib ctx server stream
      | None \<Rightarrow> Inl ''mTLS is required but tlsDir is not configured'')"

section \<open>Who the peer is\<close>

text \<open>
  What the code relies on of the crates: an acceptor that demands client certificates reports the
  chain the client presented, and a signed certificate has exactly the common name it was asked for.
\<close>

definition tls_lib_ok :: "tls_lib \<Rightarrow> pki_lib \<Rightarrow> bool" where
  "tls_lib_ok lib pki \<longleftrightarrow>
     (\<forall>server client certs. tl_accept lib server client = Some certs \<longrightarrow> certs = Some (tc_chain client)) \<and>
     (\<forall>params key ca_cert ca_key cert. pl_signed_by pki params key ca_cert ca_key = Some cert \<longrightarrow>
        tl_common_names lib (pl_der pki cert) = Some [Some (cp_common_name params)])"

lemma tls_context_chain: "tls_context_new lib m = Inr ctx \<Longrightarrow> tc_chain ctx = [pm_node_cert_der m]"
  by (auto simp: tls_context_new_def loop_simps Let_def)

lemma accepted_cn:
  assumes "tls_lib_ok lib pki" "tls_context_new lib m = Inr client"
    and "pm_node_cert_der m = pl_der pki cert" "pl_signed_by pki params key ca_cert ca_key = Some cert"
    and "state_tls_accept lib server client c = Inr stream"
  shows "peer_cn stream = Some (cp_common_name params)"
proof -
  obtain ctx certs where "tl_accept lib ctx client = Some certs" and s: "stream = TlsServer c (peer_leaf_cn lib certs)"
    using assms(5) by (auto simp: state_tls_accept_def tls_ctx_accept_def split: option.splits)
  then have "certs = Some [pl_der pki cert]"
    using assms(1,3) tls_context_chain [OF assms(2)] unfolding tls_lib_ok_def by metis
  moreover have "tl_common_names lib (pl_der pki cert) = Some [Some (cp_common_name params)]"
    using assms(1,4) unfolding tls_lib_ok_def by metis
  ultimately show ?thesis by (simp add: peer_cn_def s peer_leaf_cn_def)
qed

lemma signed_cn:
  "sign_node_cert env node_id ca_cert ca_key = Inr (cert, key) \<Longrightarrow>
     pl_signed_by (pe_lib env) (node_params node_id) key ca_cert ca_key = Some cert"
  by (auto simp: sign_node_cert_def loop_simps split: if_splits)

lemma node_params_cn: "cp_common_name (node_params node_id) = node_id"
  by (simp add: node_params_def)

text \<open>
  C12. A peer is known by the certificate it was issued, not by what it calls itself. After
  \<^verbatim>\<open>cert issue\<close> for a name into a directory without a CA key, whoever starts from that directory,
  under any node id, is seen by the daemon that accepts it under the issued name, and may change the
  configuration exactly if that name is on the daemon's list of admins.
\<close>

theorem issued_identity:
  assumes "pki_lib_ok (pe_lib env)" "tls_lib_ok tls (pe_lib env)" "pe_lib env' = pe_lib env"
    and "issue_cert_to_dir env s dir node_id out = (ss, ws, Inr u)"
    and "s (out, ''ca.key'') = None" "pe_create_dir env' out" "pe_readable env' = (\<lambda>_. True)"
    and "load_or_create env' (last ss) out other_id = (ss', ws', Inr m)"
    and "tls_context_new tls m = Inr client" "state_tls_accept tls server client c = Inr stream"
  shows "peer_cn stream = Some node_id \<and>
    (admin_allowed st (peer_cn stream) \<longleftrightarrow> node_id \<in> set (cfg_admin_cns (ss_config st)))"
proof -
  obtain ca_cert ca_key cert key where m: "pm_node_cert_der m = pl_der (pe_lib env) cert"
    and sign: "sign_node_cert env node_id ca_cert ca_key = Inr (cert, key)"
    using issued_cert_loads [OF assms(1,3,4,5,6,7), of other_id] assms(8) by auto
  have "peer_cn stream = Some node_id"
    using accepted_cn [OF assms(2,9) m signed_cn [OF sign] assms(10)] by (simp add: node_params_cn)
  then show ?thesis by (simp add: admin_allowed_def)
qed

section \<open>Witnesses\<close>

text \<open>Certificates that are their subject's name.\<close>

definition named_pki_env :: "string \<Rightarrow> pki_env" where
  "named_pki_env key = (sample_pki_env key)\<lparr>pe_lib := sample_pki_lib\<lparr>pl_signed_by := (\<lambda>p _ _ _. Some (cp_common_name p))\<rparr>\<rparr>"

definition sample_tls :: tls_lib where
  "sample_tls =
     \<lparr>tl_add_root = (\<lambda>_. True), tl_client_verifier = (\<lambda>_. Inr ()), tl_server_config = (\<lambda>_ _. True),
      tl_client_config = (\<lambda>_ _. True), tl_server_name = Inr, tl_accept = (\<lambda>_ client. Some (Some (tc_chain client))),
      tl_connect = (\<lambda>_ _ _. True), tl_common_names = (\<lambda>d. Some [Some d])\<rparr>"

lemma sample_tls_ok:
  "pki_lib_ok (pe_lib (named_pki_env key))" "tls_lib_ok sample_tls (pe_lib (named_pki_env key))"
  using sample_pki_lib_ok
  by (simp_all add: named_pki_env_def pki_lib_ok_def tls_lib_ok_def sample_tls_def) (simp add: sample_pki_lib_def)

theorem issued_identity_witness:
  "\<exists>ss ws ss' ws' m client stream.
     issue_cert_to_dir (named_pki_env ''k9'') sample_tls_fs ''tls'' ''n7'' ''out'' = (ss, ws, Inr ()) \<and>
     load_or_create (named_pki_env ''x'') (last ss) ''out'' ''root'' = (ss', ws', Inr m) \<and>
     tls_context_new sample_tls m = Inr client \<and> state_tls_accept sample_tls (Some client) client 0 = Inr stream \<and>
     peer_cn stream = Some ''n7''"
proof -
  have "\<exists>ss ws. issue_cert_to_dir (named_pki_env ''k9'') sample_tls_fs ''tls'' ''n7'' ''out'' = (ss, ws, Inr ())"
    by (simp add: pki_eval named_pki_env_def)
  then obtain ss ws where i: "issue_cert_to_dir (named_pki_env ''k9'') sample_tls_fs ''tls'' ''n7'' ''out'' = (ss, ws, Inr ())"
    by blast
  have h: "pe_lib (named_pki_env ''x'') = pe_lib (named_pki_env ''k9'')" "sample_tls_fs (''out'', ''ca.key'') = None"
    "pe_create_dir (named_pki_env ''x'') ''out''" "pe_readable (named_pki_env ''x'') = (\<lambda>_. True)"
    by (simp_all add: named_pki_env_def sample_pki_env_def sample_tls_fs_def)
  obtain ss' m where l: "load_or_create (named_pki_env ''x'') (last ss) ''out'' ''root'' = (ss', [], Inr m)"
    using issued_cert_loads [OF sample_tls_ok(1) h(1) i h(2-4), of "''root''"] by blast
  obtain client where c: "tls_context_new sample_tls m = Inr client"
    by (simp add: tls_context_new_def sample_tls_def try_then_def map_err_def Let_def)
  obtain stream where a: "state_tls_accept sample_tls (Some client) client 0 = Inr stream"
    by (simp add: state_tls_accept_def tls_ctx_accept_def sample_tls_def)
  from issued_identity [OF sample_tls_ok h(1) i h(2-4) l c a] i l c a show ?thesis by blast
qed

end
