(* ===== verification/Cli.thy ===== *)
theory Cli
  imports Tls Telemetry
begin

text \<open>
  The command line (\<^verbatim>\<open>src/main.rs\<close>). A command is a function on a world: the local files, the
  daemons that can be reached by address, the gossip messages sent, and the lines printed. Requests
  to daemons go over links that may lose the request or, after the daemon has acted, the reply.
  JSON, X.509 and the TLS handshake belong to crates and are parameters; \<open>ce_handshake\<close> gives
  the common name the daemon sees. An error is the outermost message of the \<^verbatim>\<open>anyhow\<close> chain, without
  the operating system's own text. Log lines are not part of the world.
\<close>

section \<open>Arguments\<close>

datatype CertAction = CertIssue string string

record AddArgs =
  aa_group :: string
  aa_name :: string
  aa_port :: u16
  aa_domains :: "string list"
  aa_weight :: u32
  aa_max_connections :: "u32 option"
  aa_protocol :: Protocol
  aa_request_timeout_ms :: "u64 option"
  aa_health_path :: "string option"
  aa_labels :: "(string \<times> string) list"
  aa_meta :: "(string \<times> string) list"
  aa_local_port :: "u16 option"
  aa_node :: "string option"
  aa_remote :: "string option"

record MoveArgs =
  ma_group :: string
  ma_name :: string
  ma_node :: "string option"
  ma_to_group :: "string option"
  ma_to_node :: "string option"
  ma_from :: string
  ma_to :: string
  ma_from_cert_dir :: "string option"
  ma_to_cert_dir :: "string option"

datatype ServiceAction =
    ServiceAddCmd AddArgs
  | ServiceListCmd "string option"
  | ServiceMoveCmd MoveArgs
  | ServiceRenameCmd string string string "string option" "string option"
  | ServiceRemoveCmd string string "string option" "string option"

datatype RouteAction =
    RouteSet string string "string option"
  | RouteClear string "string option"
  | RouteList "string option"

datatype Commands =
    Init
  | Status "string option"
  | Check
  | ServiceCommand ServiceAction
  | RouteCommand RouteAction
  | CertCommand CertAction

record Cli =
  cli_config :: string
  cli_cert_dir :: "string option"
  cli_command :: "Commands option"

section \<open>The world of a command\<close>

datatype link_fault = NoFault | LostRequest | LostReply

record cli_world =
  cw_fs :: fs
  cw_daemons :: "string \<rightharpoonup> SharedState"
  cw_links :: "link_fault list"
  cw_sent :: "(string \<times> Message) list"
  cw_out :: "string list"
  cw_err :: "string list"

text \<open>What \<^verbatim>\<open>serde_json\<close> does with route arguments.\<close>

record route_lib =
  rl_parse :: "string \<Rightarrow> json option"
  rl_from_value :: "json \<Rightarrow> Route list option"
  rl_match_json :: "RouteMatch \<Rightarrow> string"

record cli_env =
  ce_json :: json_lib
  ce_routes :: route_lib
  ce_http :: http_lib
  ce_pki :: pki_env
  ce_write :: write_env
  ce_resolve :: "string \<Rightarrow> path"
  ce_hostname :: string
  ce_tls :: tls_lib
  ce_handshake :: "string \<Rightarrow> PkiMaterial \<Rightarrow> string option option"

text \<open>\<open>Failed\<close> is an error returned from \<^verbatim>\<open>main\<close>, \<open>Exited\<close> a \<^verbatim>\<open>std::process::exit\<close>.\<close>

datatype cli_err = Failed string | Exited nat

type_synonym 'a cli = "cli_world \<Rightarrow> cli_world \<times> (cli_err + 'a)"

definition cli_ret :: "'a \<Rightarrow> 'a cli" where
  "cli_ret x w = (w, Inr x)"

definition cli_stop :: "cli_err \<Rightarrow> 'a cli" where
  "cli_stop e w = (w, Inl e)"

definition cli_lift :: "string + 'a \<Rightarrow> 'a cli" where
  "cli_lift r w = (w, map_err Failed r)"

definition cli_bind :: "'a cli \<Rightarrow> ('a \<Rightarrow> 'b cli) \<Rightarrow> 'b cli" where
  "cli_bind m k w = (case m w of (w', Inl e) \<Rightarrow> (w', Inl e) | (w', Inr x) \<Rightarrow> k x w')"

definition println :: "string \<Rightarrow> unit cli" where
  "println line w = (w\<lparr>cw_out := cw_out w @ [line]\<rparr>, Inr ())"

definition eprintln :: "string \<Rightarrow> unit cli" where
  "eprintln line w = (w\<lparr>cw_err := cw_err w @ [line]\<rparr>, Inr ())"

fun print_lines :: "string list \<Rightarrow> unit cli" where
  "print_lines [] = cli_ret ()"
| "print_lines (l # ls) = cli_bind (println l) (\<lambda>_. print_lines ls)"

section \<open>The configuration file\<close>

definition load_file :: "cli_env \<Rightarrow> cli_world \<Rightarrow> string \<Rightarrow> string + Config" where
  "load_file env w file =
     try_then (read_to_string (ce_pki env) (cw_fs w) (ce_resolve env file)) (\<lambda>data.
       ok_or ''invalid JSON'' (from_json (ce_json env) data))"

definition cli_load :: "cli_env \<Rightarrow> string \<Rightarrow> Config cli" where
  "cli_load env file w = cli_lift (load_file env w file) w"

definition load_or_default :: "cli_env \<Rightarrow> string \<Rightarrow> Config cli" where
  "load_or_default env file w = cli_ret (case load_file env w file of Inr cfg \<Rightarrow> cfg | Inl _ \<Rightarrow> default_config) w"

definition config_check :: "cli_env \<Rightarrow> cli_world \<Rightarrow> string \<Rightarrow> string + Config" where
  "config_check env w file =
     try_then (map_err (\<lambda>_. ''failed to read config file '' @ quoted file)
       (read_to_string (ce_pki env) (cw_fs w) (ce_resolve env file))) (\<lambda>data.
     try_then (ok_or (''invalid JSON in '' @ quoted file) (from_json (ce_json env) data)) (\<lambda>config.
     try_then (validate (ce_http env) config) (\<lambda>_. Inr config)))"

definition cli_save :: "cli_env \<Rightarrow> string \<Rightarrow> Config \<Rightarrow> unit cli" where
  "cli_save env file cfg w =
     (case save (to_json (ce_json env)) (ce_write env) (cw_fs w) (ce_resolve env file) cfg of
        (states, _, r) \<Rightarrow> (w\<lparr>cw_fs := last states\<rparr>, map_err (\<lambda>_. Failed ''save'') r))"

section \<open>TLS and gossip from the command line\<close>

definition tls_context :: "cli_env \<Rightarrow> string \<Rightarrow> string \<Rightarrow> PkiMaterial cli" where
  "tls_context env dir node_id w =
     (case load_or_create (ce_pki env) (cw_fs w) dir node_id of
        (ss, _, r) \<Rightarrow>
          cli_bind (cli_lift r) (\<lambda>material.
            cli_bind (cli_lift (tls_context_new (ce_tls env) material)) (\<lambda>_. cli_ret material))
          (w\<lparr>cw_fs := last ss\<rparr>))"

definition build_cli_tls :: "cli_env \<Rightarrow> Config \<Rightarrow> string option \<Rightarrow> PkiMaterial cli" where
  "build_cli_tls env cfg cert_dir =
     (case (case cert_dir of Some d \<Rightarrow> Some d | None \<Rightarrow> cfg_tls_dir cfg) of
        None \<Rightarrow> cli_stop (Failed ''TLS material not available: pass --cert-dir or set tlsDir in the local config'')
      | Some dir \<Rightarrow> tls_context env dir (if cfg_node_id cfg = [] then ''stouter-cli'' else cfg_node_id cfg))"

text \<open>
  A message to every known peer. Without TLS no connection can be set up, so nothing is sent, and
  a peer that cannot be reached is only logged.
\<close>

definition announce :: "cli_env \<Rightarrow> Config \<Rightarrow> Message \<Rightarrow> unit cli" where
  "announce env cfg msg =
     cli_bind (case cfg_tls_dir cfg of
         Some dir \<Rightarrow> cli_bind (tls_context env dir (cfg_node_id cfg)) (\<lambda>_. cli_ret True)
       | None \<Rightarrow> cli_ret False) (\<lambda>tls w.
       (w\<lparr>cw_sent := cw_sent w @ (if tls then broadcast_message (new_state cfg tls None False) msg else [])\<rparr>, Inr ()))"

definition broadcast_config :: "cli_env \<Rightarrow> Config \<Rightarrow> unit cli" where
  "broadcast_config env cfg = announce env cfg (ConfigUpdate (cfg_dynamic_config cfg))"

section \<open>Requests to a daemon\<close>

definition next_link :: "link_fault cli" where
  "next_link w =
     (case cw_links w of [] \<Rightarrow> (w, Inr NoFault) | f # fs \<Rightarrow> (w\<lparr>cw_links := fs\<rparr>, Inr f))"

text \<open>
  One exchange with the daemon at \<open>target\<close> once TLS is up: it acts on the request unless that is
  lost, and the answer arrives unless it is lost.
\<close>

definition exchange ::
  "cli_env \<Rightarrow> string \<Rightarrow> PkiMaterial \<Rightarrow> (SharedState \<Rightarrow> string option \<Rightarrow> SharedState \<times> Message \<times> (string \<times> Message) list) \<Rightarrow> Message cli" where
  "exchange env target material act w =
     (case cw_daemons w target of
        None \<Rightarrow> cli_stop (Failed (''connect to '' @ target)) w
      | Some st \<Rightarrow>
          (case ce_handshake env target material of
             None \<Rightarrow> cli_stop (Failed ''TLS connect'') w
           | Some cn \<Rightarrow>
               cli_bind next_link (\<lambda>fault w.
                 if fault = LostRequest then cli_stop (Failed ''read length prefix'') w
                 else (case act st cn of
                         (st', reply, msgs) \<Rightarrow>
                           (w\<lparr>cw_daemons := (cw_daemons w)(target \<mapsto> st'), cw_sent := cw_sent w @ msgs\<rparr>,
                            if fault = LostReply then Inl (Failed ''read length prefix'') else Inr (on_wire reply)))) w))"

definition status_act :: "SharedState \<Rightarrow> string option \<Rightarrow> SharedState \<times> Message \<times> (string \<times> Message) list" where
  "status_act st cn = (st, handle_status_request st, [])"

definition admin_act ::
  "cli_env \<Rightarrow> AdminOp \<Rightarrow> SharedState \<Rightarrow> string option \<Rightarrow> SharedState \<times> Message \<times> (string \<times> Message) list" where
  "admin_act env op st cn =
     (case handle_admin_request (ce_json env) (ce_http env) st cn op of
        (st', r, msgs) \<Rightarrow> (st', AdminResponse r, msgs))"

definition try_admin_rpc :: "cli_env \<Rightarrow> string \<Rightarrow> AdminOp \<Rightarrow> Config \<Rightarrow> string option \<Rightarrow> AdminResult cli" where
  "try_admin_rpc env target op cfg cert_dir =
     cli_bind (build_cli_tls env cfg cert_dir) (\<lambda>material.
     cli_bind (exchange env target material (admin_act env op)) (\<lambda>reply.
       case reply of
         AdminResponse r \<Rightarrow> cli_ret r
       | _ \<Rightarrow> cli_stop (Failed ''unexpected response from daemon'')))"

definition admin_exit_code :: "AdminErrCode \<Rightarrow> nat" where
  "admin_exit_code c = (case c of Unauthorized \<Rightarrow> 3 | Validation \<Rightarrow> 2 | NotFound \<Rightarrow> 2 | Internal \<Rightarrow> 1)"

definition run_admin_rpc :: "cli_env \<Rightarrow> string \<Rightarrow> AdminOp \<Rightarrow> Config \<Rightarrow> string option \<Rightarrow> u64 cli" where
  "run_admin_rpc env target op cfg cert_dir =
     cli_bind (try_admin_rpc env target op cfg cert_dir) (\<lambda>r.
       case r of
         AdminOk new_version \<Rightarrow> cli_ret new_version
       | AdminErr c message \<Rightarrow>
           cli_bind (eprintln (''error: '' @ message)) (\<lambda>_. cli_stop (Exited (admin_exit_code c))))"

definition fetch_remote_dynamic_config :: "cli_env \<Rightarrow> string \<Rightarrow> Config \<Rightarrow> string option \<Rightarrow> DynamicConfig cli" where
  "fetch_remote_dynamic_config env target cfg cert_dir =
     cli_bind (build_cli_tls env cfg cert_dir) (\<lambda>material.
     cli_bind (exchange env target material status_act) (\<lambda>reply.
       case reply of
         StatusResponse _ _ _ dynamic_config _ \<Rightarrow> cli_ret dynamic_config
       | _ \<Rightarrow> cli_stop (Failed (''unexpected response from '' @ target))))"

section \<open>Parsing arguments\<close>

definition parse_key_value :: "string \<Rightarrow> string + string \<times> string" where
  "parse_key_value arg =
     (case split_once (CHR ''='') arg of
        Some (k, v) \<Rightarrow> if k \<noteq> [] then Inr (k, v) else Inl (quoted arg @ '' must look like key=value'')
      | None \<Rightarrow> Inl (quoted arg @ '' must look like key=value''))"

definition fill_service :: "string \<Rightarrow> json \<Rightarrow> json" where
  "fill_service service route =
     (case route of
        JObj kvs \<Rightarrow> if map_of kvs ''service'' = None then JObj (kvs @ [(''service'', JStr service)]) else route
      | _ \<Rightarrow> route)"

definition parse_routes :: "cli_env \<Rightarrow> cli_world \<Rightarrow> string \<Rightarrow> string \<Rightarrow> string + Route list" where
  "parse_routes env w service arg =
     try_then (case strip_prefix ''@'' arg of
         Some file \<Rightarrow> map_err (\<lambda>_. ''read '' @ file) (read_to_string (ce_pki env) (cw_fs w) (ce_resolve env file))
       | None \<Rightarrow> Inr arg) (\<lambda>txt.
     try_then (case rl_parse (ce_routes env) txt of
         Some (JArr raw) \<Rightarrow> Inr raw
       | _ \<Rightarrow> Inl ''routes must be a JSON array'') (\<lambda>raw.
     try_then (ok_or ''invalid route'' (rl_from_value (ce_routes env) (JArr (map (fill_service service) raw)))) (\<lambda>routes.
     try_then (validate_routes (ce_http env) service routes) (\<lambda>_. Inr routes))))"

section \<open>What is printed\<close>

definition pad :: "nat \<Rightarrow> string \<Rightarrow> string" where
  "pad n s = s @ replicate (n - length s) (CHR '' '')"

definition trim_end :: "string \<Rightarrow> string" where
  "trim_end s = rev (dropWhile (\<lambda>c. is_ascii_whitespace c \<or> c = CHR 0x0B) (rev s))"

definition show_word :: "'a::len word \<Rightarrow> string" where
  "show_word n = dec_string (unat n)"

definition status_service_line :: "NodeInfo list \<Rightarrow> Service \<Rightarrow> string" where
  "status_service_line known_nodes svc =
     (let unhealthy = (\<exists>n \<in> set known_nodes. ni_id n = svc_node_id svc \<and> sh_is_unhealthy (ni_health n) (svc_name svc)) in
      trim_end (''    '' @ pad 20 (svc_name svc) @ '' node='' @ pad 20 (svc_node_id svc) @ '' port='' @ pad 6 (show_word (svc_node_port svc))
        @ '' '' @ (if unhealthy then ''UNHEALTHY'' else [])))"

definition status_node_line :: "NodeInfo \<Rightarrow> string" where
  "status_node_line n =
     (if sh_unhealthy (ni_health n) = [] then ''  '' @ pad 20 (ni_id n) @ '' '' @ ni_addr n
      else ''  '' @ pad 20 (ni_id n) @ '' '' @ pad 22 (ni_addr n) @ '' unhealthy: '' @ join '', '' (sh_unhealthy (ni_health n)))"

definition print_status :: "string \<Rightarrow> string \<Rightarrow> string \<Rightarrow> DynamicConfig \<Rightarrow> NodeInfo list \<Rightarrow> unit cli" where
  "print_status mode node_id bind dc known_nodes = print_lines (
     [''Daemon:  running ('' @ mode @ '' mode)'', ''Node ID: '' @ node_id, ''Bind:    '' @ bind,
      ''Config version: '' @ show_word (dc_version dc), [], ''Services:''] @
     concat (map (\<lambda>g. (''  ['' @ sg_name g @ '']'') # map (status_service_line known_nodes) (sg_services g)) (dc_service_groups dc)) @
     (if all_services dc = [] then [''  (none)''] else []) @
     [[], ''Known nodes:''] @ (if known_nodes = [] then [''  (none)''] else []) @ map status_node_line known_nodes)"

definition service_line :: "ServiceGroup \<Rightarrow> Service \<Rightarrow> string" where
  "service_line g svc =
     sg_name g @ ''/'' @ svc_name svc @ '' -> node='' @ svc_node_id svc @ '' port='' @ show_word (svc_node_port svc)
       @ '' weight='' @ show_word (svc_weight svc)
       @ (case svc_max_connections svc of Some m \<Rightarrow> '' maxConnections='' @ show_word m | None \<Rightarrow> [])
       @ (if \<not> is_tcp (svc_protocol svc) then '' protocol=http'' else [])
       @ (case svc_request_timeout_ms svc of Some ms \<Rightarrow> '' requestTimeoutMs='' @ show_word ms | None \<Rightarrow> [])
       @ (case svc_local_port svc of Some p \<Rightarrow> '' localPort='' @ show_word p | None \<Rightarrow> [])"

definition service_lines :: "DynamicConfig \<Rightarrow> string list" where
  "service_lines dc =
     (if all_services dc = [] then [''No services configured'']
      else concat (map (\<lambda>g. map (service_line g) (sg_services g)) (dc_service_groups dc)))"

definition backend_text :: "RouteBackend \<Rightarrow> string" where
  "backend_text b =
     (let labels = map (\<lambda>(k, v). k @ ''='' @ v) (rb_labels b) in
      (if labels = [] then ''*'' else join '','' labels) @ '' weight='' @ show_word (rb_weight b))"

definition route_line :: "cli_env \<Rightarrow> nat \<Rightarrow> Route \<Rightarrow> string" where
  "route_line env i route =
     rt_service route @ '' '' @ pad 10 (route_label route i) @ '' match='' @ rl_match_json (ce_routes env) (rt_matches route)
       @ '' -> '' @ join '' | '' (map backend_text (rt_backends route))"

definition route_lines :: "cli_env \<Rightarrow> DynamicConfig \<Rightarrow> string list" where
  "route_lines env dc =
     (if dc_routes dc = [] then [''No routes configured'']
      else map (\<lambda>(i, r). route_line env i r) (enumerate 0 (dc_routes dc)))"

section \<open>Commands\<close>

definition cmd_init :: "cli_env \<Rightarrow> Cli \<Rightarrow> unit cli" where
  "cmd_init env cli =
     cli_bind (load_or_default env (cli_config cli)) (\<lambda>cfg0.
     let cfg = cfg0\<lparr>cfg_node_id := ce_hostname env\<rparr> in
     cli_bind (cli_save env (cli_config cli) cfg) (\<lambda>_.
     cli_bind (println (''Node initialized. node_id='' @ cfg_node_id cfg @ '', config saved to '' @ cli_config cli)) (\<lambda>_.
       if cfg_known_nodes cfg = [] then cli_ret ()
       else announce env cfg (NodeJoin (cfg_node_id cfg) (peer_addr cfg)))))"

definition cmd_check :: "cli_env \<Rightarrow> Cli \<Rightarrow> unit cli" where
  "cmd_check env cli w =
     (case config_check env w (cli_config cli) of
        Inr _ \<Rightarrow> println (cli_config cli @ '' is valid'') w
      | Inl err \<Rightarrow> cli_bind (eprintln (cli_config cli @ '': '' @ err)) (\<lambda>_. cli_stop (Exited 1)) w)"

definition cmd_status :: "cli_env \<Rightarrow> Cli \<Rightarrow> string option \<Rightarrow> unit cli" where
  "cmd_status env cli remote =
     cli_bind (load_or_default env (cli_config cli)) (\<lambda>cfg w.
     let target = (case remote of Some t \<Rightarrow> t | None \<Rightarrow> local_target cfg) in
     if cw_daemons w target = None then println (''No daemon running on '' @ target) w
     else
       cli_bind (build_cli_tls env cfg (cli_cert_dir cli)) (\<lambda>material.
       cli_bind (exchange env target material status_act) (\<lambda>reply.
         case reply of
           StatusResponse mode node_id bind dc nodes \<Rightarrow> print_status mode node_id bind dc nodes
         | _ \<Rightarrow> println ''Unexpected response from daemon'')) w)"

text \<open>The service that the arguments of \<^verbatim>\<open>service add\<close> describe.\<close>

definition service_of_args :: "AddArgs \<Rightarrow> string \<Rightarrow> Service" where
  "service_of_args a node_id =
     \<lparr>svc_name = aa_name a, svc_node_id = node_id, svc_node_port = aa_port a, svc_domains = aa_domains a,
      svc_weight = aa_weight a, svc_max_connections = aa_max_connections a, svc_protocol = aa_protocol a,
      svc_request_timeout_ms = aa_request_timeout_ms a, svc_health_path = aa_health_path a,
      svc_labels = btree_collect (aa_labels a), svc_meta = btree_collect (aa_meta a), svc_local_port = aa_local_port a\<rparr>"

definition or_own :: "string option \<Rightarrow> Config \<Rightarrow> string" where
  "or_own node cfg = (case node of Some n \<Rightarrow> n | None \<Rightarrow> cfg_node_id cfg)"

definition cmd_service_add :: "cli_env \<Rightarrow> Cli \<Rightarrow> AddArgs \<Rightarrow> unit cli" where
  "cmd_service_add env cli a =
     cli_bind (cli_lift (case aa_health_path a of Some p \<Rightarrow> validate_health_path p | None \<Rightarrow> Inr ())) (\<lambda>_.
     case aa_remote a of
       Some target \<Rightarrow>
         cli_bind (load_or_default env (cli_config cli)) (\<lambda>cfg.
         cli_bind (run_admin_rpc env target (service_add (aa_group a) (service_of_args a (or_own (aa_node a) cfg))) cfg (cli_cert_dir cli)) (\<lambda>version.
           println (''Service '' @ quoted (aa_name a) @ '' added to group '' @ quoted (aa_group a) @ '' on '' @ target @ '' (version '' @ show_word version @ '')'')))
     | None \<Rightarrow>
         cli_bind (load_or_default env (cli_config cli)) (\<lambda>cfg0.
         case upsert_service (cfg_dynamic_config cfg0) (aa_group a) (service_of_args a (or_own (aa_node a) cfg0)) of
           (dc, version) \<Rightarrow>
             let cfg = cfg0\<lparr>cfg_dynamic_config := dc\<rparr> in
             cli_bind (cli_save env (cli_config cli) cfg) (\<lambda>_.
             cli_bind (announce env cfg (ConfigUpdate dc)) (\<lambda>_.
               println (''Service '' @ quoted (aa_name a) @ '' added to group '' @ quoted (aa_group a) @ '' (version '' @ show_word version @ '')'')))))"

definition cmd_service_list :: "cli_env \<Rightarrow> Cli \<Rightarrow> string option \<Rightarrow> unit cli" where
  "cmd_service_list env cli remote =
     cli_bind (case remote of
         Some target \<Rightarrow> cli_bind (load_or_default env (cli_config cli)) (\<lambda>cfg. fetch_remote_dynamic_config env target cfg (cli_cert_dir cli))
       | None \<Rightarrow> cli_bind (cli_load env (cli_config cli)) (\<lambda>cfg. cli_ret (cfg_dynamic_config cfg))) (\<lambda>dc.
       print_lines (service_lines dc))"

text \<open>A local change of the dynamic configuration, from loading the file to telling the peers.\<close>

definition mutate_local :: "cli_env \<Rightarrow> Cli \<Rightarrow> (Config \<Rightarrow> MutateErr + DynamicConfig \<times> u64) \<Rightarrow> u64 cli" where
  "mutate_local env cli change =
     cli_bind (cli_load env (cli_config cli)) (\<lambda>cfg0.
     cli_bind (cli_lift (map_err mutate_err_string (change cfg0))) (\<lambda>(dc, version).
     let cfg = cfg0\<lparr>cfg_dynamic_config := dc\<rparr> in
     cli_bind (cli_save env (cli_config cli) cfg) (\<lambda>_.
     cli_bind (broadcast_config env cfg) (\<lambda>_. cli_ret version))))"

definition cmd_service_rename :: "cli_env \<Rightarrow> Cli \<Rightarrow> string \<Rightarrow> string \<Rightarrow> string \<Rightarrow> string option \<Rightarrow> string option \<Rightarrow> unit cli" where
  "cmd_service_rename env cli grp from to node remote =
     (let said = ''Service '' @ quoted from @ '' renamed to '' @ quoted to @ '' in group '' @ quoted grp in
      case remote of
        Some target \<Rightarrow>
          cli_bind (load_or_default env (cli_config cli)) (\<lambda>cfg.
          cli_bind (run_admin_rpc env target (ServiceRename grp (or_own node cfg) from to) cfg (cli_cert_dir cli)) (\<lambda>version.
            println (said @ '' on '' @ target @ '' (version '' @ show_word version @ '')'')))
      | None \<Rightarrow>
          cli_bind (mutate_local env cli (\<lambda>cfg. rename_service (cfg_dynamic_config cfg) grp (or_own node cfg) from to)) (\<lambda>version.
            println (said @ '' (version '' @ show_word version @ '')'')))"

definition cmd_service_remove :: "cli_env \<Rightarrow> Cli \<Rightarrow> string \<Rightarrow> string \<Rightarrow> string option \<Rightarrow> string option \<Rightarrow> unit cli" where
  "cmd_service_remove env cli grp name node remote =
     (let said = ''Service '' @ quoted name @ '' removed from group '' @ quoted grp in
      case remote of
        Some target \<Rightarrow>
          cli_bind (load_or_default env (cli_config cli)) (\<lambda>cfg.
          cli_bind (run_admin_rpc env target (ServiceRemove grp (or_own node cfg) name) cfg (cli_cert_dir cli)) (\<lambda>version.
            println (said @ '' on '' @ target @ '' (version '' @ show_word version @ '')'')))
      | None \<Rightarrow>
          cli_bind (mutate_local env cli (\<lambda>cfg. remove_service (cfg_dynamic_config cfg) grp (or_own node cfg) name)) (\<lambda>version.
            println (said @ '' (version '' @ show_word version @ '')'')))"

definition cmd_set_routes :: "cli_env \<Rightarrow> Cli \<Rightarrow> string \<Rightarrow> Route list \<Rightarrow> string option \<Rightarrow> unit cli" where
  "cmd_set_routes env cli service routes remote =
     cli_bind (case remote of
         Some target \<Rightarrow>
           cli_bind (load_or_default env (cli_config cli)) (\<lambda>cfg.
             run_admin_rpc env target (RoutesSet service routes) cfg (cli_cert_dir cli))
       | None \<Rightarrow> mutate_local env cli (\<lambda>cfg. set_routes (ce_http env) (cfg_dynamic_config cfg) service routes)) (\<lambda>version.
       println (''Set '' @ dec_string (length routes) @ '' route(s) for '' @ quoted service @ '' (version '' @ show_word version @ '')''))"

definition cmd_route :: "cli_env \<Rightarrow> Cli \<Rightarrow> RouteAction \<Rightarrow> unit cli" where
  "cmd_route env cli action =
     (case action of
        RouteSet service routes remote \<Rightarrow>
          (\<lambda>w. cli_bind (cli_lift (parse_routes env w service routes)) (\<lambda>rs. cmd_set_routes env cli service rs remote) w)
      | RouteClear service remote \<Rightarrow> cmd_set_routes env cli service [] remote
      | RouteList remote \<Rightarrow>
          cli_bind (case remote of
              Some target \<Rightarrow> cli_bind (load_or_default env (cli_config cli)) (\<lambda>cfg. fetch_remote_dynamic_config env target cfg (cli_cert_dir cli))
            | None \<Rightarrow> cli_bind (cli_load env (cli_config cli)) (\<lambda>cfg. cli_ret (cfg_dynamic_config cfg))) (\<lambda>dc.
            print_lines (route_lines env dc)))"

section \<open>Moving a service between clusters\<close>

definition attempt_rpc :: "'a cli \<Rightarrow> (cli_err + 'a) cli" where
  "attempt_rpc m w = (case m w of (w', r) \<Rightarrow> (w', Inr r))"

definition find_moved :: "DynamicConfig \<Rightarrow> string \<Rightarrow> string \<Rightarrow> string \<Rightarrow> Service option" where
  "find_moved dc grp name node =
     Option.bind (find (\<lambda>g. sg_name g = grp) (dc_service_groups dc))
       (\<lambda>g. find (\<lambda>s. svc_name s = name \<and> svc_node_id s = node) (sg_services g))"

definition rollback_failed :: "string \<Rightarrow> string" where
  "rollback_failed name = ''rollback failed: service '' @ quoted name @ '' may now exist in both clusters: ''"

definition err_text :: "cli_err \<Rightarrow> string" where
  "err_text e = (case e of Failed msg \<Rightarrow> msg | Exited _ \<Rightarrow> [])"

definition move_rollback ::
  "cli_env \<Rightarrow> Config \<Rightarrow> MoveArgs \<Rightarrow> string option \<Rightarrow> string \<Rightarrow> string \<Rightarrow> unit cli" where
  "move_rollback env cfg a to_certs dest_group dest_node =
     cli_bind (eprintln (''remove from '' @ ma_from a @ '' failed; rolling back add on '' @ ma_to a)) (\<lambda>_.
     cli_bind (attempt_rpc (try_admin_rpc env (ma_to a) (ServiceRemove dest_group dest_node (ma_name a)) cfg to_certs)) (\<lambda>rollback.
       case rollback of
         Inr (AdminOk _) \<Rightarrow> cli_ret ()
       | Inr (AdminErr _ msg) \<Rightarrow> eprintln (rollback_failed (ma_name a) @ msg)
       | Inl e \<Rightarrow> eprintln (rollback_failed (ma_name a) @ err_text e)))"

definition cmd_service_move :: "cli_env \<Rightarrow> Cli \<Rightarrow> MoveArgs \<Rightarrow> unit cli" where
  "cmd_service_move env cli a =
     cli_bind (load_or_default env (cli_config cli)) (\<lambda>cfg.
     let owner_node_id = or_own (ma_node a) cfg;
         dest_group = (case ma_to_group a of Some g \<Rightarrow> g | None \<Rightarrow> ma_group a);
         dest_node = (case ma_to_node a of Some n \<Rightarrow> n | None \<Rightarrow> owner_node_id);
         from_certs = (case ma_from_cert_dir a of Some d \<Rightarrow> Some d | None \<Rightarrow> cli_cert_dir cli);
         to_certs = (case ma_to_cert_dir a of Some d \<Rightarrow> Some d | None \<Rightarrow> cli_cert_dir cli)
     in
     cli_bind (fetch_remote_dynamic_config env (ma_from a) cfg from_certs) (\<lambda>src_dc.
     cli_bind (cli_lift (ok_or (''service '' @ quoted (ma_name a) @ '' on node '' @ quoted owner_node_id @ '' not found in group ''
         @ quoted (ma_group a) @ '' on '' @ ma_from a) (find_moved src_dc (ma_group a) (ma_name a) owner_node_id))) (\<lambda>src_svc.
     cli_bind (try_admin_rpc env (ma_to a) (service_add dest_group (src_svc\<lparr>svc_node_id := dest_node\<rparr>)) cfg to_certs) (\<lambda>added.
     case added of
       AdminErr _ msg \<Rightarrow> cli_stop (Failed (''add to '' @ ma_to a @ '' failed: '' @ msg))
     | AdminOk add_version \<Rightarrow>
         cli_bind (attempt_rpc (try_admin_rpc env (ma_from a) (ServiceRemove (ma_group a) owner_node_id (ma_name a)) cfg from_certs)) (\<lambda>remove_result.
         case remove_result of
           Inr (AdminOk remove_version) \<Rightarrow>
             println (''Moved '' @ quoted (ma_group a @ ''/'' @ ma_name a) @ '' from '' @ ma_from a @ '' (v'' @ show_word remove_version
               @ '') to '' @ ma_to a @ '' (v'' @ show_word add_version @ '')'')
         | Inr (AdminErr _ msg) \<Rightarrow>
             cli_bind (move_rollback env cfg a to_certs dest_group dest_node) (\<lambda>_. cli_stop (Failed (''move failed: '' @ msg)))
         | Inl e \<Rightarrow>
             cli_bind (move_rollback env cfg a to_certs dest_group dest_node) (\<lambda>_. cli_stop (Failed ''move failed'')))))))"

section \<open>Certificates, the daemon, and \<^verbatim>\<open>main\<close>\<close>

definition cmd_cert_issue :: "cli_env \<Rightarrow> Cli \<Rightarrow> string \<Rightarrow> string \<Rightarrow> unit cli" where
  "cmd_cert_issue env cli node out =
     cli_bind (cli_load env (cli_config cli)) (\<lambda>cfg.
     cli_bind (cli_lift (ok_or (''tlsDir is not set in '' @ cli_config cli) (cfg_tls_dir cfg))) (\<lambda>tls_dir.
     cli_bind (\<lambda>w. case issue_cert_to_dir (ce_pki env) (cw_fs w) tls_dir node out of
         (ss, _, r) \<Rightarrow> cli_lift r (w\<lparr>cw_fs := last ss\<rparr>)) (\<lambda>_.
     cli_bind (println (''Certificate for '' @ quoted node @ '' written to '' @ out @ ''/'')) (\<lambda>_.
       println ''Copy ca.crt, node.crt, and node.key to the node's tlsDir.''))))"

text \<open>The daemon's state when it starts; what it does from then on is the other theories' subject.\<close>

definition daemon_start :: "cli_env \<Rightarrow> Cli \<Rightarrow> SharedState cli" where
  "daemon_start env cli =
     cli_bind (cli_load env (cli_config cli)) (\<lambda>cfg.
     cli_bind (cli_lift (ok_or (''tlsDir must be set in '' @ cli_config cli @ ''; mTLS is required'') (cfg_tls_dir cfg))) (\<lambda>tls_dir.
     cli_bind (tls_context env tls_dir (cfg_node_id cfg)) (\<lambda>_.
     cli_bind (cli_lift (case cfg_tracing cfg of Some t \<Rightarrow> tracing_validate (ce_http env) t | None \<Rightarrow> Inr ())) (\<lambda>_ w.
       let p = ce_resolve env (cli_config cli) in
       (w, Inr (new_state cfg True (map_option f_data (cw_fs w p)) (we_open (ce_write env) = None)))))))"

definition wait_zero :: "u64 list \<Rightarrow> bool" where
  "wait_zero counts \<longleftrightarrow> 0 \<in> set counts"

text \<open>Shutting down; \<open>counts\<close> are the in-flight counts seen before the drain times out.\<close>

definition graceful_drain :: "SharedState \<Rightarrow> u64 list \<Rightarrow> SharedState \<times> (string \<times> Message) list \<times> bool" where
  "graceful_drain st counts =
     (let st1 = st\<lparr>ss_shutdown := True\<rparr> in
      (st1, if own_id st1 \<noteq> [] then broadcast_message st1 (NodeLeave (own_id st1)) else [], wait_zero counts))"

definition main :: "cli_env \<Rightarrow> Cli \<Rightarrow> unit cli" where
  "main env cli =
     (case cli_command cli of
        None \<Rightarrow> cli_bind (daemon_start env cli) (\<lambda>_. cli_ret ())
      | Some Init \<Rightarrow> cmd_init env cli
      | Some Check \<Rightarrow> cmd_check env cli
      | Some (Status remote) \<Rightarrow> cmd_status env cli remote
      | Some (ServiceCommand (ServiceAddCmd a)) \<Rightarrow> cmd_service_add env cli a
      | Some (ServiceCommand (ServiceListCmd remote)) \<Rightarrow> cmd_service_list env cli remote
      | Some (ServiceCommand (ServiceRenameCmd grp from to node remote)) \<Rightarrow> cmd_service_rename env cli grp from to node remote
      | Some (ServiceCommand (ServiceRemoveCmd grp name node remote)) \<Rightarrow> cmd_service_remove env cli grp name node remote
      | Some (ServiceCommand (ServiceMoveCmd a)) \<Rightarrow> cmd_service_move env cli a
      | Some (RouteCommand action) \<Rightarrow> cmd_route env cli action
      | Some (CertCommand (CertIssue node out)) \<Rightarrow> cmd_cert_issue env cli node out)"

definition exit_code :: "cli_err + unit \<Rightarrow> nat" where
  "exit_code r = (case r of Inr _ \<Rightarrow> 0 | Inl (Failed _) \<Rightarrow> 1 | Inl (Exited n) \<Rightarrow> n)"

end
