(* ===== verification/Cli_Laws.thy ===== *)
theory Cli_Laws
  imports Cli
begin

text \<open>
  What the commands guarantee: that a change of the configuration is the same operation whether it
  is made in the local file or through a daemon, what a move between clusters leaves on either
  side when requests or replies are lost, and what happens to a file that cannot be read.
\<close>

section \<open>Sequencing\<close>

lemma cli_bind_ok [loop_simps]:
  "cli_bind m k w = (w', Inr y) \<longleftrightarrow> (\<exists>w1 x. m w = (w1, Inr x) \<and> k x w1 = (w', Inr y))"
  by (auto simp: cli_bind_def split: prod.splits sum.splits)

lemma cli_bind_cases:
  assumes "cli_bind m k w = (w', r)"
  obtains e where "m w = (w', Inl e)" "r = Inl e" | w1 x where "m w = (w1, Inr x)" "k x w1 = (w', r)"
  using assms by (auto simp: cli_bind_def split: prod.splits sum.splits)

lemma cli_ret_ok [loop_simps]: "cli_ret x w = (w', r) \<longleftrightarrow> w' = w \<and> r = Inr x"
  by (auto simp: cli_ret_def)

lemma cli_stop_ok [loop_simps]: "cli_stop e w = (w', r) \<longleftrightarrow> w' = w \<and> r = Inl e"
  by (auto simp: cli_stop_def)

lemma cli_bind_step: "m w = (w1, Inr x) \<Longrightarrow> cli_bind m k w = k x w1"
  by (simp add: cli_bind_def)

lemma cli_bind_err: "m w = (w1, Inl e) \<Longrightarrow> cli_bind m k w = (w1, Inl e)"
  by (simp add: cli_bind_def)

section \<open>Frames\<close>

lemma tls_context_frame: "tls_context env dir node w = (w', r) \<Longrightarrow> \<exists>f. w' = w\<lparr>cw_fs := f\<rparr>"
  by (auto simp: tls_context_def cli_bind_def cli_lift_def cli_ret_def cli_stop_def split: prod.splits sum.splits if_splits)

lemma build_cli_tls_frame: "build_cli_tls env cfg cert_dir w = (w', r) \<Longrightarrow> \<exists>f. w' = w\<lparr>cw_fs := f\<rparr>"
proof -
  have id: "\<exists>f. w = w\<lparr>cw_fs := f\<rparr>" by (rule exI [of _ "cw_fs w"]) simp
  assume "build_cli_tls env cfg cert_dir w = (w', r)"
  then show ?thesis using id
    by (auto simp: build_cli_tls_def cli_stop_def dest!: tls_context_frame split: option.splits)
qed

section \<open>One admin request\<close>

text \<open>The daemon in state \<open>st\<close> carried out \<open>op\<close>, reaching \<open>st'\<close> and version \<open>v\<close>.\<close>

definition applied :: "cli_env \<Rightarrow> AdminOp \<Rightarrow> SharedState \<Rightarrow> SharedState \<Rightarrow> u64 \<Rightarrow> bool" where
  "applied env op st st' v \<longleftrightarrow>
     apply_admin_op (ce_http env) (ss_dynamic_config st) op = Inr (ss_dynamic_config st', v) \<and> ss_config st' = ss_config st"

lemma admin_cases:
  assumes "handle_admin_request json lib st cn op = (st', r, msgs)"
  obtains (refused) c m where "st' = st" "r = AdminErr c m" "msgs = []"
  | (accepted) dc v where "admin_allowed st cn" "cfg_mode (ss_config st) \<noteq> Subscribe"
      "apply_admin_op lib (ss_dynamic_config st) op = Inr (dc, v)" "r = AdminOk v"
      "ss_dynamic_config st' = dc" "ss_config st' = ss_config st"
  using assms by (auto simp: handle_admin_request_def Let_def split: if_splits sum.splits prod.splits)

lemma exchange_cases:
  assumes "exchange env t m act w = (w', r)"
  shows "cw_out w' = cw_out w \<and> cw_err w' = cw_err w \<and> cw_fs w' = cw_fs w \<and> set (cw_links w') \<subseteq> set (cw_links w) \<and>
    (cw_daemons w' = cw_daemons w \<and> (\<exists>e. r = Inl e) \<or>
     (\<exists>st cn st' reply msgs. cw_daemons w t = Some st \<and> ce_handshake env t m = Some cn \<and> act st cn = (st', reply, msgs) \<and>
        cw_daemons w' = (cw_daemons w)(t \<mapsto> st') \<and>
        (r = Inr (on_wire reply) \<or> LostReply \<in> set (cw_links w) \<and> (\<exists>e. r = Inl e))))"
  using assms unfolding exchange_def next_link_def cli_bind_def cli_stop_def
  by (auto split: option.splits list.splits if_splits prod.splits)

lemma try_admin_rpc_cases:
  assumes "try_admin_rpc env t op cfg cd w = (w', r)"
  shows "cw_out w' = cw_out w \<and> cw_err w' = cw_err w \<and> set (cw_links w') \<subseteq> set (cw_links w) \<and>
    (cw_daemons w' = cw_daemons w \<and> \<not> (\<exists>v. r = Inr (AdminOk v)) \<or>
     (\<exists>st st' v. cw_daemons w t = Some st \<and> applied env op st st' v \<and> cw_daemons w' = (cw_daemons w)(t \<mapsto> st') \<and>
        (r = Inr (AdminOk v) \<or> LostReply \<in> set (cw_links w) \<and> (\<exists>e. r = Inl e))))"
  using assms unfolding try_admin_rpc_def
proof (rule cli_bind_cases)
  fix e assume "build_cli_tls env cfg cd w = (w', Inl e)" "r = Inl e"
  then show ?thesis by (auto dest!: build_cli_tls_frame)
next
  fix w1 m
  assume tls: "build_cli_tls env cfg cd w = (w1, Inr m)"
    and run: "cli_bind (exchange env t m (admin_act env op))
      (\<lambda>reply. case reply of AdminResponse r \<Rightarrow> cli_ret r | _ \<Rightarrow> cli_stop (Failed ''unexpected response from daemon'')) w1 = (w', r)"
  obtain w2 q where x: "exchange env t m (admin_act env op) w1 = (w2, q)" by fastforce
  have w1: "cw_out w1 = cw_out w" "cw_err w1 = cw_err w" "cw_links w1 = cw_links w" "cw_daemons w1 = cw_daemons w"
    using build_cli_tls_frame [OF tls] by auto
  have w': "w' = w2 \<and> (case q of Inl e \<Rightarrow> r = Inl e | Inr reply \<Rightarrow> (\<forall>a. reply = AdminResponse a \<longrightarrow> r = Inr a))"
    using run x by (auto simp: cli_bind_def cli_ret_def cli_stop_def split: sum.splits prod.splits Message.splits)
  have fr: "cw_out w2 = cw_out w \<and> cw_err w2 = cw_err w \<and> set (cw_links w2) \<subseteq> set (cw_links w)"
    using exchange_cases [OF x] w1 by auto
  show ?thesis
  proof (cases "\<exists>st cn st' a msgs. cw_daemons w1 t = Some st \<and> handle_admin_request (ce_json env) (ce_http env) st cn op = (st', a, msgs) \<and>
      cw_daemons w2 = (cw_daemons w1)(t \<mapsto> st') \<and> (q = Inr (AdminResponse a) \<or> LostReply \<in> set (cw_links w1) \<and> (\<exists>e. q = Inl e))")
    case True
    then obtain st cn st' a msgs where d: "cw_daemons w1 t = Some st" "cw_daemons w2 = (cw_daemons w1)(t \<mapsto> st')"
      "q = Inr (AdminResponse a) \<or> LostReply \<in> set (cw_links w1) \<and> (\<exists>e. q = Inl e)"
      and h: "handle_admin_request (ce_json env) (ce_http env) st cn op = (st', a, msgs)" by blast
    from h show ?thesis
    proof (cases rule: admin_cases)
      case refused
      then have "cw_daemons w2 = cw_daemons w1" using d by (simp add: fun_upd_idem)
      moreover have "\<not> (\<exists>v. r = Inr (AdminOk v))" using refused d w' by auto
      ultimately show ?thesis using w' w1 fr by simp
    next
      case (accepted dc v)
      then have "applied env op st st' v" by (simp add: applied_def)
      moreover have "r = Inr (AdminOk v) \<or> LostReply \<in> set (cw_links w) \<and> (\<exists>e. r = Inl e)" using accepted d w' w1 by auto
      moreover have "cw_daemons w t = Some st" "cw_daemons w' = (cw_daemons w)(t \<mapsto> st')" using d w' w1 by simp_all
      ultimately show ?thesis using w' fr by blast
    qed
  next
    case False
    then have "cw_daemons w2 = cw_daemons w1 \<and> (\<exists>e. q = Inl e)"
      using exchange_cases [OF x] by (fastforce simp: admin_act_def on_wire_def split: prod.splits)
    with w' w1 fr show ?thesis by auto
  qed
qed

section \<open>Moving a service\<close>

text \<open>The services that the daemon at an address holds.\<close>

definition catalog :: "cli_world \<Rightarrow> string \<Rightarrow> string \<Rightarrow> string \<times> string \<Rightarrow> Service option" where
  "catalog w t = (case cw_daemons w t of Some st \<Rightarrow> dc_lookup (ss_dynamic_config st) | None \<Rightarrow> (\<lambda>_ _. None))"

definition loaded :: "cli_env \<Rightarrow> Cli \<Rightarrow> cli_world \<Rightarrow> Config" where
  "loaded env cli w = (case load_file env w (cli_config cli) of Inr cfg \<Rightarrow> cfg | Inl _ \<Rightarrow> default_config)"

definition move_owner :: "cli_env \<Rightarrow> Cli \<Rightarrow> cli_world \<Rightarrow> MoveArgs \<Rightarrow> string" where
  "move_owner env cli w a = or_own (ma_node a) (loaded env cli w)"

definition move_dest_group :: "MoveArgs \<Rightarrow> string" where
  "move_dest_group a = (case ma_to_group a of Some g \<Rightarrow> g | None \<Rightarrow> ma_group a)"

definition move_dest_node :: "cli_env \<Rightarrow> Cli \<Rightarrow> cli_world \<Rightarrow> MoveArgs \<Rightarrow> string" where
  "move_dest_node env cli w a = (case ma_to_node a of Some n \<Rightarrow> n | None \<Rightarrow> move_owner env cli w a)"

text \<open>A catalogue without an entry, and with one more.\<close>

definition without_entry :: "(string \<Rightarrow> string \<times> string \<Rightarrow> Service option) \<Rightarrow> string \<Rightarrow> string \<times> string \<Rightarrow> (string \<Rightarrow> string \<times> string \<Rightarrow> Service option)" where
  "without_entry c g k = c(g := (c g)(k := None))"

definition with_entry :: "(string \<Rightarrow> string \<times> string \<Rightarrow> Service option) \<Rightarrow> string \<Rightarrow> Service \<Rightarrow> (string \<Rightarrow> string \<times> string \<Rightarrow> Service option)" where
  "with_entry c g s = c(g := (c g)(svc_key s \<mapsto> s))"

lemma without_plus: "svc_key s = k \<Longrightarrow> without_entry (with_entry c g s) g k = without_entry c g k"
  by (simp add: without_entry_def with_entry_def)

lemma without_absent: "c g k = None \<Longrightarrow> without_entry c g k = c"
  by (auto simp: without_entry_def fun_upd_idem)

lemma load_or_default_run: "load_or_default env (cli_config cli) w = (w, Inr (loaded env cli w))"
  by (simp add: load_or_default_def loaded_def cli_ret_def)

lemma find_moved_lookup: "find_moved dc grp name node = dc_lookup dc grp (name, node)"
  by (simp add: find_moved_def dc_lookup_def same_instance_def [abs_def])

lemma applied_remove:
  assumes "applied env (ServiceRemove grp node name) st st' v"
  shows "dc_lookup (ss_dynamic_config st') = without_entry (dc_lookup (ss_dynamic_config st)) grp (name, node) \<and>
    dc_lookup (ss_dynamic_config st) grp (name, node) \<noteq> None"
  using assms remove_service_spec [of "ss_dynamic_config st" grp name node]
  by (auto simp: applied_def apply_admin_op_def without_entry_def)

lemma applied_add:
  assumes "applied env (service_add grp s) st st' v"
  shows "dc_lookup (ss_dynamic_config st') = with_entry (dc_lookup (ss_dynamic_config st)) grp s"
proof -
  have "service_of_add (service_add grp s) = s" by (simp add: service_of_add_def service_add_def)
  then have "ss_dynamic_config st' = dc_put (ss_dynamic_config st) grp s"
    using assms by (auto simp: applied_def apply_admin_op_def dc_put_def service_add_def split: option.splits sum.splits if_splits)
  then show ?thesis by (intro ext) (simp add: dcat.lookup_put with_entry_def)
qed

lemma fetch_cases:
  assumes "fetch_remote_dynamic_config env t cfg cd w = (w', r)"
  shows "cw_err w' = cw_err w \<and> set (cw_links w') \<subseteq> set (cw_links w) \<and> cw_daemons w' = cw_daemons w \<and>
    (case r of Inl e \<Rightarrow> True | Inr dc \<Rightarrow> (\<exists>st. cw_daemons w t = Some st \<and> dc = ss_dynamic_config st))"
  using assms unfolding fetch_remote_dynamic_config_def
proof (rule cli_bind_cases)
  fix e assume "build_cli_tls env cfg cd w = (w', Inl e)" "r = Inl e"
  then show ?thesis by (auto dest!: build_cli_tls_frame)
next
  fix w1 m
  assume tls: "build_cli_tls env cfg cd w = (w1, Inr m)"
    and run: "cli_bind (exchange env t m status_act)
      (\<lambda>reply. case reply of StatusResponse _ _ _ dynamic_config _ \<Rightarrow> cli_ret dynamic_config
         | _ \<Rightarrow> cli_stop (Failed (''unexpected response from '' @ t))) w1 = (w', r)"
  obtain w2 q where x: "exchange env t m status_act w1 = (w2, q)" by fastforce
  have w1: "cw_err w1 = cw_err w" "cw_links w1 = cw_links w" "cw_daemons w1 = cw_daemons w"
    using build_cli_tls_frame [OF tls] by auto
  have w': "w' = w2 \<and> (case q of Inl e \<Rightarrow> r = Inl e
      | Inr reply \<Rightarrow> (case reply of StatusResponse _ _ _ dc _ \<Rightarrow> r = Inr dc | _ \<Rightarrow> \<exists>e. r = Inl e))"
    using run x by (auto simp: cli_bind_def cli_ret_def cli_stop_def split: sum.splits prod.splits Message.splits)
  show ?thesis
    using exchange_cases [OF x] w' w1
    by (auto simp: status_act_def handle_status_request_def on_wire_def fun_upd_idem split: sum.splits)
qed

lemma move_rollback_cases:
  assumes "move_rollback env cfg a certs g n w = (w', r)" "LostReply \<notin> set (cw_links w)"
  shows "r = Inr () \<and>
    (cw_daemons w' = cw_daemons w \<and> (\<exists>msg. rollback_failed (ma_name a) @ msg \<in> set (cw_err w')) \<or>
     (\<exists>st st' v. cw_daemons w (ma_to a) = Some st \<and> applied env (ServiceRemove g n (ma_name a)) st st' v \<and>
        cw_daemons w' = (cw_daemons w)(ma_to a \<mapsto> st')))"
proof -
  define w1 where "w1 = w\<lparr>cw_err := cw_err w @ [''remove from '' @ ma_from a @ '' failed; rolling back add on '' @ ma_to a]\<rparr>"
  have fr: "cw_daemons w1 = cw_daemons w" "cw_links w1 = cw_links w" by (simp_all add: w1_def)
  obtain w2 q where t: "try_admin_rpc env (ma_to a) (ServiceRemove g n (ma_name a)) cfg certs w1 = (w2, q)" by fastforce
  have w': "(w', r) = (case q of
        Inr (AdminOk _) \<Rightarrow> cli_ret ()
      | Inr (AdminErr _ msg) \<Rightarrow> eprintln (rollback_failed (ma_name a) @ msg)
      | Inl e \<Rightarrow> eprintln (rollback_failed (ma_name a) @ err_text e)) w2"
    using assms(1) t by (simp add: move_rollback_def cli_bind_def eprintln_def attempt_rpc_def w1_def)
  note rpc = try_admin_rpc_cases [OF t, unfolded fr]
  show ?thesis
  proof (cases "\<exists>v. q = Inr (AdminOk v)")
    case True
    then have "w' = w2 \<and> r = Inr ()" using w' by (auto simp: cli_ret_def)
    with rpc True show ?thesis by blast
  next
    case False
    then have "\<exists>msg. (w', r) = eprintln (rollback_failed (ma_name a) @ msg) w2"
      using w' by (auto split: sum.splits AdminResult.splits)
    moreover have "cw_daemons w2 = cw_daemons w" using False rpc assms(2) by auto
    ultimately show ?thesis by (auto simp: eprintln_def)
  qed
qed

text \<open>The steps of a move after the source's configuration has been read.\<close>

definition move_from :: "cli_env \<Rightarrow> Cli \<Rightarrow> MoveArgs \<Rightarrow> Config \<Rightarrow> string \<Rightarrow> string \<Rightarrow> string \<Rightarrow> Service \<Rightarrow> unit cli" where
  "move_from env cli a cfg owner g n s =
     (let from_certs = (case ma_from_cert_dir a of Some d \<Rightarrow> Some d | None \<Rightarrow> cli_cert_dir cli);
          to_certs = (case ma_to_cert_dir a of Some d \<Rightarrow> Some d | None \<Rightarrow> cli_cert_dir cli)
      in
      cli_bind (try_admin_rpc env (ma_to a) (service_add g (s\<lparr>svc_node_id := n\<rparr>)) cfg to_certs) (\<lambda>added.
      case added of
        AdminErr _ msg \<Rightarrow> cli_stop (Failed (''add to '' @ ma_to a @ '' failed: '' @ msg))
      | AdminOk add_version \<Rightarrow>
          cli_bind (attempt_rpc (try_admin_rpc env (ma_from a) (ServiceRemove (ma_group a) owner (ma_name a)) cfg from_certs)) (\<lambda>remove_result.
          case remove_result of
            Inr (AdminOk remove_version) \<Rightarrow>
              println (''Moved '' @ quoted (ma_group a @ ''/'' @ ma_name a) @ '' from '' @ ma_from a @ '' (v'' @ show_word remove_version
                @ '') to '' @ ma_to a @ '' (v'' @ show_word add_version @ '')'')
          | Inr (AdminErr _ msg) \<Rightarrow>
              cli_bind (move_rollback env cfg a to_certs g n) (\<lambda>_. cli_stop (Failed (''move failed: '' @ msg)))
          | Inl e \<Rightarrow>
              cli_bind (move_rollback env cfg a to_certs g n) (\<lambda>_. cli_stop (Failed ''move failed'')))))"

lemma cmd_service_move_unfold:
  "cmd_service_move env cli a w =
     (let cfg = loaded env cli w; owner = move_owner env cli w a in
      cli_bind (fetch_remote_dynamic_config env (ma_from a) cfg (case ma_from_cert_dir a of Some d \<Rightarrow> Some d | None \<Rightarrow> cli_cert_dir cli)) (\<lambda>src_dc.
      cli_bind (cli_lift (ok_or (''service '' @ quoted (ma_name a) @ '' on node '' @ quoted owner @ '' not found in group ''
         @ quoted (ma_group a) @ '' on '' @ ma_from a) (dc_lookup src_dc (ma_group a) (ma_name a, owner))))
        (move_from env cli a cfg owner (move_dest_group a) (move_dest_node env cli w a))) w)"
  unfolding cmd_service_move_def cli_bind_step [OF load_or_default_run] Let_def move_from_def [abs_def] find_moved_lookup
    move_owner_def move_dest_group_def move_dest_node_def ..

lemma catalog_cong: "cw_daemons w' = cw_daemons w \<Longrightarrow> catalog w' = catalog w"
  by (simp add: catalog_def fun_eq_iff)

lemma catalog_upd:
  "cw_daemons w' = (cw_daemons w)(t \<mapsto> st) \<Longrightarrow> catalog w' t' = (if t' = t then dc_lookup (ss_dynamic_config st) else catalog w t')"
  by (simp add: catalog_def)

lemma rpc_catalog:
  assumes "try_admin_rpc env t op cfg cd w = (w', r)" "LostReply \<notin> set (cw_links w)"
  shows "LostReply \<notin> set (cw_links w') \<and> (\<forall>t'. t' \<noteq> t \<longrightarrow> catalog w' t' = catalog w t') \<and>
    (case r of
       Inr (AdminOk v) \<Rightarrow> (\<exists>st st'. applied env op st st' v \<and> catalog w t = dc_lookup (ss_dynamic_config st) \<and>
         catalog w' t = dc_lookup (ss_dynamic_config st'))
     | _ \<Rightarrow> catalog w' = catalog w)"
  using try_admin_rpc_cases [OF assms(1)] assms(2)
  by (auto simp: catalog_upd catalog_def split: sum.splits AdminResult.splits intro!: catalog_cong) blast+

lemma rollback_catalog:
  assumes "move_rollback env cfg a certs g n w = (w', r)" "LostReply \<notin> set (cw_links w)"
  shows "r = Inr () \<and> (\<forall>t. t \<noteq> ma_to a \<longrightarrow> catalog w' t = catalog w t) \<and>
    (catalog w' = catalog w \<and> (\<exists>msg. rollback_failed (ma_name a) @ msg \<in> set (cw_err w')) \<or>
     catalog w' (ma_to a) = without_entry (catalog w (ma_to a)) g (ma_name a, n))"
proof -
  consider "r = Inr ()" "catalog w' = catalog w" "\<exists>msg. rollback_failed (ma_name a) @ msg \<in> set (cw_err w')"
    | st st' v where "r = Inr ()" "cw_daemons w (ma_to a) = Some st" "applied env (ServiceRemove g n (ma_name a)) st st' v"
        "cw_daemons w' = (cw_daemons w)(ma_to a \<mapsto> st')"
    using move_rollback_cases [OF assms] catalog_cong [of w' w] by blast
  then show ?thesis
  proof cases
    case 2
    then have "catalog w' (ma_to a) = without_entry (catalog w (ma_to a)) g (ma_name a, n)"
      using applied_remove by (simp add: catalog_def)
    with 2 show ?thesis by (simp add: catalog_upd)
  qed simp
qed

lemma move_from_outcome:
  assumes run: "move_from env cli a cfg owner g n s w = (w', r)" and "ma_from a \<noteq> ma_to a" and links: "LostReply \<notin> set (cw_links w)"
    and src: "catalog w (ma_from a) (ma_group a) (ma_name a, owner) = Some s" and name: "svc_name s = ma_name a"
    and free: "catalog w (ma_to a) g (ma_name a, n) = None"
  shows "case r of
     Inr _ \<Rightarrow> catalog w' (ma_from a) = without_entry (catalog w (ma_from a)) (ma_group a) (ma_name a, owner) \<and>
       catalog w' (ma_to a) = with_entry (catalog w (ma_to a)) g (s\<lparr>svc_node_id := n\<rparr>)
   | Inl _ \<Rightarrow> catalog w' (ma_from a) = catalog w (ma_from a) \<and>
       (catalog w' (ma_to a) = catalog w (ma_to a) \<or>
        catalog w' (ma_to a) = with_entry (catalog w (ma_to a)) g (s\<lparr>svc_node_id := n\<rparr>) \<and>
        (\<exists>msg. rollback_failed (ma_name a) @ msg \<in> set (cw_err w')))"
proof -
  let ?s = "s\<lparr>svc_node_id := n\<rparr>"
  let ?fc = "case ma_from_cert_dir a of Some d \<Rightarrow> Some d | None \<Rightarrow> cli_cert_dir cli"
  let ?tc = "case ma_to_cert_dir a of Some d \<Rightarrow> Some d | None \<Rightarrow> cli_cert_dir cli"
  note steps = move_from_def Let_def cli_bind_def cli_stop_def attempt_rpc_def println_def
  obtain w1 ra where add: "try_admin_rpc env (ma_to a) (service_add g ?s) cfg ?tc w = (w1, ra)" by fastforce
  note w1 = rpc_catalog [OF add links]
  show ?thesis
  proof (cases "\<exists>v. ra = Inr (AdminOk v)")
    case False
    then have "w' = w1 \<and> (\<exists>e. r = Inl e)" "catalog w1 = catalog w"
      using run add w1 by (auto simp: steps split: sum.splits AdminResult.splits)
    then show ?thesis by auto
  next
    case True
    then obtain v where ra: "ra = Inr (AdminOk v)" by blast
    obtain w2 q where rem: "try_admin_rpc env (ma_from a) (ServiceRemove (ma_group a) owner (ma_name a)) cfg ?fc w1 = (w2, q)" by fastforce
    have to1: "catalog w1 (ma_to a) = with_entry (catalog w (ma_to a)) g ?s" using w1 ra applied_add by auto
    have from1: "catalog w1 (ma_from a) = catalog w (ma_from a)" and links1: "LostReply \<notin> set (cw_links w1)"
      using w1 assms(2) by auto
    note w2 = rpc_catalog [OF rem links1]
    show ?thesis
    proof (cases "\<exists>v. q = Inr (AdminOk v)")
      case True
      then obtain v' where q: "q = Inr (AdminOk v')" by blast
      then have "catalog w' = catalog w2" "r = Inr ()"
        using run add ra rem by (auto simp: steps intro: catalog_cong)
      moreover have "catalog w2 (ma_from a) = without_entry (catalog w1 (ma_from a)) (ma_group a) (ma_name a, owner)"
        using w2 q applied_remove by auto
      ultimately show ?thesis using w2 to1 from1 assms(2) by simp
    next
      case False
      then have same: "catalog w2 = catalog w1" using w2 by (auto split: sum.splits AdminResult.splits)
      obtain w3 x where rb: "move_rollback env cfg a ?tc g n w2 = (w3, x)" by fastforce
      have "LostReply \<notin> set (cw_links w2)" using w2 by blast
      note w3 = rollback_catalog [OF rb this]
      have "w' = w3 \<and> (\<exists>e. r = Inl e)"
        using run add ra rem rb w3 False by (auto simp: steps split: sum.splits AdminResult.splits)
      moreover have "without_entry (catalog w1 (ma_to a)) g (ma_name a, n) = catalog w (ma_to a)"
        using free name by (simp add: to1 without_plus without_absent svc_key_def)
      ultimately show ?thesis using w3 same to1 from1 assms(2) by auto
    qed
  qed
qed

text \<open>
  C10. Moving a service between clusters is safe when only requests get lost. If no service stood
  in its place at the destination, a successful move leaves the service, with all its settings, at
  the destination under its new node, gone from the source, and every other service where it was.
  A failed move leaves the source as it was, and the destination too, unless the rollback failed as
  well, in which case the copy stays and the user is told.
\<close>

theorem service_move_outcome:
  assumes "main env cli w = (w', r)" "cli_command cli = Some (ServiceCommand (ServiceMoveCmd a))"
    and "ma_from a \<noteq> ma_to a" "LostReply \<notin> set (cw_links w)"
    and "catalog w (ma_to a) (move_dest_group a) (ma_name a, move_dest_node env cli w a) = None"
  shows "case r of
     Inr _ \<Rightarrow> (\<exists>s. catalog w (ma_from a) (ma_group a) (ma_name a, move_owner env cli w a) = Some s \<and>
       catalog w' (ma_from a) = without_entry (catalog w (ma_from a)) (ma_group a) (ma_name a, move_owner env cli w a) \<and>
       catalog w' (ma_to a) = with_entry (catalog w (ma_to a)) (move_dest_group a) (s\<lparr>svc_node_id := move_dest_node env cli w a\<rparr>))
   | Inl _ \<Rightarrow> catalog w' (ma_from a) = catalog w (ma_from a) \<and>
       (catalog w' (ma_to a) = catalog w (ma_to a) \<or>
        (\<exists>s. catalog w (ma_from a) (ma_group a) (ma_name a, move_owner env cli w a) = Some s \<and>
          catalog w' (ma_to a) = with_entry (catalog w (ma_to a)) (move_dest_group a) (s\<lparr>svc_node_id := move_dest_node env cli w a\<rparr>)) \<and>
        (\<exists>msg. rollback_failed (ma_name a) @ msg \<in> set (cw_err w')))"
proof -
  let ?cfg = "loaded env cli w" and ?owner = "move_owner env cli w a"
  obtain w1 q where f: "fetch_remote_dynamic_config env (ma_from a) ?cfg
      (case ma_from_cert_dir a of Some d \<Rightarrow> Some d | None \<Rightarrow> cli_cert_dir cli) w = (w1, q)" by fastforce
  note fetched = fetch_cases [OF f]
  have same: "catalog w1 = catalog w" using fetched by (intro catalog_cong) simp
  have run: "cmd_service_move env cli a w = (w', r)" using assms(1,2) by (simp add: main_def)
  show ?thesis
  proof (cases "\<exists>dc s. q = Inr dc \<and> dc_lookup dc (ma_group a) (ma_name a, ?owner) = Some s")
    case False
    then have "w' = w1 \<and> (\<exists>e. r = Inl e)"
      using run f by (auto simp: cmd_service_move_unfold Let_def cli_bind_def cli_lift_def ok_or_def map_err_def
          split: sum.splits option.splits)
    then show ?thesis using same by auto
  next
    case True
    then obtain dc s where q: "q = Inr dc" and s: "dc_lookup dc (ma_group a) (ma_name a, ?owner) = Some s" by blast
    have "move_from env cli a ?cfg ?owner (move_dest_group a) (move_dest_node env cli w a) s w1 = (w', r)"
      using run f q s by (simp add: cmd_service_move_unfold Let_def cli_bind_def cli_lift_def ok_or_def map_err_def)
    moreover have src: "catalog w (ma_from a) (ma_group a) (ma_name a, ?owner) = Some s"
      using fetched q s by (auto simp: catalog_def)
    moreover have "svc_name s = ma_name a"
      using s by (auto simp: dc_lookup_def same_instance_def split: bind_splits dest!: find_set)
    ultimately have out: "case r of
       Inr _ \<Rightarrow> catalog w' (ma_from a) = without_entry (catalog w (ma_from a)) (ma_group a) (ma_name a, ?owner) \<and>
         catalog w' (ma_to a) = with_entry (catalog w (ma_to a)) (move_dest_group a) (s\<lparr>svc_node_id := move_dest_node env cli w a\<rparr>)
     | Inl _ \<Rightarrow> catalog w' (ma_from a) = catalog w (ma_from a) \<and>
         (catalog w' (ma_to a) = catalog w (ma_to a) \<or>
          catalog w' (ma_to a) = with_entry (catalog w (ma_to a)) (move_dest_group a) (s\<lparr>svc_node_id := move_dest_node env cli w a\<rparr>) \<and>
          (\<exists>msg. rollback_failed (ma_name a) @ msg \<in> set (cw_err w')))"
      using move_from_outcome [of env cli a ?cfg ?owner _ _ s w1 w' r, unfolded same] assms(3-5) fetched by blast
    then show ?thesis using src by (cases r) simp_all
  qed
qed

section \<open>A move whose removal fails\<close>

definition next_fault :: "cli_world \<Rightarrow> link_fault" where
  "next_fault w = (case cw_links w of [] \<Rightarrow> NoFault | f # _ \<Rightarrow> f)"

text \<open>The daemon at \<open>t\<close> can be reached with the certificates of \<open>cd\<close>, which are in place, and takes requests from them.\<close>

definition admits :: "cli_env \<Rightarrow> Config \<Rightarrow> string option \<Rightarrow> string \<Rightarrow> cli_world \<Rightarrow> bool" where
  "admits env cfg cd t w \<longleftrightarrow>
     (\<exists>m st cn. build_cli_tls env cfg cd w = (w, Inr m) \<and> cw_daemons w t = Some st \<and> ce_handshake env t m = Some cn \<and>
        admin_allowed st cn \<and> cfg_mode (ss_config st) \<noteq> Subscribe)"

lemma world_same_fs: "w\<lparr>cw_fs := f\<rparr> = w \<longleftrightarrow> cw_fs w = f"
  by (cases w) auto

lemma tls_context_eq:
  "tls_context env dir node w = (case load_or_create (ce_pki env) (cw_fs w) dir node of (ss, ws, q) \<Rightarrow>
     (w\<lparr>cw_fs := last ss\<rparr>, case q of Inl e \<Rightarrow> Inl (Failed e)
       | Inr m \<Rightarrow> (case tls_context_new (ce_tls env) m of Inl e \<Rightarrow> Inl (Failed e) | Inr _ \<Rightarrow> Inr m)))"
  by (simp add: tls_context_def cli_bind_def cli_lift_def cli_ret_def cli_stop_def map_err_def split: prod.split sum.split)

lemma tls_context_same_fs:
  assumes "tls_context env dir node w = (w, Inr m)" "cw_fs w2 = cw_fs w"
  shows "tls_context env dir node w2 = (w2, Inr m)"
proof -
  obtain ss ws q where l: "load_or_create (ce_pki env) (cw_fs w) dir node = (ss, ws, q)" by (cases "load_or_create (ce_pki env) (cw_fs w) dir node")
  then have "cw_fs w = last ss" using assms(1) by (simp add: tls_context_eq world_same_fs)
  with l assms show ?thesis by (simp add: tls_context_eq world_same_fs)
qed

lemma build_cli_tls_same_fs:
  "build_cli_tls env cfg cd w = (w, Inr m) \<Longrightarrow> cw_fs w2 = cw_fs w \<Longrightarrow> build_cli_tls env cfg cd w2 = (w2, Inr m)"
  by (auto simp: build_cli_tls_def cli_stop_def intro: tls_context_same_fs split: option.splits)

lemma admits_cong:
  assumes "admits env cfg cd t w" "cw_fs w2 = cw_fs w"
    and "map_option ss_config (cw_daemons w2 t) = map_option ss_config (cw_daemons w t)"
  shows "admits env cfg cd t w2"
proof -
  obtain m st cn where parts: "build_cli_tls env cfg cd w = (w, Inr m)" "cw_daemons w t = Some st" "ce_handshake env t m = Some cn"
    "admin_allowed st cn" "cfg_mode (ss_config st) \<noteq> Subscribe" using assms(1) by (auto simp: admits_def)
  moreover obtain st2 where "cw_daemons w2 t = Some st2" "ss_config st2 = ss_config st" using assms(3) parts(2) by auto
  moreover from this have "admin_allowed st2 cn" using parts(4) by (auto simp: admin_allowed_def split: option.splits)
  ultimately show ?thesis using build_cli_tls_same_fs [OF parts(1) assms(2)] unfolding admits_def by metis
qed

lemma rpc_run:
  assumes "admits env cfg cd t w" "\<And>st. cw_daemons w t = Some st \<Longrightarrow> apply_admin_op (ce_http env) (ss_dynamic_config st) op = Inr (dc, v)"
  shows "\<exists>w' st'. try_admin_rpc env t op cfg cd w =
      (w', if next_fault w = NoFault then Inr (AdminOk v) else Inl (Failed ''read length prefix'')) \<and>
    cw_fs w' = cw_fs w \<and> cw_links w' = tl (cw_links w) \<and> ss_dynamic_config st' = dc \<and>
    map_option ss_config (cw_daemons w t) = Some (ss_config st') \<and>
    cw_daemons w' = (if next_fault w = LostRequest then cw_daemons w else (cw_daemons w)(t \<mapsto> st'))"
proof -
  obtain m st cn where parts: "build_cli_tls env cfg cd w = (w, Inr m)" "cw_daemons w t = Some st" "ce_handshake env t m = Some cn"
    "admin_allowed st cn" "cfg_mode (ss_config st) \<noteq> Subscribe" using assms(1) by (auto simp: admits_def)
  obtain st' msgs where h: "handle_admin_request (ce_json env) (ce_http env) st cn op = (st', AdminOk v, msgs)"
    and st': "ss_dynamic_config st' = dc" "ss_config st' = ss_config st"
    using parts assms(2) by (auto simp: handle_admin_request_def Let_def)
  have "exchange env t m (admin_act env op) w =
      (if next_fault w = LostRequest then (w\<lparr>cw_links := tl (cw_links w)\<rparr>, Inl (Failed ''read length prefix''))
       else (w\<lparr>cw_links := tl (cw_links w), cw_daemons := (cw_daemons w)(t \<mapsto> st'), cw_sent := cw_sent w @ msgs\<rparr>,
             if next_fault w = LostReply then Inl (Failed ''read length prefix'') else Inr (AdminResponse (AdminOk v))))"
    using parts h by (simp add: exchange_def cli_bind_def next_link_def next_fault_def admin_act_def cli_stop_def on_wire_def split: list.split)
  then show ?thesis using parts st'
    by (cases "next_fault w") (auto simp: try_admin_rpc_def cli_bind_def cli_ret_def)
qed

text \<open>Everything a move needs is in place: both daemons take requests, the service is there, and it can be added.\<close>

definition move_ready :: "cli_env \<Rightarrow> Cli \<Rightarrow> MoveArgs \<Rightarrow> cli_world \<Rightarrow> Service \<Rightarrow> bool" where
  "move_ready env cli a w s \<longleftrightarrow>
     (let cfg = loaded env cli w;
          from_certs = (case ma_from_cert_dir a of Some d \<Rightarrow> Some d | None \<Rightarrow> cli_cert_dir cli);
          to_certs = (case ma_to_cert_dir a of Some d \<Rightarrow> Some d | None \<Rightarrow> cli_cert_dir cli)
      in ma_from a \<noteq> ma_to a \<and> admits env cfg from_certs (ma_from a) w \<and> admits env cfg to_certs (ma_to a) w \<and>
         catalog w (ma_from a) (ma_group a) (ma_name a, move_owner env cli w a) = Some s \<and>
         (case svc_health_path s of Some p \<Rightarrow> validate_health_path p = Inr () | None \<Rightarrow> True))"

lemma fetch_run:
  assumes "admits env cfg cd t w" "next_fault w = NoFault"
  shows "\<exists>w' st. fetch_remote_dynamic_config env t cfg cd w = (w', Inr (ss_dynamic_config st)) \<and> cw_daemons w t = Some st \<and>
    cw_fs w' = cw_fs w \<and> cw_links w' = tl (cw_links w) \<and> cw_daemons w' = cw_daemons w"
proof -
  obtain m st cn where parts: "build_cli_tls env cfg cd w = (w, Inr m)" "cw_daemons w t = Some st" "ce_handshake env t m = Some cn"
    using assms(1) by (auto simp: admits_def)
  then have "exchange env t m status_act w = (w\<lparr>cw_links := tl (cw_links w), cw_daemons := (cw_daemons w)(t \<mapsto> st), cw_sent := cw_sent w\<rparr>,
      Inr (on_wire (handle_status_request st)))"
    using assms(2) by (simp add: exchange_def cli_bind_def next_link_def next_fault_def status_act_def split: list.splits)
  then show ?thesis using parts
    by (auto simp: fetch_remote_dynamic_config_def cli_bind_def cli_ret_def handle_status_request_def on_wire_def fun_upd_idem)
qed

lemma add_applies:
  assumes "case svc_health_path s of Some p \<Rightarrow> validate_health_path p = Inr () | None \<Rightarrow> True"
  shows "apply_admin_op lib dc (service_add g s) = Inr (upsert_service dc g s)"
proof -
  have "service_of_add (service_add g s) = s" by (simp add: service_of_add_def service_add_def)
  then show ?thesis using assms by (auto simp: apply_admin_op_def service_add_def split: option.splits)
qed

lemma add_result: "apply_admin_op lib dc (service_add g s) = Inr r \<Longrightarrow> upsert_service dc g s = r"
proof -
  have "service_of_add (service_add g s) = s" by (simp add: service_of_add_def service_add_def)
  moreover assume "apply_admin_op lib dc (service_add g s) = Inr r"
  ultimately show ?thesis by (auto simp: apply_admin_op_def service_add_def split: option.splits sum.splits)
qed

lemma remove_applies:
  assumes "dc_lookup dc g (name, node) \<noteq> None"
  shows "\<exists>dc' v. apply_admin_op lib dc (ServiceRemove g node name) = Inr (dc', v) \<and> dc_lookup dc' = without_entry (dc_lookup dc) g (name, node)"
  using assms remove_service_spec [of dc g name node]
  by (auto simp: apply_admin_op_def without_entry_def split: sum.splits)

lemma rollback_run:
  assumes "admits env cfg cd (ma_to a) w" "cw_daemons w (ma_to a) = Some st" "next_fault w = NoFault"
    and "dc_lookup (ss_dynamic_config st) g (ma_name a, n) \<noteq> None"
  shows "\<exists>w'. move_rollback env cfg a cd g n w = (w', Inr ()) \<and>
    catalog w' = (catalog w)(ma_to a := without_entry (catalog w (ma_to a)) g (ma_name a, n))"
proof -
  define w1 where "w1 = w\<lparr>cw_err := cw_err w @ [''remove from '' @ ma_from a @ '' failed; rolling back add on '' @ ma_to a]\<rparr>"
  have w1: "cw_daemons w1 = cw_daemons w" "cw_fs w1 = cw_fs w" "next_fault w1 = NoFault"
    using assms(3) by (simp_all add: w1_def next_fault_def)
  obtain dc' v where op: "apply_admin_op (ce_http env) (ss_dynamic_config st) (ServiceRemove g n (ma_name a)) = Inr (dc', v)"
    and dc': "dc_lookup dc' = without_entry (dc_lookup (ss_dynamic_config st)) g (ma_name a, n)"
    using remove_applies [OF assms(4)] by blast
  have "admits env cfg cd (ma_to a) w1" using assms(1) w1 by (auto intro: admits_cong)
  then obtain w2 st2 where t: "try_admin_rpc env (ma_to a) (ServiceRemove g n (ma_name a)) cfg cd w1 = (w2, Inr (AdminOk v))"
    and d: "cw_daemons w2 = (cw_daemons w)(ma_to a \<mapsto> st2)" "ss_dynamic_config st2 = dc'"
    using rpc_run [of env cfg cd "ma_to a" w1 "ServiceRemove g n (ma_name a)" dc' v] assms(2) op w1 by auto
  have "move_rollback env cfg a cd g n w = (w2, Inr ())"
    using t by (simp add: move_rollback_def cli_bind_def eprintln_def attempt_rpc_def cli_ret_def w1_def)
  moreover have "catalog w2 = (catalog w)(ma_to a := without_entry (catalog w (ma_to a)) g (ma_name a, n))"
    using d dc' assms(2) by (auto simp: catalog_def fun_eq_iff)
  ultimately show ?thesis by blast
qed

lemma move_from_lost:
  assumes ready: "ma_from a \<noteq> ma_to a"
      "admits env cfg (case ma_from_cert_dir a of Some d \<Rightarrow> Some d | None \<Rightarrow> cli_cert_dir cli) (ma_from a) w"
      "admits env cfg (case ma_to_cert_dir a of Some d \<Rightarrow> Some d | None \<Rightarrow> cli_cert_dir cli) (ma_to a) w"
    and src: "cw_daemons w (ma_from a) = Some src" "dc_lookup (ss_dynamic_config src) (ma_group a) (ma_name a, owner) = Some s"
    and hp: "case svc_health_path s of Some p \<Rightarrow> validate_health_path p = Inr () | None \<Rightarrow> True"
    and links: "cw_links w = [NoFault, f]" "f \<noteq> NoFault"
  shows "\<exists>w'. move_from env cli a cfg owner g n s w = (w', Inl (Failed ''move failed'')) \<and>
    catalog w' (ma_to a) = without_entry (catalog w (ma_to a)) g (ma_name a, n) \<and>
    catalog w' (ma_from a) = (if f = LostReply
      then without_entry (catalog w (ma_from a)) (ma_group a) (ma_name a, owner) else catalog w (ma_from a))"
proof -
  let ?fc = "case ma_from_cert_dir a of Some d \<Rightarrow> Some d | None \<Rightarrow> cli_cert_dir cli"
  let ?tc = "case ma_to_cert_dir a of Some d \<Rightarrow> Some d | None \<Rightarrow> cli_cert_dir cli"
  let ?s = "s\<lparr>svc_node_id := n\<rparr>"
  have name: "svc_key ?s = (ma_name a, n)"
    using src(2) by (auto simp: dc_lookup_def same_instance_def svc_key_def split: bind_splits dest!: find_set)
  obtain dst where dst: "cw_daemons w (ma_to a) = Some dst" using ready(3) by (auto simp: admits_def)
  obtain w2 dst2 v where add: "try_admin_rpc env (ma_to a) (service_add g ?s) cfg ?tc w = (w2, Inr (AdminOk v))"
    and w2: "cw_fs w2 = cw_fs w" "cw_links w2 = [f]" "cw_daemons w2 = (cw_daemons w)(ma_to a \<mapsto> dst2)" "ss_config dst2 = ss_config dst"
      "ss_dynamic_config dst2 = dc_put (ss_dynamic_config dst) g ?s"
    using rpc_run [of env cfg ?tc "ma_to a" w "service_add g ?s" "fst (upsert_service (ss_dynamic_config dst) g ?s)"
        "snd (upsert_service (ss_dynamic_config dst) g ?s)"] dst ready(3) links(1)
    by (auto simp: next_fault_def add_applies hp dc_put_def)
  have cat2: "dc_lookup (ss_dynamic_config dst2) = with_entry (catalog w (ma_to a)) g ?s"
    using dst by (auto simp: w2(5) fun_eq_iff dcat.lookup_put with_entry_def catalog_def)
  obtain dc' v' where op: "apply_admin_op (ce_http env) (ss_dynamic_config src) (ServiceRemove (ma_group a) owner (ma_name a)) = Inr (dc', v')"
    and dc': "dc_lookup dc' = without_entry (dc_lookup (ss_dynamic_config src)) (ma_group a) (ma_name a, owner)"
    using remove_applies src(2) by blast
  have "admits env cfg ?fc (ma_from a) w2" using ready(1,2) w2 by (auto intro: admits_cong)
  then obtain w3 src3 where rem: "try_admin_rpc env (ma_from a) (ServiceRemove (ma_group a) owner (ma_name a)) cfg ?fc w2 =
      (w3, Inl (Failed ''read length prefix''))"
    and w3: "cw_fs w3 = cw_fs w" "cw_links w3 = []" "ss_dynamic_config src3 = dc'"
      "cw_daemons w3 = (if f = LostRequest then cw_daemons w2 else (cw_daemons w2)(ma_from a \<mapsto> src3))"
    using rpc_run [of env cfg ?fc "ma_from a" w2 "ServiceRemove (ma_group a) owner (ma_name a)" dc' v'] src op w2 ready(1) links
    by (auto simp: next_fault_def)
  have "admits env cfg ?tc (ma_to a) w3" "cw_daemons w3 (ma_to a) = Some dst2" "next_fault w3 = NoFault"
    using ready(1,3) w2 w3 dst by (auto simp: next_fault_def intro: admits_cong)
  moreover have "dc_lookup (ss_dynamic_config dst2) g (ma_name a, n) \<noteq> None" using name by (simp add: cat2 with_entry_def)
  ultimately obtain w4 where rb: "move_rollback env cfg a ?tc g n w3 = (w4, Inr ())"
    and w4: "catalog w4 = (catalog w3)(ma_to a := without_entry (catalog w3 (ma_to a)) g (ma_name a, n))"
    using rollback_run by blast
  have "move_from env cli a cfg owner g n s w = (w4, Inl (Failed ''move failed''))"
    using add rem rb by (simp add: move_from_def Let_def cli_bind_def attempt_rpc_def cli_stop_def)
  moreover have "catalog w4 (ma_to a) = without_entry (catalog w (ma_to a)) g (ma_name a, n)"
    using w3(4) w2(3) ready(1) name by (simp add: w4 catalog_def [of w3] cat2 without_plus)
  moreover have "catalog w4 (ma_from a) = (if f = LostReply
      then without_entry (catalog w (ma_from a)) (ma_group a) (ma_name a, owner) else catalog w (ma_from a))"
    using w3(3,4) w2(3) ready(1) src dc' links(2) by (cases f) (simp_all add: w4 catalog_def)
  ultimately show ?thesis by blast
qed

text \<open>
  C40. A move whose removal message gets through but whose answer is lost destroys the service: the
  rollback takes the copy out of the destination, and the source has already dropped the original.
  And whichever of the two is lost, a service that stood at the destination before the move, and
  which the move overwrote, is not brought back by the rollback: it is removed.
\<close>

theorem move_lost_message:
  assumes "move_ready env cli a w s" "cw_links w = [NoFault, NoFault, f]" "f \<noteq> NoFault"
    and "cli_command cli = Some (ServiceCommand (ServiceMoveCmd a))"
  shows "\<exists>w'. main env cli w = (w', Inl (Failed ''move failed'')) \<and>
    catalog w' (ma_to a) = without_entry (catalog w (ma_to a)) (move_dest_group a) (ma_name a, move_dest_node env cli w a) \<and>
    catalog w' (ma_from a) = (if f = LostReply
      then without_entry (catalog w (ma_from a)) (ma_group a) (ma_name a, move_owner env cli w a) else catalog w (ma_from a))"
proof -
  let ?cfg = "loaded env cli w" and ?owner = "move_owner env cli w a"
  let ?fc = "case ma_from_cert_dir a of Some d \<Rightarrow> Some d | None \<Rightarrow> cli_cert_dir cli"
  let ?tc = "case ma_to_cert_dir a of Some d \<Rightarrow> Some d | None \<Rightarrow> cli_cert_dir cli"
  have ready: "ma_from a \<noteq> ma_to a" "admits env ?cfg ?fc (ma_from a) w" "admits env ?cfg ?tc (ma_to a) w"
      "catalog w (ma_from a) (ma_group a) (ma_name a, ?owner) = Some s"
    and hp: "case svc_health_path s of Some p \<Rightarrow> validate_health_path p = Inr () | None \<Rightarrow> True"
    using assms(1) by (simp_all add: move_ready_def Let_def)
  obtain w1 src where f: "fetch_remote_dynamic_config env (ma_from a) ?cfg ?fc w = (w1, Inr (ss_dynamic_config src))"
    and src: "cw_daemons w (ma_from a) = Some src"
    and w1: "cw_fs w1 = cw_fs w" "cw_links w1 = [NoFault, f]" "cw_daemons w1 = cw_daemons w"
    using fetch_run [OF ready(2)] assms(2) by (auto simp: next_fault_def)
  have s: "dc_lookup (ss_dynamic_config src) (ma_group a) (ma_name a, ?owner) = Some s" using ready(4) src by (simp add: catalog_def)
  have "catalog w1 = catalog w" using w1(3) by (rule catalog_cong)
  moreover have "admits env ?cfg ?fc (ma_from a) w1" "admits env ?cfg ?tc (ma_to a) w1" using ready w1 by (auto intro: admits_cong)
  ultimately obtain w' where "move_from env cli a ?cfg ?owner (move_dest_group a) (move_dest_node env cli w a) s w1 = (w', Inl (Failed ''move failed''))"
    and "catalog w' (ma_to a) = without_entry (catalog w (ma_to a)) (move_dest_group a) (ma_name a, move_dest_node env cli w a)"
    "catalog w' (ma_from a) = (if f = LostReply
      then without_entry (catalog w (ma_from a)) (ma_group a) (ma_name a, ?owner) else catalog w (ma_from a))"
    using move_from_lost [OF ready(1) _ _ _ s hp w1(2) assms(3)] src w1(3) by metis
  moreover from this have "main env cli w = (w', Inl (Failed ''move failed''))"
    using assms(4) f s by (simp add: main_def cmd_service_move_unfold Let_def cli_bind_def cli_lift_def ok_or_def map_err_def)
  ultimately show ?thesis by blast
qed

section \<open>One operation, two ways to apply it\<close>

text \<open>The admin operation a command stands for, and the daemon it is sent to, if any.\<close>

definition command_op :: "cli_env \<Rightarrow> cli_world \<Rightarrow> Config \<Rightarrow> Commands \<Rightarrow> AdminOp option" where
  "command_op env w cfg c =
     (case c of
        ServiceCommand (ServiceAddCmd a) \<Rightarrow> Some (service_add (aa_group a) (service_of_args a (or_own (aa_node a) cfg)))
      | ServiceCommand (ServiceRenameCmd grp from to node _) \<Rightarrow> Some (ServiceRename grp (or_own node cfg) from to)
      | ServiceCommand (ServiceRemoveCmd grp name node _) \<Rightarrow> Some (ServiceRemove grp (or_own node cfg) name)
      | RouteCommand (RouteSet service routes _) \<Rightarrow>
          (case parse_routes env w service routes of Inr rs \<Rightarrow> Some (RoutesSet service rs) | Inl _ \<Rightarrow> None)
      | RouteCommand (RouteClear service _) \<Rightarrow> Some (RoutesSet service [])
      | _ \<Rightarrow> None)"

definition command_remote :: "Commands \<Rightarrow> string option" where
  "command_remote c =
     (case c of
        ServiceCommand (ServiceAddCmd a) \<Rightarrow> aa_remote a
      | ServiceCommand (ServiceRenameCmd _ _ _ _ remote) \<Rightarrow> remote
      | ServiceCommand (ServiceRemoveCmd _ _ _ remote) \<Rightarrow> remote
      | RouteCommand (RouteSet _ _ remote) \<Rightarrow> remote
      | RouteCommand (RouteClear _ remote) \<Rightarrow> remote
      | _ \<Rightarrow> None)"

text \<open>The configuration file holds \<open>cfg\<close>, and every peer that TLS lets us reach has been sent its dynamic part.\<close>

definition stored :: "cli_env \<Rightarrow> Cli \<Rightarrow> Config \<Rightarrow> cli_world \<Rightarrow> bool" where
  "stored env cli cfg w \<longleftrightarrow> map_option f_data (cw_fs w (ce_resolve env (cli_config cli))) = Some (to_json (ce_json env) cfg)"

definition update_msgs :: "Config \<Rightarrow> Message \<Rightarrow> (string \<times> Message) list" where
  "update_msgs cfg msg = (if cfg_tls_dir cfg = None then [] else map (\<lambda>addr. (addr, msg)) (cfg_known_nodes cfg))"

lemma load_or_create_frame:
  assumes "load_or_create env s dir node = (ss, ws, r)" "snd p \<notin> {''ca.crt'', ''ca.key''}"
  shows "last ss p = s p"
proof -
  have "run_in (keys_kept s (dir, ''ca.key'') {(dir, ''ca.crt'')}) (load_or_create env s dir node)"
    unfolding load_or_create_def Let_def by (auto intro!: keep_intros)
  then have "keys_kept s (dir, ''ca.key'') {(dir, ''ca.crt'')} (last ss)"
    using assms(1) by (auto simp: run_in_def list_all_iff)
  with assms(2) show ?thesis by (cases p) (auto simp: keys_kept_def)
qed

lemma cli_save_ok:
  assumes "cli_save env (cli_config cli) cfg w = (w', Inr u)"
  shows "stored env cli cfg w' \<and> (\<exists>f. w' = w\<lparr>cw_fs := f\<rparr>)"
  using assms by (auto simp: cli_save_def save_def stored_def map_err_def dest!: write_atomic_data split: prod.splits sum.splits)

lemma announce_ok:
  assumes "announce env cfg msg w = (w', Inr u)" "snd p \<notin> {''ca.crt'', ''ca.key''}"
  shows "cw_fs w' p = cw_fs w p \<and> cw_daemons w' = cw_daemons w \<and> cw_sent w' = cw_sent w @ update_msgs cfg msg"
proof -
  have peers: "broadcast_message (new_state cfg b None False) msg = map (\<lambda>addr. (addr, msg)) (cfg_known_nodes cfg)" for b
    by (simp add: broadcast_message_def peer_addrs_def new_state_def)
  show ?thesis
  proof (cases "cfg_tls_dir cfg")
    case None
    with assms(1) show ?thesis by (auto simp: announce_def cli_bind_def cli_ret_def update_msgs_def)
  next
    case (Some dir)
    obtain ss ws q where l: "load_or_create (ce_pki env) (cw_fs w) dir (cfg_node_id cfg) = (ss, ws, q)"
      by (cases "load_or_create (ce_pki env) (cw_fs w) dir (cfg_node_id cfg)")
    have "w' = w\<lparr>cw_fs := last ss, cw_sent := cw_sent w @ update_msgs cfg msg\<rparr>"
      using assms(1) Some l by (auto simp: announce_def cli_bind_def cli_ret_def update_msgs_def peers tls_context_eq split: sum.splits if_splits)
    then show ?thesis using load_or_create_frame [OF l assms(2)] by simp
  qed
qed

lemma commit_ok:
  assumes "cli_save env (cli_config cli) cfg w = (w1, Inr u1)" "announce env cfg msg w1 = (w2, Inr u2)"
    and "snd (ce_resolve env (cli_config cli)) \<notin> {''ca.crt'', ''ca.key''}"
  shows "stored env cli cfg w2 \<and> cw_daemons w2 = cw_daemons w \<and> cw_sent w2 = cw_sent w @ update_msgs cfg msg"
  using cli_save_ok [OF assms(1)] announce_ok [OF assms(2,3)] by (auto simp: stored_def)

lemma mutate_local_ok:
  assumes "mutate_local env cli change w = (w', Inr v)" "snd (ce_resolve env (cli_config cli)) \<notin> {''ca.crt'', ''ca.key''}"
  shows "\<exists>dc. change (loaded env cli w) = Inr (dc, v) \<and> stored env cli ((loaded env cli w)\<lparr>cfg_dynamic_config := dc\<rparr>) w' \<and>
    cw_daemons w' = cw_daemons w \<and> cw_sent w' = cw_sent w @ update_msgs (loaded env cli w) (ConfigUpdate dc)"
proof -
  obtain cfg dc w1 where l: "load_file env w (cli_config cli) = Inr cfg" and c: "change cfg = Inr (dc, v)"
    and w: "cli_save env (cli_config cli) (cfg\<lparr>cfg_dynamic_config := dc\<rparr>) w = (w1, Inr ())"
      "announce env (cfg\<lparr>cfg_dynamic_config := dc\<rparr>) (ConfigUpdate dc) w1 = (w', Inr ())"
    using assms(1) by (auto simp: mutate_local_def loop_simps cli_load_def cli_lift_def broadcast_config_def Let_def)
  moreover have "loaded env cli w = cfg" using l by (simp add: loaded_def)
  ultimately show ?thesis using commit_ok [OF w assms(2)] by (auto simp: update_msgs_def)
qed

lemma run_admin_rpc_ok:
  assumes "run_admin_rpc env t op cfg cd w = (w', Inr v)"
  shows "\<exists>st st'. cw_daemons w t = Some st \<and> applied env op st st' v \<and> cw_daemons w' = (cw_daemons w)(t \<mapsto> st')"
proof -
  obtain w1 q where t: "try_admin_rpc env t op cfg cd w = (w1, q)" by fastforce
  then have "w' = w1 \<and> q = Inr (AdminOk v)"
    using assms by (auto simp: run_admin_rpc_def cli_bind_def cli_ret_def cli_stop_def eprintln_def split: sum.splits AdminResult.splits)
  with try_admin_rpc_cases [OF t] show ?thesis by auto
qed

lemma println_ok [loop_simps]: "println l w = (w', r) \<longleftrightarrow> w' = w\<lparr>cw_out := cw_out w @ [l]\<rparr> \<and> r = Inr ()"
  by (auto simp: println_def)

lemma stored_out [simp]: "stored env cli cfg (w\<lparr>cw_out := l\<rparr>) = stored env cli cfg w"
  by (simp add: stored_def)

text \<open>What a successful change amounts to, made in the local file or by the daemon at \<open>remote\<close>.\<close>

definition op_done :: "cli_env \<Rightarrow> Cli \<Rightarrow> AdminOp \<Rightarrow> string option \<Rightarrow> cli_world \<Rightarrow> cli_world \<Rightarrow> bool" where
  "op_done env cli op remote w w' \<longleftrightarrow>
     (case remote of
        Some t \<Rightarrow> (\<exists>st st' v. cw_daemons w t = Some st \<and> applied env op st st' v \<and> cw_daemons w' = (cw_daemons w)(t \<mapsto> st'))
      | None \<Rightarrow> (\<exists>dc v. apply_admin_op (ce_http env) (cfg_dynamic_config (loaded env cli w)) op = Inr (dc, v) \<and>
          stored env cli ((loaded env cli w)\<lparr>cfg_dynamic_config := dc\<rparr>) w' \<and> cw_daemons w' = cw_daemons w \<and>
          cw_sent w' = cw_sent w @ update_msgs (loaded env cli w) (ConfigUpdate dc)))"

lemma add_done:
  assumes "cmd_service_add env cli a w = (w', Inr u)" "snd (ce_resolve env (cli_config cli)) \<notin> {''ca.crt'', ''ca.key''}"
  shows "op_done env cli (service_add (aa_group a) (service_of_args a (or_own (aa_node a) (loaded env cli w)))) (aa_remote a) w w'"
proof (cases "aa_remote a")
  case (Some t)
  with assms(1) show ?thesis
    by (auto simp: cmd_service_add_def loop_simps load_or_default_run cli_lift_def op_done_def dest!: run_admin_rpc_ok) blast
next
  case None
  let ?s = "service_of_args a (or_own (aa_node a) (loaded env cli w))"
  obtain dc v where u: "upsert_service (cfg_dynamic_config (loaded env cli w)) (aa_group a) ?s = (dc, v)" by fastforce
  let ?cfg = "(loaded env cli w)\<lparr>cfg_dynamic_config := dc\<rparr>"
  obtain w1 w2 where w: "cli_save env (cli_config cli) ?cfg w = (w1, Inr ())" "announce env ?cfg (ConfigUpdate dc) w1 = (w2, Inr ())"
    and w': "cw_fs w' = cw_fs w2" "cw_daemons w' = cw_daemons w2" "cw_sent w' = cw_sent w2"
    and hp: "case svc_health_path ?s of Some p \<Rightarrow> validate_health_path p = Inr () | None \<Rightarrow> True"
    using assms(1) None u
    by (auto simp: cmd_service_add_def loop_simps load_or_default_run cli_lift_def Let_def service_of_args_def split: option.splits)
  show ?thesis using commit_ok [OF w assms(2)] add_applies [OF hp] None u w'
    by (auto simp: op_done_def stored_def update_msgs_def)
qed

lemma remote_done:
  assumes "cli_bind (load_or_default env (cli_config cli)) (\<lambda>cfg. cli_bind (run_admin_rpc env t (op cfg) cfg cd) (\<lambda>v. println (said v))) w = (w', Inr u)"
  shows "op_done env cli (op (loaded env cli w)) (Some t) w w'"
  using assms by (auto simp: loop_simps load_or_default_run op_done_def dest!: run_admin_rpc_ok) blast

lemma local_done:
  assumes "cli_bind (mutate_local env cli (\<lambda>cfg. apply_admin_op (ce_http env) (cfg_dynamic_config cfg) (op cfg))) (\<lambda>v. println (said v)) w = (w', Inr u)"
    and "snd (ce_resolve env (cli_config cli)) \<notin> {''ca.crt'', ''ca.key''}"
  shows "op_done env cli (op (loaded env cli w)) None w w'"
  using assms by (auto simp: loop_simps op_done_def dest!: mutate_local_ok)

lemma cli_bind_assoc: "cli_bind (cli_bind m f) k = cli_bind m (\<lambda>x. cli_bind (f x) k)"
  by (rule ext) (auto simp: cli_bind_def split: prod.split sum.split)

lemma as_admin_op:
  "set_routes lib dc service rs = apply_admin_op lib dc (RoutesSet service rs)"
  "rename_service dc grp node from to = apply_admin_op lib dc (ServiceRename grp node from to)"
  "remove_service dc grp node name = apply_admin_op lib dc (ServiceRemove grp node name)"
  by (simp_all add: apply_admin_op_def)

text \<open>
  C36. A change to the mesh is one operation, however it is made. Whenever \<^verbatim>\<open>service add\<close>,
  \<^verbatim>\<open>rename\<close> and \<^verbatim>\<open>remove\<close> and \<^verbatim>\<open>route set\<close> and \<^verbatim>\<open>clear\<close> succeed, the dynamic configuration has
  been changed by exactly the admin operation the arguments describe: with \<^verbatim>\<open>--remote\<close> in the
  daemon asked and nowhere else, and otherwise in the local file, whose other settings are kept,
  with the new configuration sent to every known peer when TLS is set up.
\<close>

theorem commands_apply_op:
  assumes "main env cli w = (w', Inr u)" "cli_command cli = Some c" "command_op env w (loaded env cli w) c = Some op"
    and "snd (ce_resolve env (cli_config cli)) \<notin> {''ca.crt'', ''ca.key''}"
  shows "op_done env cli op (command_remote c) w w'"
proof -
  note here = local_done [OF _ assms(4)] and ops = as_admin_op [where lib = "ce_http env"]
  have routes: "op_done env cli (RoutesSet service rs) remote w w'" if "cmd_set_routes env cli service rs remote w = (w', Inr u)" for service rs remote
    using that here [where op = "\<lambda>_. RoutesSet service rs"] remote_done [where op = "\<lambda>_. RoutesSet service rs"]
    unfolding cmd_set_routes_def ops by (cases remote) (auto simp only: option.case cli_bind_assoc)
  have rename: "op_done env cli (ServiceRename grp (or_own node (loaded env cli w)) old new) remote w w'"
    if "cmd_service_rename env cli grp old new node remote w = (w', Inr u)" for grp old new node remote
    using that here [where op = "\<lambda>cfg. ServiceRename grp (or_own node cfg) old new"]
      remote_done [where op = "\<lambda>cfg. ServiceRename grp (or_own node cfg) old new"]
    unfolding cmd_service_rename_def ops Let_def by (cases remote) (auto simp only: option.case)
  have remove: "op_done env cli (ServiceRemove grp (or_own node (loaded env cli w)) name) remote w w'"
    if "cmd_service_remove env cli grp name node remote w = (w', Inr u)" for grp name node remote
    using that here [where op = "\<lambda>cfg. ServiceRemove grp (or_own node cfg) name"]
      remote_done [where op = "\<lambda>cfg. ServiceRemove grp (or_own node cfg) name"]
    unfolding cmd_service_remove_def ops Let_def by (cases remote) (auto simp only: option.case)
  show ?thesis
    using assms(1-3) add_done [OF _ assms(4)] routes rename remove
    by (auto simp: main_def command_op_def command_remote_def cmd_route_def loop_simps cli_lift_def
        split: Commands.splits ServiceAction.splits RouteAction.splits sum.splits CertAction.splits)
qed

section \<open>Exit codes\<close>

lemma run_admin_rpc_exit:
  assumes "build_cli_tls env cfg cd w = (w, Inr m)" "cw_daemons w t = Some st" "ce_handshake env t m = Some cn" "next_fault w = NoFault"
  shows "snd (run_admin_rpc env t op cfg cd w) =
    (case handle_admin_request (ce_json env) (ce_http env) st cn op of
       (st', AdminOk v, msgs) \<Rightarrow> Inr v | (st', AdminErr c msg, msgs) \<Rightarrow> Inl (Exited (admin_exit_code c)))"
proof -
  have "exchange env t m (admin_act env op) w = (case handle_admin_request (ce_json env) (ce_http env) st cn op of
      (st', r, msgs) \<Rightarrow> (w\<lparr>cw_links := tl (cw_links w), cw_daemons := (cw_daemons w)(t \<mapsto> st'), cw_sent := cw_sent w @ msgs\<rparr>, Inr (AdminResponse r)))"
    using assms(2-4) by (simp add: exchange_def cli_bind_def next_link_def next_fault_def admin_act_def on_wire_def split: list.splits prod.split)
  then show ?thesis using assms(1)
    by (simp add: run_admin_rpc_def try_admin_rpc_def cli_bind_def cli_ret_def eprintln_def cli_stop_def split: prod.split AdminResult.split)
qed

text \<open>
  Scripts can tell why a remote change failed. When the daemon answers, the command's exit
  status is 3 if the client certificate is not on the allow list, 2 if the daemon only subscribes
  or the operation is invalid or names something unknown, and 0 exactly when the operation has been
  carried out.
\<close>

theorem remote_exit_codes:
  assumes "cli_command cli = Some c" "command_op env w (loaded env cli w) c = Some op" "command_remote c = Some t"
    and "build_cli_tls env (loaded env cli w) (cli_cert_dir cli) w = (w, Inr m)" "cw_daemons w t = Some st"
    and "ce_handshake env t m = Some cn" "next_fault w = NoFault"
    and "case c of ServiceCommand (ServiceAddCmd a) \<Rightarrow> \<forall>p. aa_health_path a = Some p \<longrightarrow> validate_health_path p = Inr () | _ \<Rightarrow> True"
  shows "exit_code (snd (main env cli w)) =
    (if \<not> admin_allowed st cn then 3 else if cfg_mode (ss_config st) = Subscribe then 2
     else (case apply_admin_op (ce_http env) (ss_dynamic_config st) op of Inl _ \<Rightarrow> 2 | Inr _ \<Rightarrow> 0))"
proof -
  have "snd (main env cli w) = (case snd (run_admin_rpc env t op (loaded env cli w) (cli_cert_dir cli) w) of Inl e \<Rightarrow> Inl e | Inr v \<Rightarrow> Inr ())"
    using assms(1-3,8)
    by (auto simp: main_def command_op_def command_remote_def cmd_service_add_def cmd_service_rename_def cmd_service_remove_def cmd_route_def
        cmd_set_routes_def cli_lift_def cli_bind_def load_or_default_run println_def map_err_def Let_def
        split: Commands.splits ServiceAction.splits RouteAction.splits CertAction.splits sum.splits option.splits prod.splits)
  then show ?thesis
    using run_admin_rpc_exit [OF assms(4-7), of op]
    by (auto simp: handle_admin_request_def Let_def exit_code_def admin_exit_code_def admin_err_code_def
        split: prod.splits sum.splits MutateErr.splits)
qed

section \<open>A configuration that cannot be read\<close>

text \<open>
  When the configuration file cannot be read or parsed, the commands that change an existing
  configuration refuse and touch nothing, but a local \<^verbatim>\<open>service add\<close> or \<^verbatim>\<open>init\<close> that succeeds has
  replaced the whole file by the default configuration with the one service, or the node id, in it.
\<close>

theorem unreadable_config_replaced:
  assumes "load_file env w (cli_config cli) = Inl e" "snd (ce_resolve env (cli_config cli)) \<notin> {''ca.crt'', ''ca.key''}"
  shows "(aa_remote a = None \<longrightarrow> main env (cli\<lparr>cli_command := Some (ServiceCommand (ServiceAddCmd a))\<rparr>) w = (w1, Inr ()) \<longrightarrow>
      stored env cli (default_config\<lparr>cfg_dynamic_config :=
        fst (upsert_service default_dynamic_config (aa_group a) (service_of_args a (or_own (aa_node a) default_config)))\<rparr>) w1) \<and>
    (main env (cli\<lparr>cli_command := Some Init\<rparr>) w = (w2, Inr ()) \<longrightarrow>
      stored env cli (default_config\<lparr>cfg_node_id := ce_hostname env\<rparr>) w2) \<and>
    main env (cli\<lparr>cli_command := Some (ServiceCommand (ServiceRenameCmd g old new n None))\<rparr>) w = (w, Inl (Failed e)) \<and>
    main env (cli\<lparr>cli_command := Some (ServiceCommand (ServiceRemoveCmd g old n None))\<rparr>) w = (w, Inl (Failed e)) \<and>
    main env (cli\<lparr>cli_command := Some (RouteCommand (RouteClear old None))\<rparr>) w = (w, Inl (Failed e))"
proof (intro conjI impI)
  let ?add = "cli\<lparr>cli_command := Some (ServiceCommand (ServiceAddCmd a))\<rparr>"
  have l: "loaded env ?add w = default_config" using assms(1) by (simp add: loaded_def)
  have dc0: "cfg_dynamic_config default_config = default_dynamic_config" by (simp add: default_config_def)
  assume "aa_remote a = None" and run: "main env ?add w = (w1, Inr ())"
  moreover have "cmd_service_add env ?add a w = (w1, Inr ())" using run by (simp add: main_def)
  ultimately have "op_done env ?add (service_add (aa_group a) (service_of_args a (or_own (aa_node a) default_config))) None w w1"
    using add_done [of env ?add a w w1 "()"] assms(2) l by simp
  then show "stored env cli (default_config\<lparr>cfg_dynamic_config :=
        fst (upsert_service default_dynamic_config (aa_group a) (service_of_args a (or_own (aa_node a) default_config)))\<rparr>) w1"
    using dc0 by (auto simp: op_done_def l stored_def dest!: add_result)
next
  let ?cfg = "default_config\<lparr>cfg_node_id := ce_hostname env\<rparr>"
  have peers: "cfg_known_nodes default_config = []" by (simp add: default_config_def)
  have l: "load_or_default env (cli_config cli) w = (w, Inr default_config)" using assms(1) by (simp add: load_or_default_def cli_ret_def)
  assume "main env (cli\<lparr>cli_command := Some Init\<rparr>) w = (w2, Inr ())"
  then obtain w1 where "cli_save env (cli_config cli) ?cfg w = (w1, Inr ())" "cw_fs w2 = cw_fs w1"
    by (auto simp: main_def cmd_init_def loop_simps l peers)
  then show "stored env cli ?cfg w2" using cli_save_ok [of env cli ?cfg w w1 "()"] by (simp add: stored_def)
qed (use assms(1) in \<open>simp_all add: main_def cmd_service_rename_def cmd_service_remove_def cmd_route_def cmd_set_routes_def
  mutate_local_def cli_bind_def cli_load_def cli_lift_def map_err_def Let_def\<close>)

section \<open>Witnesses\<close>

definition sample_cli_env :: cli_env where
  "sample_cli_env =
     \<lparr>ce_json = sample_json,
      ce_routes = \<lparr>rl_parse = (\<lambda>_. None), rl_from_value = (\<lambda>_. None), rl_match_json = (\<lambda>_. [])\<rparr>,
      ce_http = lib0, ce_pki = sample_pki_env ''k'', ce_write = sample_write_env, ce_resolve = Pair ''.'',
      ce_hostname = ''host'', ce_tls = sample_tls, ce_handshake = (\<lambda>_ _. Some (Some ''ops''))\<rparr>"

definition sample_daemon :: "DynamicConfig \<Rightarrow> SharedState" where
  "sample_daemon dc = new_state (default_config\<lparr>cfg_admin_cns := [''ops''], cfg_dynamic_config := dc\<rparr>) True None False"

definition sample_world :: "link_fault list \<Rightarrow> cli_world" where
  "sample_world links =
     \<lparr>cw_fs = sample_tls_fs, cw_daemons = [''a'' \<mapsto> sample_daemon sample_dc, ''b'' \<mapsto> sample_daemon default_dynamic_config],
      cw_links = links, cw_sent = [], cw_out = [], cw_err = []\<rparr>"

definition sample_cli :: "Commands \<Rightarrow> Cli" where
  "sample_cli c = \<lparr>cli_config = ''stouter.json'', cli_cert_dir = Some ''tls'', cli_command = Some c\<rparr>"

definition sample_move :: MoveArgs where
  "sample_move = \<lparr>ma_group = ''web'', ma_name = ''api'', ma_node = Some ''n1'', ma_to_group = None, ma_to_node = None,
     ma_from = ''a'', ma_to = ''b'', ma_from_cert_dir = None, ma_to_cert_dir = None\<rparr>"

lemma sample_loaded: "loaded sample_cli_env (sample_cli c) (sample_world links) = default_config"
  by (simp add: loaded_def load_file_def read_to_string_def ok_or_def sample_cli_env_def sample_cli_def sample_world_def
      sample_tls_fs_def sample_pki_env_def)

lemma sample_tls_new: "tls_context_new sample_tls m \<noteq> Inl e"
  by (simp add: tls_context_new_def sample_tls_def map_err_def)

lemma sample_cli_tls: "\<exists>m. build_cli_tls sample_cli_env default_config (Some ''tls'') (sample_world links) = (sample_world links, Inr m)"
  by (simp add: build_cli_tls_def tls_context_eq world_same_fs sample_cli_env_def)
    (simp add: sample_world_def pki_eval default_config_def sample_tls_new split: sum.split)

lemma sample_admits:
  "t \<in> {''a'', ''b''} \<Longrightarrow> admits sample_cli_env default_config (Some ''tls'') t (sample_world links)"
  using sample_cli_tls [of links]
  by (auto simp: admits_def sample_cli_env_def [THEN arg_cong, of ce_handshake] sample_daemon_def new_state_def admin_allowed_def sample_world_def default_config_def)

lemma runs: "snd (main env cli w) = r \<Longrightarrow> \<exists>w'. main env cli w = (w', r)"
  by (cases "main env cli w") simp

lemma sample_move_runs: "snd (main sample_cli_env (sample_cli (ServiceCommand (ServiceMoveCmd sample_move))) (sample_world [])) = Inr ()"
  by code_simp

lemma sample_catalogs:
  "catalog (sample_world links) ''a'' = dc_lookup sample_dc" "catalog (sample_world links) ''b'' = dc_lookup default_dynamic_config"
  by (simp_all add: catalog_def sample_world_def sample_daemon_def new_state_def)

lemma sample_move_simps [simp]:
  "ma_from sample_move = ''a''" "ma_to sample_move = ''b''" "ma_group sample_move = ''web''" "ma_name sample_move = ''api''"
  "move_dest_group sample_move = ''web''" "move_owner env cli w sample_move = ''n1''" "move_dest_node env cli w sample_move = ''n1''"
  by (simp_all add: sample_move_def move_dest_group_def move_owner_def move_dest_node_def or_own_def)

theorem service_move_outcome_witness:
  "\<exists>w'. main sample_cli_env (sample_cli (ServiceCommand (ServiceMoveCmd sample_move))) (sample_world []) = (w', Inr ()) \<and>
     catalog w' ''a'' ''web'' (''api'', ''n1'') = None \<and> catalog w' ''b'' ''web'' (''api'', ''n1'') = Some (sample_service ''api'' ''n1'')"
proof -
  let ?cli = "sample_cli (ServiceCommand (ServiceMoveCmd sample_move))"
  obtain w' where w': "main sample_cli_env ?cli (sample_world []) = (w', Inr ())" using runs [OF sample_move_runs] by blast
  have s: "dc_lookup sample_dc ''web'' (''api'', ''n1'') = Some (sample_service ''api'' ''n1'')"
    "dc_lookup default_dynamic_config ''web'' (''api'', ''n1'') = None"
    by (simp_all add: dc_lookup_def sample_dc_def sample_service_def same_instance_def default_dynamic_config_def)
  have "cli_command ?cli = Some (ServiceCommand (ServiceMoveCmd sample_move))" "LostReply \<notin> set (cw_links (sample_world []))"
    by (simp_all add: sample_cli_def sample_world_def)
  with service_move_outcome [OF w', of sample_move] w' s show ?thesis
    by (simp add: sample_catalogs without_entry_def with_entry_def svc_key_def sample_service_def)
qed

theorem move_lost_message_witness:
  "\<exists>w'. main sample_cli_env (sample_cli (ServiceCommand (ServiceMoveCmd sample_move))) (sample_world [NoFault, NoFault, LostReply]) =
      (w', Inl (Failed ''move failed'')) \<and>
     catalog w' ''a'' ''web'' (''api'', ''n1'') = None \<and> catalog w' ''b'' ''web'' (''api'', ''n1'') = None"
proof -
  let ?cli = "sample_cli (ServiceCommand (ServiceMoveCmd sample_move))" and ?w = "sample_world [NoFault, NoFault, LostReply]"
  have certs: "ma_from_cert_dir sample_move = None" "ma_to_cert_dir sample_move = None" "cli_cert_dir ?cli = Some ''tls''"
    "cli_command ?cli = Some (ServiceCommand (ServiceMoveCmd sample_move))" "cw_links ?w = [NoFault, NoFault, LostReply]"
    by (simp_all add: sample_move_def sample_cli_def sample_world_def)
  have "move_ready sample_cli_env ?cli sample_move ?w (sample_service ''api'' ''n1'')"
    by (simp add: move_ready_def certs sample_loaded sample_admits sample_catalogs dc_lookup_def sample_dc_def same_instance_def sample_service_def)
  from move_lost_message [OF this certs(5) _ certs(4)] show ?thesis
    by (auto simp: without_entry_def)
qed

theorem commands_apply_op_witness:
  "\<exists>w'. main sample_cli_env (sample_cli (ServiceCommand (ServiceRemoveCmd ''web'' ''api'' (Some ''n1'') (Some ''a'')))) (sample_world []) = (w', Inr ()) \<and>
     op_done sample_cli_env (sample_cli (ServiceCommand (ServiceRemoveCmd ''web'' ''api'' (Some ''n1'') (Some ''a''))))
       (ServiceRemove ''web'' ''n1'' ''api'') (Some ''a'') (sample_world []) w'"
proof -
  let ?c = "ServiceCommand (ServiceRemoveCmd ''web'' ''api'' (Some ''n1'') (Some ''a''))"
  have "snd (main sample_cli_env (sample_cli ?c) (sample_world [])) = Inr ()" by code_simp
  then obtain w' where w': "main sample_cli_env (sample_cli ?c) (sample_world []) = (w', Inr ())" using runs by blast
  have c: "cli_command (sample_cli ?c) = Some ?c" "command_remote ?c = Some ''a''"
    "snd (ce_resolve sample_cli_env (cli_config (sample_cli ?c))) \<notin> {''ca.crt'', ''ca.key''}"
    "command_op sample_cli_env (sample_world []) (loaded sample_cli_env (sample_cli ?c) (sample_world [])) ?c = Some (ServiceRemove ''web'' ''n1'' ''api'')"
    by (simp_all add: sample_cli_def sample_cli_env_def command_op_def command_remote_def or_own_def)
  show ?thesis using commands_apply_op [OF w' c(1,4,3)] w' c(2) by auto
qed

theorem remote_exit_codes_witness:
  "exit_code (snd (main sample_cli_env (sample_cli (ServiceCommand (ServiceRemoveCmd ''web'' ''api'' (Some ''n9'') (Some ''a'')))) (sample_world []))) = 2"
proof -
  let ?c = "ServiceCommand (ServiceRemoveCmd ''web'' ''api'' (Some ''n9'') (Some ''a''))"
  obtain m where m: "build_cli_tls sample_cli_env default_config (Some ''tls'') (sample_world []) = (sample_world [], Inr m)"
    using sample_cli_tls by blast
  have st: "cw_daemons (sample_world []) ''a'' = Some (sample_daemon sample_dc)" "ss_dynamic_config (sample_daemon sample_dc) = sample_dc"
      "cfg_mode (ss_config (sample_daemon sample_dc)) = Node" "admin_allowed (sample_daemon sample_dc) (Some ''ops'')"
    by (simp_all add: sample_world_def sample_daemon_def new_state_def admin_allowed_def default_config_def)
  have c: "cli_command (sample_cli ?c) = Some ?c" "command_remote ?c = Some ''a''" "cli_cert_dir (sample_cli ?c) = Some ''tls''"
      "command_op sample_cli_env (sample_world []) (loaded sample_cli_env (sample_cli ?c) (sample_world [])) ?c = Some (ServiceRemove ''web'' ''n9'' ''api'')"
      "ce_handshake sample_cli_env ''a'' m = Some (Some ''ops'')" "next_fault (sample_world []) = NoFault"
    by (simp_all add: sample_cli_def command_remote_def command_op_def or_own_def sample_cli_env_def next_fault_def sample_world_def)
  have "apply_admin_op (ce_http sample_cli_env) sample_dc (ServiceRemove ''web'' ''n9'' ''api'') = Inl (ServiceNotFound ''web'' ''n9'' ''api'')"
    by (simp add: apply_admin_op_def remove_service_def sample_dc_def sample_service_def same_instance_def)
  then show ?thesis
    using remote_exit_codes [OF c(1,4,2) _ st(1) c(5,6)] m st by (simp add: c(3) sample_loaded)
qed

definition sample_add :: AddArgs where
  "sample_add = \<lparr>aa_group = ''web'', aa_name = ''api'', aa_port = 80, aa_domains = [], aa_weight = 1, aa_max_connections = None,
     aa_protocol = Tcp, aa_request_timeout_ms = None, aa_health_path = None, aa_labels = [], aa_meta = [], aa_local_port = None,
     aa_node = None, aa_remote = None\<rparr>"

definition damaged_world :: cli_world where
  "damaged_world = (sample_world [])\<lparr>cw_fs := [(''.'', ''stouter.json'') \<mapsto>
     \<lparr>f_data = ''{ damaged'', f_perms = 420, f_owner = 0, f_synced = True\<rparr>]\<rparr>"

theorem unreadable_config_replaced_witness:
  "\<exists>w'. main sample_cli_env (sample_cli (ServiceCommand (ServiceAddCmd sample_add))) damaged_world = (w', Inr ()) \<and>
     map_option f_data (cw_fs w' (''.'', ''stouter.json'')) = Some ''1''"
proof -
  let ?cli = "sample_cli (ServiceCommand (ServiceAddCmd sample_add))"
  have "snd (main sample_cli_env ?cli damaged_world) = Inr ()" by code_simp
  then obtain w' where w': "main sample_cli_env ?cli damaged_world = (w', Inr ())" using runs by blast
  have "load_file sample_cli_env damaged_world (cli_config ?cli) = Inl ''invalid JSON''"
    by (simp add: load_file_def read_to_string_def ok_or_def sample_cli_env_def sample_cli_def damaged_world_def sample_pki_env_def sample_json_def)
  moreover have "snd (ce_resolve sample_cli_env (cli_config ?cli)) \<notin> {''ca.crt'', ''ca.key''}" "aa_remote sample_add = None"
    "?cli\<lparr>cli_command := Some (ServiceCommand (ServiceAddCmd sample_add))\<rparr> = ?cli"
    by (simp_all add: sample_cli_def sample_cli_env_def sample_add_def)
  ultimately have "stored sample_cli_env ?cli (default_config\<lparr>cfg_dynamic_config :=
      fst (upsert_service default_dynamic_config (aa_group sample_add) (service_of_args sample_add (or_own (aa_node sample_add) default_config)))\<rparr>) w'"
    using unreadable_config_replaced [of sample_cli_env damaged_world ?cli "''invalid JSON''" sample_add w'] w' by metis
  moreover have "dec_string (Suc 0) = ''1''" by code_simp
  ultimately show ?thesis using w'
    by (simp add: stored_def sample_cli_env_def sample_cli_def sample_json_def upsert_service_def default_dynamic_config_def Let_def bump_version_def)
qed

end
