(* ===== verification/Stream_Copy.thy ===== *)
theory Stream_Copy
  imports Stouter_Prelude
begin

text \<open>
  Copying between two connections (\<^verbatim>\<open>src/io.rs\<close>): the loop that copies one direction, the
  bookkeeping of activity, and \<^verbatim>\<open>proxy_bidirectional\<close>, which runs two copies and an idle timer. A
  direction is a state machine; what the operating system does at each await is an event. Time is
  counted in milliseconds, and a timer is served when it is due, so that time does not pass the
  next wake-up of a running timer.
\<close>

section \<open>One direction\<close>

definition BUF_SIZE :: nat where
  "BUF_SIZE = 65536"

datatype io_error = WriteZero | OsError string

text \<open>
  Where the loop is: waiting for data, with a part of the buffer still to be written, flushing,
  shutting the writer down, or finished.
\<close>

datatype copy_phase = Reading | Writing bytes | Flushing | ShuttingDown | Copied | CopyFailed io_error

text \<open>
  \<open>d_sent\<close> is everything the source has sent, \<open>d_in\<close> the part not read yet, \<open>d_eof\<close> whether
  it has stopped sending; \<open>d_out\<close> is what the sink has been given and \<open>d_shut\<close> whether it has
  been told that there is no more.
\<close>

record direction =
  d_sent :: bytes
  d_in :: bytes
  d_eof :: bool
  d_phase :: copy_phase
  d_out :: bytes
  d_shut :: bool

definition new_direction :: direction where
  "new_direction = \<lparr>d_sent = [], d_in = [], d_eof = False, d_phase = Reading, d_out = [], d_shut = False\<rparr>"

datatype copy_event =
    ReadSome nat | ReadEof | Wrote nat | Flushed | ShutDone | CallFailed string

text \<open>One await of \<^verbatim>\<open>copy_then_shutdown\<close>; \<open>None\<close> where the event cannot happen.\<close>

definition copy_step :: "direction \<Rightarrow> copy_event \<Rightarrow> direction option" where
  "copy_step d ev =
     (case (d_phase d, ev) of
        (Reading, ReadSome n) \<Rightarrow>
          if 0 < n \<and> n \<le> BUF_SIZE \<and> n \<le> length (d_in d)
          then Some (d\<lparr>d_in := drop n (d_in d), d_phase := Writing (take n (d_in d))\<rparr>) else None
      | (Reading, ReadEof) \<Rightarrow> if d_in d = [] \<and> d_eof d then Some (d\<lparr>d_phase := ShuttingDown\<rparr>) else None
      | (Writing chunk, Wrote n) \<Rightarrow>
          if length chunk < n then None
          else if n = 0 then Some (d\<lparr>d_phase := CopyFailed WriteZero\<rparr>)
          else Some (d\<lparr>d_out := d_out d @ take n chunk,
                       d_phase := (if drop n chunk = [] then Flushing else Writing (drop n chunk))\<rparr>)
      | (Flushing, Flushed) \<Rightarrow> Some (d\<lparr>d_phase := Reading\<rparr>)
      | (ShuttingDown, ShutDone) \<Rightarrow> Some (d\<lparr>d_shut := True, d_phase := Copied\<rparr>)
      | (Copied, _) \<Rightarrow> None
      | (CopyFailed _, _) \<Rightarrow> None
      | (_, CallFailed e) \<Rightarrow> Some (d\<lparr>d_phase := CopyFailed (OsError e)\<rparr>)
      | _ \<Rightarrow> None)"

text \<open>The events after which the loop calls \<^verbatim>\<open>activity.touch()\<close>.\<close>

definition touches :: "copy_event \<Rightarrow> bool" where
  "touches ev = (case ev of ReadSome _ \<Rightarrow> True | Wrote n \<Rightarrow> n \<noteq> 0 | _ \<Rightarrow> False)"

fun copy_run :: "direction \<Rightarrow> copy_event list \<Rightarrow> direction option" where
  "copy_run d [] = Some d"
| "copy_run d (ev # evs) = Option.bind (copy_step d ev) (\<lambda>d'. copy_run d' evs)"

text \<open>The peer sends more, or stops sending.\<close>

definition arrive :: "bytes \<Rightarrow> direction \<Rightarrow> direction" where
  "arrive bs d = (if d_eof d then d else d\<lparr>d_sent := d_sent d @ bs, d_in := d_in d @ bs\<rparr>)"

definition half_close :: "direction \<Rightarrow> direction" where
  "half_close d = d\<lparr>d_eof := True\<rparr>"

section \<open>Activity\<close>

type_synonym millis = nat

record Activity =
  ac_start :: millis
  ac_last_ms :: u64

definition new_activity :: "millis \<Rightarrow> Activity" where
  "new_activity now = \<lparr>ac_start = now, ac_last_ms = 0\<rparr>"

definition millis_u64 :: "millis \<Rightarrow> u64" where
  "millis_u64 ms = (if ms < 2 ^ 64 then of_nat ms else - 1)"

definition touch :: "millis \<Rightarrow> Activity \<Rightarrow> Activity" where
  "touch now ac = ac\<lparr>ac_last_ms := max (ac_last_ms ac) (millis_u64 (now - ac_start ac))\<rparr>"

definition idle_deadline :: "millis \<Rightarrow> Activity \<Rightarrow> millis" where
  "idle_deadline limit ac = ac_start ac + unat (ac_last_ms ac) + limit"

text \<open>One turn of \<^verbatim>\<open>idle_for\<close>: it is over, or it sleeps until the new deadline.\<close>

definition idle_check :: "millis \<Rightarrow> millis \<Rightarrow> Activity \<Rightarrow> millis option" where
  "idle_check limit now ac = (if idle_deadline limit ac \<le> now then None else Some (idle_deadline limit ac))"

section \<open>Both directions\<close>

definition IDLE_TIMEOUT :: millis where
  "IDLE_TIMEOUT = 300000"

datatype proxy_result = BothDone | Idle | ProxyErr io_error

text \<open>
  \<open>px_moved\<close> is when a byte was last taken from a source or given to a sink. It is there for the
  statements and is read off the directions themselves; the program has \<open>px_activity\<close>.
\<close>

record proxy =
  px_moved :: millis
  px_ab :: direction
  px_ba :: direction
  px_activity :: Activity
  px_now :: millis
  px_wake :: millis
  px_result :: "proxy_result option"

definition new_proxy :: "millis \<Rightarrow> proxy" where
  "new_proxy now =
     \<lparr>px_moved = now, px_ab = new_direction, px_ba = new_direction, px_activity = new_activity now, px_now = now,
      px_wake = now + IDLE_TIMEOUT, px_result = None\<rparr>"

definition joined :: "direction \<Rightarrow> direction \<Rightarrow> proxy_result option" where
  "joined a b =
     (case (d_phase a, d_phase b) of
        (CopyFailed e, _) \<Rightarrow> Some (ProxyErr e)
      | (_, CopyFailed e) \<Rightarrow> Some (ProxyErr e)
      | (Copied, Copied) \<Rightarrow> Some BothDone
      | _ \<Rightarrow> None)"

definition bytes_moved :: "direction \<Rightarrow> direction \<Rightarrow> bool" where
  "bytes_moved d d' \<longleftrightarrow> d_in d' \<noteq> d_in d \<or> d_out d' \<noteq> d_out d"

definition noted :: "copy_event \<Rightarrow> bool \<Rightarrow> proxy \<Rightarrow> proxy" where
  "noted ev moved w =
     w\<lparr>px_activity := (if touches ev then touch (px_now w) (px_activity w) else px_activity w),
       px_moved := (if moved then px_now w else px_moved w),
       px_result := joined (px_ab w) (px_ba w)\<rparr>"

inductive proxy_step :: "proxy \<Rightarrow> proxy \<Rightarrow> bool" where
  copy_ab: "px_result w = None \<Longrightarrow> copy_step (px_ab w) ev = Some d \<Longrightarrow>
    proxy_step w (noted ev (bytes_moved (px_ab w) d) (w\<lparr>px_ab := d\<rparr>))"
| copy_ba: "px_result w = None \<Longrightarrow> copy_step (px_ba w) ev = Some d \<Longrightarrow>
    proxy_step w (noted ev (bytes_moved (px_ba w) d) (w\<lparr>px_ba := d\<rparr>))"
| data_a: "proxy_step w (w\<lparr>px_ab := arrive bs (px_ab w)\<rparr>)"
| data_b: "proxy_step w (w\<lparr>px_ba := arrive bs (px_ba w)\<rparr>)"
| close_a: "proxy_step w (w\<lparr>px_ab := half_close (px_ab w)\<rparr>)"
| close_b: "proxy_step w (w\<lparr>px_ba := half_close (px_ba w)\<rparr>)"
| time_passes: "px_result w = None \<Longrightarrow> px_now w \<le> t \<Longrightarrow> t \<le> px_wake w \<Longrightarrow> proxy_step w (w\<lparr>px_now := t\<rparr>)"
| timer_again: "px_result w = None \<Longrightarrow> px_wake w \<le> px_now w \<Longrightarrow> idle_check IDLE_TIMEOUT (px_now w) (px_activity w) = Some t \<Longrightarrow>
    proxy_step w (w\<lparr>px_wake := t\<rparr>)"
| timer_over: "px_result w = None \<Longrightarrow> px_wake w \<le> px_now w \<Longrightarrow> idle_check IDLE_TIMEOUT (px_now w) (px_activity w) = None \<Longrightarrow>
    proxy_step w (w\<lparr>px_result := Some Idle\<rparr>)"

inductive proxy_reaches :: "millis \<Rightarrow> proxy \<Rightarrow> bool" for start where
  proxy_init: "proxy_reaches start (new_proxy start)"
| proxy_next: "proxy_reaches start w \<Longrightarrow> proxy_step w w' \<Longrightarrow> proxy_reaches start w'"

section \<open>Every byte arrives, once and in order\<close>

definition pending :: "direction \<Rightarrow> bytes" where
  "pending d = (case d_phase d of Writing chunk \<Rightarrow> chunk | _ \<Rightarrow> [])"

text \<open>
  What the sink has, what waits in the buffer and what waits to be read is what the source sent
  (after a failure, what the sink has is a prefix of it); the sink is told that there is no more
  only when the source has stopped and everything has been delivered.
\<close>

definition direction_ok :: "direction \<Rightarrow> bool" where
  "direction_ok d \<longleftrightarrow>
     (\<exists>lost. d_sent d = d_out d @ pending d @ lost @ d_in d \<and>
        ((\<exists>e. d_phase d = CopyFailed e) \<or> lost = [])) \<and>
     (\<forall>chunk. d_phase d = Writing chunk \<longrightarrow> chunk \<noteq> [] \<and> length chunk \<le> BUF_SIZE) \<and>
     (d_phase d = ShuttingDown \<longrightarrow> d_eof d \<and> d_in d = []) \<and>
     (d_phase d = Copied \<longleftrightarrow> d_shut d) \<and>
     (d_shut d \<longrightarrow> d_eof d \<and> d_out d = d_sent d)"

lemma direction_ok_new [simp]: "direction_ok new_direction"
  by (simp add: direction_ok_def new_direction_def pending_def)

lemma direction_ok_step:
  assumes "direction_ok d" "copy_step d ev = Some d'"
  shows "direction_ok d'"
  using assms unfolding copy_step_def direction_ok_def pending_def
  by (cases "d_phase d"; cases ev) (auto split: if_splits)

lemma direction_ok_arrive [simp]: "direction_ok d \<Longrightarrow> direction_ok (arrive bs d)"
  by (auto simp: arrive_def direction_ok_def pending_def split: copy_phase.splits)

lemma direction_ok_half_close [simp]: "direction_ok d \<Longrightarrow> direction_ok (half_close d)"
  by (auto simp: half_close_def direction_ok_def pending_def split: copy_phase.splits)

definition proxy_ok :: "proxy \<Rightarrow> bool" where
  "proxy_ok w \<longleftrightarrow> direction_ok (px_ab w) \<and> direction_ok (px_ba w) \<and>
     (px_result w = Some BothDone \<longrightarrow> d_phase (px_ab w) = Copied \<and> d_phase (px_ba w) = Copied)"

lemma joined_BothDone: "joined a b = Some BothDone \<Longrightarrow> d_phase a = Copied \<and> d_phase b = Copied"
  by (auto simp: joined_def split: copy_phase.splits)

lemma noted_simps [simp]:
  "px_ab (noted ev m w) = px_ab w" "px_ba (noted ev m w) = px_ba w" "px_now (noted ev m w) = px_now w" "px_wake (noted ev m w) = px_wake w"
  "px_result (noted ev m w) = joined (px_ab w) (px_ba w)"
  "px_moved (noted ev m w) = (if m then px_now w else px_moved w)"
  "px_activity (noted ev m w) = (if touches ev then touch (px_now w) (px_activity w) else px_activity w)"
  by (simp_all add: noted_def)

lemma phase_arrive [simp]: "d_phase (arrive bs d) = d_phase d" "d_phase (half_close d) = d_phase d"
  by (simp_all add: arrive_def half_close_def)

lemma proxy_ok_step: "proxy_step w w' \<Longrightarrow> proxy_ok w \<Longrightarrow> proxy_ok w'"
  by (induction rule: proxy_step.induct) (auto simp: proxy_ok_def dest: direction_ok_step joined_BothDone)

lemma proxy_ok_reaches: "proxy_reaches start w \<Longrightarrow> proxy_ok w"
proof (induction rule: proxy_reaches.induct)
  case proxy_init
  show ?case by (simp add: proxy_ok_def new_proxy_def)
next
  case proxy_next
  then show ?case by (blast intro: proxy_ok_step)
qed

text \<open>
  C7. A proxied connection is transparent. In every run, what either side has been given is a
  beginning of what the other has sent, so no byte is changed, reordered, duplicated or invented;
  a side is told that there is no more only when the other has stopped sending and everything has
  been delivered; and when the proxy ends without error or time-out, both have been told.
\<close>

theorem proxy_transparent:
  assumes "proxy_reaches start w"
  shows "(\<exists>rest. d_sent (px_ab w) = d_out (px_ab w) @ rest) \<and> (\<exists>rest. d_sent (px_ba w) = d_out (px_ba w) @ rest) \<and>
    (d_shut (px_ab w) \<longrightarrow> d_eof (px_ab w) \<and> d_out (px_ab w) = d_sent (px_ab w)) \<and>
    (d_shut (px_ba w) \<longrightarrow> d_eof (px_ba w) \<and> d_out (px_ba w) = d_sent (px_ba w)) \<and>
    (px_result w = Some BothDone \<longrightarrow> d_shut (px_ab w) \<and> d_shut (px_ba w))"
  using proxy_ok_reaches [OF assms] by (auto simp: proxy_ok_def direction_ok_def)

section \<open>The copy loop ends\<close>

definition copy_measure :: "direction \<Rightarrow> nat" where
  "copy_measure d =
     4 * length (d_in d) +
     (case d_phase d of
        Reading \<Rightarrow> 2 | Writing chunk \<Rightarrow> 2 * length chunk + 3 | Flushing \<Rightarrow> 3 | ShuttingDown \<Rightarrow> 1 | Copied \<Rightarrow> 0 | CopyFailed _ \<Rightarrow> 0)"

lemma copy_step_measure: "copy_step d ev = Some d' \<Longrightarrow> copy_measure d' < copy_measure d"
  unfolding copy_step_def copy_measure_def
  by (cases "d_phase d"; cases ev) (auto split: if_splits)

lemma copy_run_measure: "copy_run d evs = Some d' \<Longrightarrow> length evs + copy_measure d' \<le> copy_measure d"
proof (induction evs arbitrary: d)
  case (Cons ev evs)
  then obtain d1 where "copy_step d ev = Some d1" "copy_run d1 evs = Some d'" by (auto split: bind_splits)
  with Cons.IH copy_step_measure show ?case by fastforce
qed simp

lemma copy_run_ok: "copy_run d evs = Some d' \<Longrightarrow> direction_ok d \<Longrightarrow> direction_ok d'"
  by (induction evs arbitrary: d) (auto split: bind_splits dest: direction_ok_step)

lemma copy_run_eof: "copy_run d evs = Some d' \<Longrightarrow> d_eof d' = d_eof d \<and> d_sent d' = d_sent d"
proof (induction evs arbitrary: d)
  case (Cons ev evs)
  then obtain d1 where d1: "copy_step d ev = Some d1" "copy_run d1 evs = Some d'" by (auto split: bind_splits)
  have "d_eof d1 = d_eof d \<and> d_sent d1 = d_sent d"
    using d1(1) unfolding copy_step_def by (cases "d_phase d"; cases ev) (auto split: if_splits)
  with Cons.IH [OF d1(2)] show ?case by simp
qed simp

text \<open>Events other than a failing call, or a write that takes nothing.\<close>

definition proper :: "copy_event \<Rightarrow> bool" where
  "proper ev = (case ev of CallFailed _ \<Rightarrow> False | Wrote n \<Rightarrow> n \<noteq> 0 | _ \<Rightarrow> True)"

lemma copy_progress:
  assumes "direction_ok d" "d_eof d" "\<forall>ev. proper ev \<longrightarrow> copy_step d ev = None"
  shows "d_phase d = Copied \<or> (\<exists>e. d_phase d = CopyFailed e)"
proof -
  have stuck: "copy_step d ev = None" if "proper ev" for ev using assms(3) that by blast
  show ?thesis
  proof (cases "d_phase d")
    case Reading
    then have "copy_step d ReadEof \<noteq> None \<or> copy_step d (ReadSome 1) \<noteq> None"
      using assms(2) by (cases "d_in d") (simp_all add: copy_step_def BUF_SIZE_def)
    with stuck [of ReadEof] stuck [of "ReadSome 1"] show ?thesis by (simp add: proper_def)
  next
    case (Writing chunk)
    then have "copy_step d (Wrote 1) \<noteq> None"
      using assms(1) by (cases chunk) (simp_all add: copy_step_def direction_ok_def)
    with stuck [of "Wrote 1"] show ?thesis by (simp add: proper_def)
  next
    case Flushing
    with stuck [of Flushed] show ?thesis by (simp add: copy_step_def proper_def)
  next
    case ShuttingDown
    with stuck [of ShutDone] show ?thesis by (simp add: copy_step_def proper_def)
  qed auto
qed

text \<open>
  C27. The copy loop terminates. Between two arrivals of data it makes at most a number of steps
  that is linear in the bytes waiting; and once the source has stopped sending, a copy that can make
  no further step, other than by a failing call, has failed already, or has delivered everything and
  shut the sink down.
\<close>

theorem copy_terminates:
  assumes "direction_ok d" "copy_run d evs = Some d'"
  shows "length evs \<le> 4 * length (d_in d) + 2 * length (pending d) + 3 \<and>
    (d_eof d \<longrightarrow> (\<forall>ev. proper ev \<longrightarrow> copy_step d' ev = None) \<longrightarrow>
      (\<exists>e. d_phase d' = CopyFailed e) \<or> d_shut d' \<and> d_out d' = d_sent d)"
proof
  have "copy_measure d \<le> 4 * length (d_in d) + 2 * length (pending d) + 3"
    by (simp add: copy_measure_def pending_def split: copy_phase.split)
  then show "length evs \<le> 4 * length (d_in d) + 2 * length (pending d) + 3"
    using copy_run_measure [OF assms(2)] by linarith
next
  have ok: "direction_ok d'" using assms by (rule copy_run_ok [rotated])
  show "d_eof d \<longrightarrow> (\<forall>ev. proper ev \<longrightarrow> copy_step d' ev = None) \<longrightarrow> (\<exists>e. d_phase d' = CopyFailed e) \<or> d_shut d' \<and> d_out d' = d_sent d"
  proof (intro impI)
    assume "d_eof d" "\<forall>ev. proper ev \<longrightarrow> copy_step d' ev = None"
    then have "d_phase d' = Copied \<or> (\<exists>e. d_phase d' = CopyFailed e)"
      using copy_progress [OF ok] copy_run_eof [OF assms(2)] by simp
    then show "(\<exists>e. d_phase d' = CopyFailed e) \<or> d_shut d' \<and> d_out d' = d_sent d"
      using ok copy_run_eof [OF assms(2)] by (auto simp: direction_ok_def)
  qed
qed

section \<open>Idle connections are closed in time\<close>

definition timer_ok :: "millis \<Rightarrow> proxy \<Rightarrow> bool" where
  "timer_ok start w \<longleftrightarrow> ac_start (px_activity w) = start \<and> start \<le> px_moved w \<and> px_moved w \<le> px_now w \<and>
     (px_now w < start + 2 ^ 64 \<longrightarrow>
        start + unat (ac_last_ms (px_activity w)) = px_moved w \<and> px_now w \<le> px_wake w \<and> px_wake w \<le> px_moved w + IDLE_TIMEOUT) \<and>
     (px_now w < start + 2 ^ 64 \<longrightarrow> px_result w = Some Idle \<longrightarrow> px_now w = px_moved w + IDLE_TIMEOUT)"

lemma touch_now:
  assumes "start \<le> m" "m \<le> now" "now < start + 2 ^ 64" "ac_start ac = start" "start + unat (ac_last_ms ac) = m"
  shows "start + unat (ac_last_ms (touch now ac)) = now \<and> ac_start (touch now ac) = start"
proof -
  have "unat (of_nat (now - start) :: u64) = now - start"
    using assms(3) by (simp add: unat_of_nat take_bit_nat_eq_self)
  moreover have "ac_last_ms ac \<le> of_nat (now - start)"
    using calculation assms by (simp add: word_le_nat_alt)
  ultimately show ?thesis
    using assms less_diff_conv2 [of start now "2 ^ 64"] by (simp add: touch_def millis_u64_def max_def)
qed

lemma joined_not_Idle [simp]: "joined a b \<noteq> Some Idle"
  by (auto simp: joined_def split: copy_phase.splits)

lemma ac_start_touch [simp]: "ac_start (touch now ac) = ac_start ac"
  by (simp add: touch_def)

text \<open>The loop touches the clock exactly when it has moved bytes.\<close>

lemma touches_iff_moved: "copy_step d ev = Some d' \<Longrightarrow> bytes_moved d d' = touches ev"
  unfolding copy_step_def bytes_moved_def touches_def
  by (cases "d_phase d"; cases ev) (auto split: if_splits dest: arg_cong [of _ _ length])

lemma timer_ok_step: "proxy_step w w' \<Longrightarrow> timer_ok start w \<Longrightarrow> timer_ok start w'"
proof (induction rule: proxy_step.induct)
  case (copy_ab w ev d)
  then show ?case
    using touch_now [of start "px_moved w" "px_now w" "px_activity w"] by (auto simp: timer_ok_def touches_iff_moved)
next
  case (copy_ba w ev d)
  then show ?case
    using touch_now [of start "px_moved w" "px_now w" "px_activity w"] by (auto simp: timer_ok_def touches_iff_moved)
next
  case (timer_again w t)
  then show ?case by (auto simp: timer_ok_def idle_check_def idle_deadline_def split: if_splits)
next
  case (timer_over w)
  then show ?case by (auto simp: timer_ok_def idle_check_def idle_deadline_def split: if_splits)
qed (auto simp: timer_ok_def)

lemma timer_ok_reaches: "proxy_reaches start w \<Longrightarrow> timer_ok start w"
proof (induction rule: proxy_reaches.induct)
  case proxy_init
  show ?case by (simp add: timer_ok_def new_proxy_def new_activity_def)
next
  case proxy_next
  then show ?case by (blast intro: timer_ok_step)
qed

text \<open>
  C29. The idle time-out is exact. A proxy ends as idle only when no byte has been taken from
  either side nor given to either side for five minutes, however long one direction alone has been
  quiet; and it is never still running later than five minutes after the last byte moved (while the
  connection is younger than \<open>2^64\<close> milliseconds).
\<close>

theorem idle_timeout_exact:
  assumes "proxy_reaches start w" "px_now w < start + 2 ^ 64"
  shows "(px_result w = Some Idle \<longrightarrow> px_now w = px_moved w + 300000) \<and>
    (px_result w = None \<longrightarrow> px_now w \<le> px_moved w + 300000)"
  using timer_ok_reaches [OF assms(1)] assms(2) by (auto simp: timer_ok_def IDLE_TIMEOUT_def)

section \<open>Witnesses\<close>

lemma sample_direction:
  "copy_run (half_close (arrive [1, 2, 3] new_direction)) [ReadSome 2, Wrote 1, Wrote 1, Flushed, ReadSome 1, Wrote 1, Flushed, ReadEof, ShutDone]
     = Some \<lparr>d_sent = [1, 2, 3], d_in = [], d_eof = True, d_phase = Copied, d_out = [1, 2, 3], d_shut = True\<rparr>"
  by (simp add: copy_step_def half_close_def arrive_def new_direction_def BUF_SIZE_def)

theorem proxy_transparent_witness:
  "\<exists>w. proxy_reaches 0 w \<and> d_sent (px_ab w) = [7, 8] \<and> d_out (px_ab w) = [7] \<and> (\<exists>rest. d_sent (px_ab w) = d_out (px_ab w) @ rest)"
proof -
  let ?w1 = "(new_proxy 0)\<lparr>px_ab := arrive [7, 8] (px_ab (new_proxy 0))\<rparr>"
  have r1: "proxy_reaches 0 ?w1" by (rule proxy_next [OF proxy_init data_a])
  have c1: "copy_step (px_ab ?w1) (ReadSome 1) = Some ((px_ab ?w1)\<lparr>d_in := [8], d_phase := Writing [7]\<rparr>)" "px_result ?w1 = None"
    by (simp_all add: new_proxy_def new_direction_def arrive_def copy_step_def BUF_SIZE_def)
  have r2: "proxy_reaches 0 (noted (ReadSome 1) True (?w1\<lparr>px_ab := (px_ab ?w1)\<lparr>d_in := [8], d_phase := Writing [7]\<rparr>\<rparr>))" (is "proxy_reaches 0 ?w2")
    using proxy_next [OF r1 copy_ab [OF c1(2,1)]] by (simp add: bytes_moved_def new_proxy_def new_direction_def arrive_def)
  have c2: "copy_step (px_ab ?w2) (Wrote 1) = Some ((px_ab ?w2)\<lparr>d_out := [7], d_phase := Flushing\<rparr>)" "px_result ?w2 = None"
    by (simp_all add: new_proxy_def new_direction_def arrive_def copy_step_def joined_def)
  have r3: "proxy_reaches 0 (noted (Wrote 1) True (?w2\<lparr>px_ab := (px_ab ?w2)\<lparr>d_out := [7], d_phase := Flushing\<rparr>\<rparr>))"
    using proxy_next [OF r2 copy_ab [OF c2(2,1)]] by (simp add: bytes_moved_def new_proxy_def new_direction_def arrive_def)
  show ?thesis using r3 proxy_transparent [OF r3] by (intro exI conjI) (assumption, simp_all add: new_proxy_def new_direction_def arrive_def)
qed

theorem copy_terminates_witness:
  "direction_ok (half_close (arrive [1, 2, 3] new_direction)) \<and>
   length [ReadSome 2, Wrote 1, Wrote 1, Flushed, ReadSome 1, Wrote 1, Flushed, ReadEof, ShutDone] \<le> 4 * length [1, 2, 3 :: u8] + 3"
proof -
  have "direction_ok (half_close (arrive [1, 2, 3] new_direction))" by simp
  from copy_terminates [OF this sample_direction] this show ?thesis
    by (simp add: half_close_def arrive_def new_direction_def pending_def)
qed

text \<open>A byte is read a second after the start, and the proxy is closed five minutes later.\<close>

theorem idle_timeout_exact_witness:
  "\<exists>w. proxy_reaches 0 w \<and> px_result w = Some Idle \<and> px_moved w = 1000 \<and> px_now w = 301000"
proof -
  let ?wa = "(new_proxy 0)\<lparr>px_ab := arrive [7] new_direction\<rparr>"
  let ?wb = "?wa\<lparr>px_now := 1000\<rparr>"
  let ?wc = "noted (ReadSome 1) True (?wb\<lparr>px_ab := (px_ab ?wb)\<lparr>d_in := [], d_phase := Writing [7]\<rparr>\<rparr>)"
  let ?wd = "?wc\<lparr>px_now := 300000\<rparr>"
  let ?we = "(?wd\<lparr>px_wake := 301000\<rparr>)\<lparr>px_now := 301000\<rparr>"
  note defs = new_proxy_def new_direction_def arrive_def IDLE_TIMEOUT_def new_activity_def joined_def
  have deadline: "idle_deadline IDLE_TIMEOUT (px_activity ?wc) = 301000"
    by (simp add: defs touches_def touch_def millis_u64_def idle_deadline_def max_def)
  have "proxy_reaches 0 ?wa" using proxy_next [OF proxy_init data_a, of 0 "[7]"] by (simp add: new_proxy_def)
  then have b: "proxy_reaches 0 ?wb" by (rule proxy_next [OF _ time_passes]) (simp_all add: defs)
  have "copy_step (px_ab ?wb) (ReadSome 1) = Some ((px_ab ?wb)\<lparr>d_in := [], d_phase := Writing [7]\<rparr>)"
    by (simp add: defs copy_step_def BUF_SIZE_def)
  from proxy_next [OF b copy_ab [OF _ this]] have "proxy_reaches 0 ?wc" by (simp add: defs bytes_moved_def)
  then have d: "proxy_reaches 0 ?wd" by (rule proxy_next [OF _ time_passes]) (simp_all add: defs)
  have "idle_check IDLE_TIMEOUT (px_now ?wd) (px_activity ?wd) = Some 301000" using deadline by (simp add: idle_check_def)
  then have "proxy_reaches 0 (?wd\<lparr>px_wake := 301000\<rparr>)" by (intro proxy_next [OF d timer_again]) (simp_all add: defs)
  then have e: "proxy_reaches 0 ?we" by (rule proxy_next [OF _ time_passes]) (simp_all add: defs)
  have "idle_check IDLE_TIMEOUT (px_now ?we) (px_activity ?we) = None" using deadline by (simp add: idle_check_def)
  then have f: "proxy_reaches 0 (?we\<lparr>px_result := Some Idle\<rparr>)" by (intro proxy_next [OF e timer_over]) (simp_all add: defs)
  have "px_now (?we\<lparr>px_result := Some Idle\<rparr>) = px_moved (?we\<lparr>px_result := Some Idle\<rparr>) + 300000"
    using idle_timeout_exact [OF f] by simp
  with f show ?thesis by (intro exI [of _ "?we\<lparr>px_result := Some Idle\<rparr>"]) simp
qed

end
