(* ===== verification/Mux_Session.thy ===== *)
theory Mux_Session
  imports Proxy "HOL-Library.Sublist"
begin

text \<open>
  A multiplexed session on the subscriber's side (\<^verbatim>\<open>src/mux.rs\<close>): callers ask for streams over a
  bounded channel, and a driver task takes their requests one at a time to the \<^verbatim>\<open>yamux\<close> connection.
  The crate is a parameter: what its polls return is part of each event. The channel and the oneshot
  cells that carry the answers are \<^verbatim>\<open>tokio\<close>'s: a caller that finds the channel full waits its turn,
  and gets the next slot that comes free; when the receiving end of the channel is dropped, a waiting
  sender fails and the cells still in the channel are dropped, which their callers notice.
\<close>

section \<open>The driver\<close>

datatype conn_error = Closed | YamuxError string

type_synonym stream_result = "conn_error + conn"

definition CHANNEL_CAPACITY :: nat where
  "CHANNEL_CAPACITY = 64"

text \<open>
  Calls of \<^verbatim>\<open>open_stream\<close> are numbered in the order they are made. A call's cell is with a caller
  waiting for a slot, in the channel or pending at the driver, until it is answered (\<open>dr_log\<close>) or
  dropped unanswered (\<open>dr_dropped\<close>). \<open>dr_gone\<close> are the calls whose caller has gone away.
\<close>

record driver =
  dr_next :: nat
  dr_blocked :: "nat list"
  dr_queue :: "nat list"
  dr_pending :: "nat option"
  dr_log :: "(nat \<times> stream_result) list"
  dr_dropped :: "nat list"
  dr_gone :: "nat set"
  dr_handles :: bool
  dr_finished :: bool

definition new_driver :: driver where
  "new_driver = \<lparr>dr_next = 0, dr_blocked = [], dr_queue = [], dr_pending = None, dr_log = [], dr_dropped = [],
     dr_gone = {}, dr_handles = True, dr_finished = False\<rparr>"

definition in_hand :: "driver \<Rightarrow> nat list" where
  "in_hand d = (case dr_pending d of Some r \<Rightarrow> [r] | None \<Rightarrow> []) @ dr_queue d"

text \<open>What one poll finds: a finished attempt to open a stream, and what the connection delivers.\<close>

datatype inbound = NothingYet | StreamIn | SessionOver

record mux_poll =
  mp_outbound :: "stream_result option"
  mp_inbound :: inbound

definition serve_pending :: "mux_poll \<Rightarrow> driver \<Rightarrow> driver" where
  "serve_pending p d =
     (case dr_pending d of
        None \<Rightarrow> d
      | Some r \<Rightarrow>
          if r \<in> dr_gone d then d\<lparr>dr_pending := None, dr_dropped := dr_dropped d @ [r]\<rparr>
          else (case mp_outbound p of
                  Some result \<Rightarrow> d\<lparr>dr_pending := None, dr_log := dr_log d @ [(r, result)]\<rparr>
                | None \<Rightarrow> d))"

text \<open>The driver returns: the pending cell and the receiving end of the channel are dropped.\<close>

definition end_session :: "driver \<Rightarrow> driver" where
  "end_session d =
     d\<lparr>dr_dropped := dr_dropped d @ in_hand d @ dr_blocked d, dr_pending := None, dr_queue := [], dr_blocked := [],
       dr_finished := True\<rparr>"

text \<open>Receiving a request frees a slot, which goes to the caller that has waited longest.\<close>

definition take_request :: "driver \<Rightarrow> driver" where
  "take_request d =
     (if dr_pending d \<noteq> None then d
      else (case dr_queue d of
              r # rs \<Rightarrow> d\<lparr>dr_pending := Some r, dr_queue := rs @ take 1 (dr_blocked d), dr_blocked := drop 1 (dr_blocked d)\<rparr>
            | [] \<Rightarrow> if dr_handles d then d else end_session d))"

definition drive_poll :: "mux_poll \<Rightarrow> driver \<Rightarrow> driver" where
  "drive_poll p d =
     (let d1 = take_request (serve_pending p d) in
      if dr_finished d1 then d1
      else if mp_inbound p = SessionOver then end_session d1 else d1)"

text \<open>
  A call of \<^verbatim>\<open>open_stream\<close>: sending fails at once when the driver is gone, and waits when the
  channel is full. A caller that goes away gives up its turn; a cell already in the channel stays.
\<close>

definition send_request :: "driver \<Rightarrow> driver" where
  "send_request d =
     (let r = dr_next d; d1 = d\<lparr>dr_next := r + 1\<rparr> in
      if dr_finished d then d1\<lparr>dr_dropped := dr_dropped d @ [r]\<rparr>
      else if dr_blocked d = [] \<and> length (dr_queue d) < CHANNEL_CAPACITY then d1\<lparr>dr_queue := dr_queue d @ [r]\<rparr>
      else d1\<lparr>dr_blocked := dr_blocked d @ [r]\<rparr>)"

definition leave_request :: "nat \<Rightarrow> driver \<Rightarrow> driver" where
  "leave_request r d = d\<lparr>dr_gone := insert r (dr_gone d), dr_blocked := filter ((\<noteq>) r) (dr_blocked d)\<rparr>"

text \<open>What a caller of \<^verbatim>\<open>open_stream\<close> has been told; \<open>None\<close> while it waits.\<close>

definition open_stream_answer :: "driver \<Rightarrow> nat \<Rightarrow> stream_result option" where
  "open_stream_answer d r =
     (case map_of (dr_log d) r of
        Some result \<Rightarrow> Some result
      | None \<Rightarrow> if r \<in> set (dr_dropped d) then Some (Inl Closed) else None)"

text \<open>A caller that waits for a slot still holds its handle.\<close>

datatype driver_event = Request | Leave nat | HandlesDropped | Polled mux_poll

inductive driver_step :: "driver \<Rightarrow> driver_event \<Rightarrow> driver \<Rightarrow> bool" where
  request: "dr_handles d \<Longrightarrow> driver_step d Request (send_request d)"
| caller_leaves: "r < dr_next d \<Longrightarrow> driver_step d (Leave r) (leave_request r d)"
| handles_dropped: "dr_blocked d = [] \<Longrightarrow> driver_step d HandlesDropped (d\<lparr>dr_handles := False\<rparr>)"
| polled: "\<not> dr_finished d \<Longrightarrow> driver_step d (Polled p) (drive_poll p d)"

inductive driver_run :: "driver \<Rightarrow> driver_event list \<Rightarrow> driver \<Rightarrow> bool" for d where
  run_start: "driver_run d [] d"
| run_step: "driver_run d evs d1 \<Longrightarrow> driver_step d1 ev d2 \<Longrightarrow> driver_run d (evs @ [ev]) d2"

section \<open>Setting a session up\<close>

record mux_env =
  me_connect :: "string \<Rightarrow> bool"
  me_tls :: "string \<Rightarrow> bool"
  me_send :: "string \<Rightarrow> Message \<Rightarrow> bool"

definition establish_mux_session :: "mux_env \<Rightarrow> SharedState \<Rightarrow> string \<Rightarrow> string + driver" where
  "establish_mux_session env st addr =
     (if \<not> me_connect env addr then Inl (''mux connect to '' @ addr)
      else if \<not> (ss_tls st \<and> me_tls env addr) then Inl ''mux TLS connect''
      else if \<not> me_send env addr MuxTunnel then Inl ''send MuxTunnel''
      else Inr new_driver)"

text \<open>
  The node's side of a session: every stream that arrives is counted as work and handled by itself,
  at its own time and on the state there is then, until the session ends or fails. The result is how
  each stream was answered.
\<close>

fun handle_mux_session ::
  "wire_lib \<Rightarrow> local_net \<Rightarrow> (string + bytes \<times> SharedState \<times> u64) list \<Rightarrow> u64 \<Rightarrow>
     u64 \<times> (string + bytes \<times> tunnel_outcome) list" where
  "handle_mux_session wlib net [] n = (n, [])"
| "handle_mux_session wlib net (Inl e # rest) n = (n, [])"
| "handle_mux_session wlib net (Inr (input, st, now_ms) # rest) n =
     (case handle_mux_session wlib net rest (in_flight_track n) of
        (m, answers) \<Rightarrow> (m, handle_mux_stream wlib net st now_ms input # answers))"

section \<open>Requests keep their order, and none is lost\<close>

abbreviation waiting :: "driver \<Rightarrow> nat list" where
  "waiting d \<equiv> in_hand d @ dr_blocked d"

definition driver_ok :: "driver \<Rightarrow> bool" where
  "driver_ok d \<longleftrightarrow>
     sorted_wrt (<) (map fst (dr_log d) @ waiting d) \<and> (\<forall>r \<in> set (map fst (dr_log d) @ waiting d). r < dr_next d) \<and>
     {..<dr_next d} \<subseteq> dr_gone d \<union> fst ` set (dr_log d) \<union> set (dr_dropped d) \<union> set (waiting d) \<and>
     length (dr_queue d) \<le> CHANNEL_CAPACITY \<and> (dr_blocked d \<noteq> [] \<longrightarrow> length (dr_queue d) = CHANNEL_CAPACITY) \<and>
     (dr_finished d \<longrightarrow> waiting d = []) \<and> (\<forall>r \<in> set (dr_dropped d). r \<in> dr_gone d \<or> dr_finished d)"

lemma driver_ok_new: "driver_ok new_driver"
  by (simp add: driver_ok_def new_driver_def in_hand_def)

lemma driver_ok_serve: "driver_ok d \<Longrightarrow> driver_ok (serve_pending p d)"
  by (auto simp: driver_ok_def serve_pending_def in_hand_def sorted_wrt_append split: option.splits)

lemma driver_ok_end: "driver_ok d \<Longrightarrow> driver_ok (end_session d)"
  by (auto simp: driver_ok_def end_session_def in_hand_def sorted_wrt_append)

lemma take_request_waiting:
  assumes "dr_pending d = None" "dr_queue d = r # rs"
  shows "waiting (take_request d) = waiting d" "dr_pending (take_request d) = Some r"
  using assms by (simp_all add: take_request_def in_hand_def del: One_nat_def)

lemma driver_ok_take: "driver_ok d \<Longrightarrow> driver_ok (take_request d)"
proof (cases "dr_queue d")
  case (Cons r rs)
  assume ok: "driver_ok d"
  show ?thesis
  proof (cases "dr_pending d")
    case None
    with ok take_request_waiting [OF None Cons] Cons show ?thesis
      by (cases "dr_blocked d") (auto simp: driver_ok_def take_request_def in_hand_def)
  qed (use ok in \<open>simp add: take_request_def\<close>)
qed (simp add: take_request_def driver_ok_end)

lemma driver_ok_poll: "driver_ok d \<Longrightarrow> driver_ok (drive_poll p d)"
  by (simp add: drive_poll_def Let_def driver_ok_serve driver_ok_take driver_ok_end)

lemma send_request_waiting: "waiting (send_request d) = waiting d @ (if dr_finished d then [] else [dr_next d])"
  by (auto simp: send_request_def in_hand_def Let_def)

lemma driver_ok_send: "driver_ok d \<Longrightarrow> driver_ok (send_request d)"
proof -
  assume ok: "driver_ok d"
  let ?d = "send_request d" and ?known = "map fst (dr_log d) @ waiting d"
  have frame: "dr_log ?d = dr_log d" "dr_next ?d = Suc (dr_next d)" "dr_gone ?d = dr_gone d" "dr_finished ?d = dr_finished d"
    "set (dr_dropped ?d) = set (dr_dropped d) \<union> (if dr_finished d then {dr_next d} else {})"
    by (auto simp: send_request_def Let_def)
  have "sorted_wrt (<) (?known @ [dr_next d])" "\<forall>r \<in> set ?known. r < Suc (dr_next d)"
    using ok by (auto simp: driver_ok_def sorted_wrt_append less_Suc_eq)
  moreover have "length (dr_queue ?d) \<le> CHANNEL_CAPACITY" "dr_blocked ?d \<noteq> [] \<longrightarrow> length (dr_queue ?d) = CHANNEL_CAPACITY"
    using ok by (auto simp: driver_ok_def send_request_def Let_def)
  ultimately show ?thesis
    using ok unfolding driver_ok_def send_request_waiting frame lessThan_Suc
    by (auto simp: sorted_wrt_append)
qed

lemma driver_ok_leave: "driver_ok d \<Longrightarrow> driver_ok (leave_request r d)"
  by (auto simp: driver_ok_def leave_request_def in_hand_def sorted_wrt_append intro: sorted_wrt_filter)

lemma driver_ok_step: "driver_step d ev d' \<Longrightarrow> driver_ok d \<Longrightarrow> driver_ok d'"
  by (induction rule: driver_step.induct)
    (auto simp: driver_ok_send driver_ok_leave driver_ok_poll, simp add: driver_ok_def in_hand_def)

lemma driver_ok_run: "driver_run d evs d' \<Longrightarrow> driver_ok d \<Longrightarrow> driver_ok d'"
  by (induction rule: driver_run.induct) (auto intro: driver_ok_step)

lemma answered:
  assumes "driver_ok d" "r < dr_next d" "r \<notin> dr_gone d" "r \<notin> set (waiting d)"
  shows "open_stream_answer d r \<noteq> None"
proof -
  have "r \<in> fst ` set (dr_log d) \<union> set (dr_dropped d)" using assms by (auto simp: driver_ok_def)
  then show ?thesis by (auto simp: open_stream_answer_def map_of_eq_None_iff split: option.splits)
qed

section \<open>A waiting caller is served\<close>

definition ready :: "driver_event \<Rightarrow> bool" where
  "ready ev = (case ev of Polled p \<Rightarrow> mp_outbound p \<noteq> None | _ \<Rightarrow> False)"

definition ahead :: "nat \<Rightarrow> driver \<Rightarrow> nat" where
  "ahead r d = length (takeWhile ((\<noteq>) r) (waiting d))"

definition turns_left :: "nat \<Rightarrow> driver \<Rightarrow> nat" where
  "turns_left r d = ahead r d + (if dr_pending d = None then 2 else 1)"

lemma takeWhile_filter_le: "length (takeWhile P (xs @ filter Q ys)) \<le> length (takeWhile P (xs @ ys))"
  if "\<And>y. \<not> P y \<Longrightarrow> Q y"
proof (induction xs)
  case Nil
  show ?case using that by (induction ys) auto
qed simp

lemma ahead_snoc: "r \<in> set (waiting d) \<Longrightarrow> waiting d' = waiting d @ ys \<Longrightarrow> ahead r d' = ahead r d"
  using takeWhile_append1 [of r "waiting d" "(\<noteq>) r" ys] by (simp add: ahead_def)

lemma turns_left_send: "r \<in> set (waiting d) \<Longrightarrow> turns_left r (send_request d) = turns_left r d"
  using ahead_snoc [OF _ send_request_waiting, of r d] by (auto simp: turns_left_def send_request_def Let_def)

lemma turns_left_leave: "k \<noteq> r \<Longrightarrow> turns_left r (leave_request k d) \<le> turns_left r d"
  using takeWhile_filter_le [of "(\<noteq>) r" "(\<noteq>) k" "in_hand d" "dr_blocked d"]
  by (auto simp: turns_left_def ahead_def leave_request_def in_hand_def)

lemma waiting_take: "r \<in> set (waiting (take_request d)) \<Longrightarrow> r \<in> set (waiting d)"
proof -
  assume r: "r \<in> set (waiting (take_request d))"
  show ?thesis
  proof (cases "dr_pending d")
    case None
    with r take_request_waiting(1) [OF None] show ?thesis
      by (cases "dr_queue d") (auto simp: take_request_def end_session_def in_hand_def split: if_splits)
  qed (use r in \<open>simp add: take_request_def\<close>)
qed

lemma take_request_turns:
  assumes "driver_ok d" "r \<in> set (waiting d)"
  shows "turns_left r (take_request d) = ahead r d + 1"
proof (cases "dr_pending d")
  case None
  then obtain k ks where "dr_queue d = k # ks"
    using assms by (cases "dr_queue d") (auto simp: driver_ok_def in_hand_def CHANNEL_CAPACITY_def)
  from take_request_waiting [OF None this] show ?thesis by (simp add: turns_left_def ahead_def)
qed (simp add: turns_left_def take_request_def)

lemma serve_pending_turns:
  assumes "driver_ok d" "r \<in> set (waiting (serve_pending p d))"
  shows "r \<in> set (waiting d) \<and> ahead r (serve_pending p d) + (if mp_outbound p \<noteq> None then 1 else 0) < turns_left r d"
proof (cases "dr_pending d")
  case None
  with assms show ?thesis by (simp add: serve_pending_def turns_left_def)
next
  case (Some k)
  have "distinct (waiting d)" using assms(1) by (auto simp: driver_ok_def sorted_wrt_append strict_sorted_iff)
  with Some have "k \<notin> set (dr_queue d @ dr_blocked d)" by (simp add: in_hand_def)
  with Some assms(2) show ?thesis
    by (auto simp: serve_pending_def turns_left_def ahead_def in_hand_def split: option.splits if_splits)
qed

lemma poll_turns:
  assumes "driver_ok d" "r \<in> set (waiting (drive_poll p d))"
  shows "r \<in> set (waiting d) \<and>
    turns_left r (drive_poll p d) + (if mp_outbound p \<noteq> None then 1 else 0) \<le> turns_left r d \<and> mp_inbound p \<noteq> SessionOver"
proof -
  let ?d1 = "serve_pending p d" and ?d2 = "take_request (serve_pending p d)"
  have ended: "waiting (end_session x) = []" for x by (simp add: end_session_def in_hand_def)
  have ok: "driver_ok ?d1" "driver_ok ?d2" using assms(1) by (simp_all add: driver_ok_serve driver_ok_take)
  have d2: "drive_poll p d = ?d2 \<and> \<not> dr_finished ?d2 \<and> mp_inbound p \<noteq> SessionOver"
    using assms(2) ended ok(2) by (auto simp: drive_poll_def Let_def driver_ok_def split: if_splits)
  then have r: "r \<in> set (waiting ?d1)" using assms(2) waiting_take by metis
  from serve_pending_turns [OF assms(1) r] take_request_turns [OF ok(1) r] d2 show ?thesis by auto
qed

lemma step_turns:
  assumes "driver_step d ev d'" "driver_ok d" "r \<in> set (waiting d')" "r < dr_next d" "r \<notin> dr_gone d'"
  shows "r \<in> set (waiting d) \<and> turns_left r d' + (if ready ev then 1 else 0) \<le> turns_left r d \<and>
    (\<forall>p. ev = Polled p \<longrightarrow> mp_inbound p \<noteq> SessionOver)"
  using assms
proof (induction rule: driver_step.induct)
  case (request d)
  then have "r \<in> set (waiting d)" using send_request_waiting [of d] by (auto split: if_splits)
  then show ?case using turns_left_send by (simp add: ready_def)
next
  case (caller_leaves k d)
  then show ?case using turns_left_leave [of k r d] by (auto simp: ready_def leave_request_def in_hand_def)
next
  case (handles_dropped d)
  then show ?case by (simp add: ready_def turns_left_def ahead_def in_hand_def)
next
  case (polled d p)
  then show ?case using poll_turns [of d r p] by (simp add: ready_def)
qed

lemma step_grows: "driver_step d ev d' \<Longrightarrow> dr_next d \<le> dr_next d' \<and> dr_gone d \<subseteq> dr_gone d'"
  by (induction rule: driver_step.induct)
    (auto simp: send_request_def Let_def leave_request_def drive_poll_def serve_pending_def take_request_def end_session_def
      split: option.splits list.splits)

lemma run_grows: "driver_run d evs d' \<Longrightarrow> dr_next d \<le> dr_next d' \<and> dr_gone d \<subseteq> dr_gone d'"
  by (induction rule: driver_run.induct) (auto dest: step_grows)

lemma run_turns:
  assumes "driver_run d evs d'" "driver_ok d" "r \<in> set (waiting d')" "r < dr_next d" "r \<notin> dr_gone d'"
  shows "r \<in> set (waiting d) \<and> turns_left r d' + length (filter ready evs) \<le> turns_left r d \<and>
    (\<forall>p. Polled p \<in> set evs \<longrightarrow> mp_inbound p \<noteq> SessionOver)"
  using assms
proof (induction rule: driver_run.induct)
  case (run_step evs d1 ev d2)
  have "driver_ok d1" using run_step.hyps(1) run_step.prems(1) by (rule driver_ok_run)
  moreover have "r < dr_next d1" using run_grows [OF run_step.hyps(1)] run_step.prems(3) by simp
  ultimately have s: "r \<in> set (waiting d1)" "turns_left r d2 + (if ready ev then 1 else 0) \<le> turns_left r d1"
      "\<forall>p. ev = Polled p \<longrightarrow> mp_inbound p \<noteq> SessionOver"
    using step_turns [OF run_step.hyps(2)] run_step.prems by blast+
  have "r \<notin> dr_gone d1" using step_grows [OF run_step.hyps(2)] run_step.prems(4) by blast
  from run_step.IH [OF run_step.prems(1) s(1) run_step.prems(3) this] s show ?case by auto
qed simp

text \<open>What the attempts to open a stream came to, in the order of the polls.\<close>

definition outcomes :: "driver_event list \<Rightarrow> stream_result list" where
  "outcomes evs = concat (map (\<lambda>ev. case ev of Polled p \<Rightarrow> (case mp_outbound p of Some x \<Rightarrow> [x] | None \<Rightarrow> []) | _ \<Rightarrow> []) evs)"

lemma step_log: "driver_step d ev d' \<Longrightarrow> \<exists>new. map snd (dr_log d') = map snd (dr_log d) @ new \<and> subseq new (outcomes [ev])"
  by (induction rule: driver_step.induct)
    (auto simp: send_request_def Let_def leave_request_def drive_poll_def serve_pending_def take_request_def end_session_def outcomes_def
      split: option.splits list.splits)

lemma run_log: "driver_run new_driver evs d \<Longrightarrow> subseq (map snd (dr_log d)) (outcomes evs)"
proof (induction rule: driver_run.induct)
  case (run_step evs d1 ev d2)
  then obtain new where "map snd (dr_log d2) = map snd (dr_log d1) @ new" "subseq new (outcomes [ev])" using step_log by blast
  moreover have "outcomes (evs @ [ev]) = outcomes evs @ outcomes [ev]" by (simp add: outcomes_def)
  ultimately show ?case using run_step.IH by (simp add: list_emb_append_mono)
qed (simp add: new_driver_def)

text \<open>A session that nobody can use any more, and that has nothing in hand, ends at the next poll.\<close>

definition unused :: "driver \<Rightarrow> bool" where
  "unused d \<longleftrightarrow> \<not> dr_handles d \<and> waiting d = []"

lemma unused_step: "driver_step d ev d' \<Longrightarrow> unused d \<or> dr_finished d \<Longrightarrow>
    (dr_finished d' \<or> unused d' \<and> (\<forall>p. ev \<noteq> Polled p)) \<and> (dr_finished d \<longrightarrow> dr_finished d')"
  by (induction rule: driver_step.induct)
    (auto simp: unused_def send_request_def Let_def leave_request_def in_hand_def drive_poll_def serve_pending_def take_request_def
      end_session_def split: option.splits)

lemma unused_ends:
  assumes "driver_run d evs d'" "unused d"
  shows "(unused d' \<or> dr_finished d') \<and> ((\<exists>p. Polled p \<in> set evs) \<longrightarrow> dr_finished d')"
  using assms
proof (induction rule: driver_run.induct)
  case (run_step evs d1 ev d2)
  then show ?case using unused_step [OF run_step.hyps(2)] by auto
qed simp

text \<open>
  C28. Nobody who asks for a stream is left waiting. Take any run of a session, from its start to
  some moment and on from there. A caller that had asked by that moment, and has not gone away, has
  its answer as soon as the session has ended, as soon as a poll has found the connection over, and in
  any case once the connection has been able to open a stream at as many polls as there were requests
  ahead of its own, and two more. Requests are answered in the order they were made, each with the
  outcome of an attempt of its own; at most 65 are in the driver's hands, and the others wait for a
  slot; nobody who is still there is turned away while the session lives; and a session whose handles are
  all gone ends at the next poll once nothing is left to serve.
\<close>

theorem mux_requests_served:
  assumes "driver_run new_driver before d" "driver_run d later d'"
  shows "(\<forall>r < dr_next d. r \<notin> dr_gone d' \<longrightarrow>
      dr_finished d' \<or> (\<exists>p. Polled p \<in> set later \<and> mp_inbound p = SessionOver) \<or>
        ahead r d + 2 \<le> length (filter ready later) \<longrightarrow>
      open_stream_answer d' r \<noteq> None) \<and>
    sorted_wrt (<) (map fst (dr_log d) @ in_hand d @ dr_blocked d) \<and> subseq (map snd (dr_log d)) (outcomes before) \<and>
    length (in_hand d) \<le> 65 \<and> (\<forall>r \<in> set (dr_dropped d). r \<in> dr_gone d \<or> dr_finished d) \<and>
    (\<not> dr_handles d \<and> in_hand d @ dr_blocked d = [] \<and> (\<exists>p. Polled p \<in> set later) \<longrightarrow> dr_finished d')"
proof -
  have ok: "driver_ok d" using assms(1) driver_ok_new by (rule driver_ok_run)
  have ok': "driver_ok d'" using assms(2) ok by (rule driver_ok_run)
  have "open_stream_answer d' r \<noteq> None"
    if "r < dr_next d" "r \<notin> dr_gone d'" and served: "dr_finished d' \<or> (\<exists>p. Polled p \<in> set later \<and> mp_inbound p = SessionOver) \<or>
      ahead r d + 2 \<le> length (filter ready later)" for r
  proof (rule answered [OF ok' _ that(2)])
    show "r < dr_next d'" using that(1) run_grows [OF assms(2)] by simp
    show "r \<notin> set (waiting d')"
    proof
      assume w: "r \<in> set (waiting d')"
      from run_turns [OF assms(2) ok w that(1,2)] served ok' w show False
        by (auto simp: turns_left_def driver_ok_def split: if_splits)
    qed
  qed
  moreover have "length (in_hand d) \<le> 65"
    using ok by (auto simp: driver_ok_def in_hand_def CHANNEL_CAPACITY_def split: option.splits)
  moreover have "\<not> dr_handles d \<and> waiting d = [] \<and> (\<exists>p. Polled p \<in> set later) \<longrightarrow> dr_finished d'"
    using unused_ends [OF assms(2)] by (auto simp: unused_def)
  moreover have "sorted_wrt (<) (map fst (dr_log d) @ waiting d)" "\<forall>r \<in> set (dr_dropped d). r \<in> dr_gone d \<or> dr_finished d"
    using ok by (simp_all add: driver_ok_def)
  ultimately show ?thesis using run_log [OF assms(1)] by blast
qed

section \<open>Answers of a session\<close>

lemma handle_mux_session_count:
  "handle_mux_session wlib net streams n = (m, answers) \<Longrightarrow> m = n + of_nat (length answers)"
  by (induction wlib net streams n arbitrary: m answers rule: handle_mux_session.induct)
    (auto simp: in_flight_track_def split: prod.splits)

lemma handle_mux_session_answers:
  "snd (handle_mux_session wlib net streams n) =
     map (\<lambda>s. case projr s of (input, st, now_ms) \<Rightarrow> handle_mux_stream wlib net st now_ms input) (takeWhile (\<lambda>s. \<not> isl s) streams)"
  by (induction wlib net streams n rule: handle_mux_session.induct) (auto split: prod.splits)

section \<open>Witness\<close>

text \<open>Two callers; the first is answered, then the connection ends and the second is told.\<close>

theorem mux_requests_served_witness:
  "\<exists>d d'. driver_run new_driver [Request, Request] d \<and>
     driver_run d [Polled \<lparr>mp_outbound = None, mp_inbound = NothingYet\<rparr>, Polled \<lparr>mp_outbound = Some (Inr 5), mp_inbound = NothingYet\<rparr>,
       Polled \<lparr>mp_outbound = None, mp_inbound = SessionOver\<rparr>] d' \<and>
     open_stream_answer d' 0 = Some (Inr 5) \<and> open_stream_answer d' 1 \<noteq> None"
  (is "\<exists>d d'. _ \<and> driver_run d [Polled ?idle, Polled ?opens, Polled ?over] d' \<and> _")
proof -
  let ?d = "send_request (send_request new_driver)"
  let ?a = "drive_poll ?idle ?d"
  let ?b = "drive_poll ?opens ?a"
  let ?c = "drive_poll ?over ?b"
  note defs = new_driver_def send_request_def CHANNEL_CAPACITY_def drive_poll_def serve_pending_def take_request_def Let_def
  have "driver_run new_driver [Request] (send_request new_driver)"
    using run_step [OF run_start request] by (simp add: new_driver_def)
  from run_step [OF this request] have d: "driver_run new_driver [Request, Request] ?d" by (simp add: defs)
  have "driver_run ?d [Polled ?idle] ?a" using run_step [OF run_start polled, of ?d ?idle] by (simp add: defs)
  from run_step [OF this polled, of ?opens] have "driver_run ?d [Polled ?idle, Polled ?opens] ?b" by (simp add: defs)
  from run_step [OF this polled, of ?over] have c: "driver_run ?d [Polled ?idle, Polled ?opens, Polled ?over] ?c" by (simp add: defs)
  have "dr_next ?d = 2" "dr_gone ?c = {}" "open_stream_answer ?c 0 = Some (Inr 5)"
    by (simp_all add: defs end_session_def open_stream_answer_def)
  moreover have "open_stream_answer ?c 1 \<noteq> None"
  proof (rule mux_requests_served [OF d c, THEN conjunct1, rule_format])
    show "dr_finished ?c \<or> (\<exists>p. Polled p \<in> set [Polled ?idle, Polled ?opens, Polled ?over] \<and> mp_inbound p = SessionOver) \<or>
        ahead 1 ?d + 2 \<le> length (filter ready [Polled ?idle, Polled ?opens, Polled ?over])"
      by (intro disjI2 disjI1 exI [of _ ?over]) simp
  qed (simp_all add: calculation)
  ultimately show ?thesis using c d by blast
qed

end
