(* ===== verification/Lifecycle.thy ===== *)
theory Lifecycle
  imports Gossip_Laws Mux_Session
begin

text \<open>
  The life of a daemon: the tasks it starts (\<^verbatim>\<open>run_node\<close> in \<^verbatim>\<open>src/node/mod.rs\<close>,
  \<^verbatim>\<open>run_subscribe\<close> in \<^verbatim>\<open>src/subscribe/mod.rs\<close>), its accept loops, the work it counts as in flight,
  and the drain at shutdown. The parts that serve a connection are the other theories'; here a
  connection has a phase, and every await at which the daemon may be is a step. Accepting and
  noticing the shutdown race, so a loop may accept after the shutdown has begun, until it notices.
\<close>

section \<open>Tasks\<close>

datatype task =
    SyncLoop | MemberLog | ConfigPollLoop | HealthChecks | RestApi u16 | ManageProxies | HttpListen string
  | FillTunnelPool | MaintainMux | ReversePoolLoop | MeshListener string

text \<open>The last task is the one the daemon waits for.\<close>

definition run_node :: "SharedState \<Rightarrow> task list" where
  "run_node st =
     [SyncLoop, MemberLog, ConfigPollLoop, HealthChecks] @
     [if cfg_outbound_only (ss_config st) then ReversePoolLoop else MeshListener (cfg_bind (ss_config st))]"

definition run_subscribe :: "SharedState \<Rightarrow> task list" where
  "run_subscribe st =
     [SyncLoop, MemberLog, ConfigPollLoop] @
     (if cfg_mode (ss_config st) = NodeSubscribe then [HealthChecks] else []) @
     [RestApi (api_port (ss_config st)), ManageProxies] @
     (case cfg_http_listen (ss_config st) of Some addr \<Rightarrow> [HttpListen addr] | None \<Rightarrow> []) @
     [FillTunnelPool, MaintainMux] @
     [if cfg_outbound_only (ss_config st) then ReversePoolLoop else MeshListener (cfg_bind (ss_config st))]"

definition daemon_tasks :: "SharedState \<Rightarrow> task list" where
  "daemon_tasks st = (case cfg_mode (ss_config st) of Node \<Rightarrow> run_node st | _ \<Rightarrow> run_subscribe st)"

section \<open>Connections and work\<close>

datatype entry = MeshEntry | ProxyEntry string | HttpEntry

datatype work = MeshWork dispatch_result | StreamWork "string + bytes \<times> tunnel_outcome" | TcpClient string | HttpClient

text \<open>
  What a connection is doing follows from what it was accepted for and from the message it sent. The
  flag of a served connection and of a multiplexed session is whether its task holds an
  \<^verbatim>\<open>InFlightGuard\<close>, which is the code's own decision.
\<close>

datatype phase = Handshake | AwaitFirst | Busy bool work | MuxOpen bool | Gone

record life =
  lf_state :: SharedState
  lf_accepting :: "entry set"
  lf_conns :: "phase list"
  lf_drained :: "bool option"

record life_env =
  le_json :: json_lib
  le_http :: http_lib
  le_wire :: wire_lib
  le_net :: local_net

definition set_phase :: "conn \<Rightarrow> phase \<Rightarrow> life \<Rightarrow> life" where
  "set_phase c ph w = w\<lparr>lf_conns := (lf_conns w)[c := ph]\<rparr>"

definition count_work :: "life \<Rightarrow> life" where
  "count_work w = w\<lparr>lf_state := (lf_state w)\<lparr>ss_in_flight := in_flight_track (ss_in_flight (lf_state w))\<rparr>\<rparr>"

text \<open>A piece of work that gets a connection of its own: it is counted, and its phase added.\<close>

definition start_work :: "work \<Rightarrow> life \<Rightarrow> life" where
  "start_work k w = count_work (w\<lparr>lf_conns := lf_conns w @ [Busy True k]\<rparr>)"

definition accept_mesh :: "life \<Rightarrow> life" where
  "accept_mesh w = w\<lparr>lf_conns := lf_conns w @ [Handshake]\<rparr>"

text \<open>A client of a service's local proxy; the protocol is looked up for each connection.\<close>

definition accept_proxy_client :: "string \<Rightarrow> life \<Rightarrow> life" where
  "accept_proxy_client service w =
     (if service_is_http service (lf_state w) then start_work HttpClient w else start_work (TcpClient service) w)"

definition accept_http_client :: "life \<Rightarrow> life" where
  "accept_http_client w = start_work HttpClient w"

definition tls_accept :: "SharedState \<Rightarrow> bool \<Rightarrow> phase" where
  "tls_accept st handshake_ok = (if ss_tls st \<and> handshake_ok then AwaitFirst else Gone)"

definition state_after :: "SharedState \<Rightarrow> dispatch_result \<Rightarrow> SharedState" where
  "state_after st r = (case r of DGossip s _ \<Rightarrow> s | DReverse s _ \<Rightarrow> s | DAdmin s _ _ \<Rightarrow> s | _ \<Rightarrow> st)"

text \<open>The first message of a mesh connection arrives: it makes the connection a session, work, or nothing.\<close>

definition phase_after :: "bool \<Rightarrow> dispatch_result \<Rightarrow> phase" where
  "phase_after guarded r = (case r of DClosed \<Rightarrow> Gone | DMux \<Rightarrow> MuxOpen guarded | _ \<Rightarrow> Busy guarded (MeshWork r))"

definition first_message ::
  "life_env \<Rightarrow> instant \<Rightarrow> u64 \<Rightarrow> string \<Rightarrow> string option \<Rightarrow> bytes \<Rightarrow> conn \<Rightarrow> life \<Rightarrow> life" where
  "first_message env now now_ms peer cn input c w =
     (case dispatch_connection (le_json env) (le_http env) (le_wire env) (le_net env) now now_ms (lf_state w) peer cn c input of
        (counted, r) \<Rightarrow>
          let w1 = set_phase c (phase_after counted r) (w\<lparr>lf_state := state_after (lf_state w) r\<rparr>) in
          if counted then count_work w1 else w1)"

text \<open>A stream of a multiplexed session, and a tunnel that comes in over a reverse connection.\<close>

definition mux_stream :: "life_env \<Rightarrow> u64 \<Rightarrow> bytes \<Rightarrow> life \<Rightarrow> life" where
  "mux_stream env now_ms input w =
     start_work (StreamWork (handle_mux_stream (le_wire env) (le_net env) (lf_state w) now_ms input)) w"

definition reverse_tunnel :: "life_env \<Rightarrow> u64 \<Rightarrow> string \<Rightarrow> string \<Rightarrow> u64 \<Rightarrow> life \<Rightarrow> life" where
  "reverse_tunnel env now_ms node_id service_name timestamp_ms w =
     start_work (StreamWork (reverse_dispatch (le_net env) (lf_state w) now_ms (TunnelRequest node_id service_name timestamp_ms))) w"

text \<open>The task of a connection ends, however it ends: the guard it holds, if any, is dropped.\<close>

definition holds_guard :: "phase \<Rightarrow> bool" where
  "holds_guard ph = (case ph of Busy g _ \<Rightarrow> g | MuxOpen g \<Rightarrow> g | _ \<Rightarrow> False)"

definition finish_work :: "conn \<Rightarrow> life \<Rightarrow> life" where
  "finish_work c w =
     (set_phase c Gone w)\<lparr>lf_state :=
        if holds_guard (lf_conns w ! c)
        then (lf_state w)\<lparr>ss_in_flight := fst (in_flight_drop (ss_in_flight (lf_state w)))\<rparr> else lf_state w\<rparr>"

definition cancel :: "life \<Rightarrow> life" where
  "cancel w = w\<lparr>lf_state := (lf_state w)\<lparr>ss_shutdown := True\<rparr>\<rparr>"

definition is_phase :: "life \<Rightarrow> conn \<Rightarrow> (phase \<Rightarrow> bool) \<Rightarrow> bool" where
  "is_phase w c P \<longleftrightarrow> c < length (lf_conns w) \<and> P (lf_conns w ! c)"

definition is_busy :: "phase \<Rightarrow> bool" where
  "is_busy ph = (case ph of Busy _ _ \<Rightarrow> True | _ \<Rightarrow> False)"

definition is_session :: "phase \<Rightarrow> bool" where
  "is_session ph = (case ph of MuxOpen _ \<Rightarrow> True | _ \<Rightarrow> False)"

inductive life_step :: "life_env \<Rightarrow> life \<Rightarrow> life \<Rightarrow> bool" for env where
  mesh_accepted: "MeshEntry \<in> lf_accepting w \<Longrightarrow> life_step env w (accept_mesh w)"
| client_accepted: "ProxyEntry service \<in> lf_accepting w \<Longrightarrow> life_step env w (accept_proxy_client service w)"
| http_accepted: "HttpEntry \<in> lf_accepting w \<Longrightarrow> life_step env w (accept_http_client w)"
| proxy_started: "\<not> ss_shutdown (lf_state w) \<Longrightarrow> life_step env w (w\<lparr>lf_accepting := insert (ProxyEntry service) (lf_accepting w)\<rparr>)"
| loop_stops: "life_step env w (w\<lparr>lf_accepting := lf_accepting w - {e}\<rparr>)"
| handshake_over: "is_phase w c ((=) Handshake) \<Longrightarrow> life_step env w (set_phase c (tls_accept (lf_state w) handshake_ok) w)"
| message_in: "is_phase w c ((=) AwaitFirst) \<Longrightarrow> life_step env w (first_message env now now_ms peer cn input c w)"
| idle_closed: "is_phase w c ((=) AwaitFirst) \<Longrightarrow> ss_shutdown (lf_state w) \<Longrightarrow> life_step env w (set_phase c Gone w)"
| stream_in: "is_phase w c is_session \<Longrightarrow> life_step env w (mux_stream env now_ms input w)"
| session_over: "is_phase w c is_session \<Longrightarrow> life_step env w (finish_work c w)"
| reverse_in: "life_step env w (reverse_tunnel env now_ms node_id service_name timestamp_ms w)"
| work_over: "is_phase w c is_busy \<Longrightarrow> life_step env w (finish_work c w)"
| shutdown_begins: "life_step env w (cancel w)"
| drain_over: "ss_shutdown (lf_state w) \<Longrightarrow> lf_drained w = None \<Longrightarrow> ss_in_flight (lf_state w) = 0 \<Longrightarrow>
    life_step env w (w\<lparr>lf_drained := Some True\<rparr>)"
| drain_timeout: "ss_shutdown (lf_state w) \<Longrightarrow> lf_drained w = None \<Longrightarrow> life_step env w (w\<lparr>lf_drained := Some False\<rparr>)"

definition life_start :: "Config \<Rightarrow> entry set \<Rightarrow> life" where
  "life_start cfg entries =
     \<lparr>lf_state = new_state cfg True None False, lf_accepting = entries, lf_conns = [], lf_drained = None\<rparr>"

abbreviation life_steps :: "life_env \<Rightarrow> life \<Rightarrow> life \<Rightarrow> bool" where
  "life_steps env \<equiv> (life_step env)\<^sup>*\<^sup>*"

section \<open>Handlers leave the counter and the shutdown flag alone\<close>

definition same_flags :: "SharedState \<Rightarrow> SharedState \<Rightarrow> bool" where
  "same_flags a b \<longleftrightarrow> ss_in_flight a = ss_in_flight b \<and> ss_shutdown a = ss_shutdown b"

lemma flags_persist [simp]:
  "ss_in_flight (persist_state_with json st dc) = ss_in_flight st" "ss_shutdown (persist_state_with json st dc) = ss_shutdown st"
  by (simp_all add: persist_state_with_def config_save_def split: option.splits)

lemma flags_rebuild [simp]:
  "ss_in_flight (rebuild_service_index st) = ss_in_flight st" "ss_shutdown (rebuild_service_index st) = ss_shutdown st"
  by (simp_all add: rebuild_service_index_def)

lemma flags_adopt [simp]:
  "ss_in_flight (adopt_config json st c) = ss_in_flight st" "ss_shutdown (adopt_config json st c) = ss_shutdown st"
  by (simp_all add: adopt_config_def)

lemma flags_merge_sync [simp]:
  "ss_in_flight (merge_sync json now st config nodes contact) = ss_in_flight st"
  "ss_shutdown (merge_sync json now st config nodes contact) = ss_shutdown st"
  by (simp_all add: merge_sync_eq Let_def persist_state_def)

lemma flags_apply: "same_flags (apply_message json now st msg) st"
  by (auto simp: same_flags_def apply_message_def update_known_nodes_def persist_state_def Let_def split: Message.splits prod.splits)

lemma flags_gossip: "same_flags (fst (handle_gossip_message json now st peer msg)) st"
  by (auto simp: handle_gossip_message_def Let_def flags_apply split: Message.splits) (simp_all add: same_flags_def)

lemma flags_admin: "same_flags (fst (handle_admin_request json lib st cn op)) st"
  by (auto simp: same_flags_def handle_admin_request_def Let_def split: sum.splits)

lemma flags_reverse: "same_flags (fst (handle_reverse_registration now now_ms st stream node_id ts)) st"
  by (simp add: same_flags_def handle_reverse_registration_def Let_def)

lemma flags_dispatch:
  "same_flags (state_after st (snd (dispatch_connection json hlib wlib net now now_ms st peer cn c input))) st"
proof -
  have refl: "same_flags st st" by (simp add: same_flags_def)
  show ?thesis
    using flags_gossip [of json now st peer] flags_admin [of json hlib st cn] flags_reverse [of now now_ms st c]
    unfolding dispatch_connection_def state_after_def
    by (auto simp: refl split: sum.split prod.split Message.split) (metis fst_conv)+
qed

text \<open>The message that arrives changes the state as \<open>received\<close> says.\<close>

lemma state_after_received:
  assumes "recv_message wlib input = Inr (msg, rest)"
  shows "state_after st (snd (dispatch_connection json hlib wlib net now now_ms st peer cn c input)) =
    received json hlib now st peer cn c now_ms msg"
  using assms
  by (cases msg) (auto simp: dispatch_connection_def state_after_def received_def handle_gossip_message_def apply_message_def
      split: prod.splits)

section \<open>The counter is exact\<close>

definition busy_count :: "life \<Rightarrow> nat" where
  "busy_count w = length (filter is_busy (lf_conns w))"

lemma filter_update_count:
  "c < length xs \<Longrightarrow> length (filter P (xs[c := y])) + (if P (xs ! c) then 1 else 0) = length (filter P xs) + (if P y then 1 else 0)"
proof (induction xs arbitrary: c)
  case (Cons x xs)
  then show ?case by (cases c) auto
qed simp

lemma busy_set_phase:
  assumes "is_phase w c (\<lambda>ph. is_busy ph = b)"
  shows "busy_count (set_phase c ph w) + (if b then 1 else 0) = busy_count w + (if is_busy ph then 1 else 0)"
  using filter_update_count [of c "lf_conns w" is_busy ph] assms by (auto simp: busy_count_def set_phase_def is_phase_def)

lemma busy_count_cong [simp]:
  "busy_count (w\<lparr>lf_state := st\<rparr>) = busy_count w" "busy_count (w\<lparr>lf_accepting := es\<rparr>) = busy_count w"
  "busy_count (w\<lparr>lf_drained := d\<rparr>) = busy_count w" "busy_count (count_work w) = busy_count w"
  by (simp_all add: busy_count_def count_work_def)

lemma is_busy_simps [simp]:
  "is_busy (Busy g k)" "\<not> is_busy Handshake" "\<not> is_busy AwaitFirst" "\<not> is_busy (MuxOpen g)" "\<not> is_busy Gone"
  "\<not> is_busy (tls_accept st b)"
  by (simp_all add: is_busy_def tls_accept_def)

lemma holds_guard_simps [simp]:
  "holds_guard (Busy g k) = g" "holds_guard (MuxOpen g) = g" "\<not> holds_guard Handshake" "\<not> holds_guard AwaitFirst"
  "\<not> holds_guard Gone" "\<not> holds_guard (tls_accept st b)"
  by (simp_all add: holds_guard_def tls_accept_def)

text \<open>The counter is right, and guards are held by exactly the tasks that do work.\<close>

definition counted :: "life \<Rightarrow> bool" where
  "counted w \<longleftrightarrow> ss_in_flight (lf_state w) = of_nat (busy_count w) \<and> (\<forall>ph \<in> set (lf_conns w). holds_guard ph = is_busy ph)"

lemma counted_start_work: "counted w \<Longrightarrow> counted (start_work k w)"
  by (simp add: counted_def start_work_def count_work_def in_flight_track_def busy_count_def)

lemma set_phase_state [simp]: "lf_state (set_phase c ph w) = lf_state w"
  by (simp add: set_phase_def)

lemma guards_set_phase:
  "\<forall>x \<in> set (lf_conns w). holds_guard x = is_busy x \<Longrightarrow> holds_guard ph = is_busy ph \<Longrightarrow>
     \<forall>x \<in> set (lf_conns (set_phase c ph w)). holds_guard x = is_busy x"
  using set_update_subset_insert [of "lf_conns w" c ph] by (auto simp: set_phase_def)

lemma counted_quiet:
  assumes "counted w" "is_phase w c (\<lambda>x. \<not> is_busy x)" "\<not> is_busy ph" "\<not> holds_guard ph"
  shows "counted (set_phase c ph w)"
  using assms busy_set_phase [of w c False ph] guards_set_phase [of w ph c] by (simp add: counted_def)

text \<open>The guard is taken for every message that starts work, and for no other.\<close>

lemma dispatch_guard:
  assumes "dispatch_connection json hlib wlib net now now_ms st peer cn c input = (b, r)"
  shows "b = is_busy (phase_after b r) \<and> holds_guard (phase_after b r) = is_busy (phase_after b r)"
  using assms unfolding dispatch_connection_def
  by (auto simp: phase_after_def split: sum.splits prod.splits Message.splits)

lemma counted_first_message:
  assumes "counted w" "is_phase w c ((=) AwaitFirst)"
  shows "counted (first_message env now now_ms peer cn input c w)"
proof -
  obtain b r where d: "dispatch_connection (le_json env) (le_http env) (le_wire env) (le_net env) now now_ms (lf_state w) peer cn c input = (b, r)"
    by fastforce
  then have st: "ss_in_flight (state_after (lf_state w) r) = ss_in_flight (lf_state w)"
    using flags_dispatch [of "lf_state w" "le_json env" "le_http env" "le_wire env" "le_net env" now now_ms peer cn c input]
    by (simp add: same_flags_def)
  let ?w1 = "w\<lparr>lf_state := state_after (lf_state w) r\<rparr>"
  have ph: "is_phase ?w1 c (\<lambda>x. is_busy x = False)" using assms(2) by (auto simp: is_phase_def)
  note g = dispatch_guard [OF d]
  have n: "busy_count (set_phase c (phase_after b r) ?w1) = busy_count w + (if b then 1 else 0)"
    using busy_set_phase [OF ph, of "phase_after b r"] g by simp
  have "\<forall>x \<in> set (lf_conns (set_phase c (phase_after b r) ?w1)). holds_guard x = is_busy x"
    using assms(1) g by (intro guards_set_phase) (simp_all add: counted_def)
  then show ?thesis
    using d st assms(1) n by (auto simp: first_message_def Let_def counted_def count_work_def in_flight_track_def)
qed

lemma counted_finish:
  assumes "counted w" "is_phase w c P"
  shows "counted (finish_work c w)"
proof -
  have c: "c < length (lf_conns w)" using assms(2) by (simp add: is_phase_def)
  then have g: "holds_guard (lf_conns w ! c) = is_busy (lf_conns w ! c)" using assms(1) by (simp add: counted_def)
  have n: "busy_count (set_phase c Gone w) + (if is_busy (lf_conns w ! c) then 1 else 0) = busy_count w"
    using busy_set_phase [of w c "is_busy (lf_conns w ! c)" Gone] c by (simp add: is_phase_def)
  have "of_nat (busy_count w) = of_nat (busy_count (set_phase c Gone w)) + (if is_busy (lf_conns w ! c) then 1 else 0 :: u64)"
    by (auto simp flip: n)
  moreover have "\<forall>x \<in> set (lf_conns (set_phase c Gone w)). holds_guard x = is_busy x"
    using assms(1) by (intro guards_set_phase) (simp_all add: counted_def)
  ultimately show ?thesis using assms(1) g by (simp add: counted_def finish_work_def in_flight_drop_def)
qed

lemma counted_step: "life_step env w w' \<Longrightarrow> counted w \<Longrightarrow> counted w'"
proof (induction rule: life_step.induct)
  case (mesh_accepted w)
  then show ?case by (simp add: counted_def accept_mesh_def busy_count_def)
next
  case (handshake_over w c ok)
  then show ?case by (intro counted_quiet) (auto simp: is_phase_def)
next
  case (idle_closed w c)
  then show ?case by (intro counted_quiet) (auto simp: is_phase_def)
qed (auto simp: accept_proxy_client_def accept_http_client_def mux_stream_def reverse_tunnel_def cancel_def counted_first_message counted_finish
  intro: counted_start_work, simp_all add: counted_def)

lemma counted_reaches: "life_steps env (life_start cfg entries) w \<Longrightarrow> counted w"
proof (induction rule: rtranclp_induct)
  case base
  show ?case by (simp add: counted_def life_start_def busy_count_def new_state_def)
next
  case step
  then show ?case by (blast intro: counted_step)
qed

lemma not_busy_cases: "\<not> is_busy ph \<longleftrightarrow> ph \<in> {Handshake, AwaitFirst, MuxOpen True, MuxOpen False, Gone}"
  by (cases ph) auto

text \<open>
  C8. The count of work in flight is exact. Whatever connections come, go, fail or are dispatched,
  the counter is the number of connections and streams that are being served, tunnels, requests and
  clients alike, so that a drain ends exactly when none is left: a connection in its handshake, one that
  waits for its first message and an open multiplexed session do not hold it up. What a connection
  counts as here follows from the message it sent, not from whether its task took a guard.
\<close>

theorem in_flight_exact:
  assumes "life_steps env (life_start cfg entries) w" "length (lf_conns w) < 2 ^ 64"
  shows "unat (ss_in_flight (lf_state w)) = card {c. c < length (lf_conns w) \<and> (\<exists>guard k. lf_conns w ! c = Busy guard k)} \<and>
    (ss_in_flight (lf_state w) = 0 \<longleftrightarrow>
       set (lf_conns w) \<subseteq> {Handshake, AwaitFirst, MuxOpen True, MuxOpen False, Gone})"
proof -
  have "busy_count w \<le> length (lf_conns w)" by (simp add: busy_count_def)
  then have "unat (of_nat (busy_count w) :: u64) = busy_count w" using assms(2) by (simp add: unat_of_nat take_bit_nat_eq_self)
  then have u: "unat (ss_in_flight (lf_state w)) = busy_count w" using counted_reaches [OF assms(1)] by (simp add: counted_def)
  have "is_busy ph \<longleftrightarrow> (\<exists>guard k. ph = Busy guard k)" for ph by (cases ph) auto
  then have "busy_count w = card {c. c < length (lf_conns w) \<and> (\<exists>guard k. lf_conns w ! c = Busy guard k)}"
    by (simp add: busy_count_def length_filter_conv_card)
  moreover have "ss_in_flight (lf_state w) = 0 \<longleftrightarrow> busy_count w = 0" using u by (metis unat_0 unat_eq_zero)
  moreover have "busy_count w = 0 \<longleftrightarrow> (\<forall>ph \<in> set (lf_conns w). \<not> is_busy ph)" by (auto simp: busy_count_def filter_empty_conv)
  ultimately show ?thesis using u unfolding not_busy_cases subset_eq by metis
qed

section \<open>A draining node opens no tunnel\<close>

definition opens :: "tunnel_outcome \<Rightarrow> bool" where
  "opens out = (case out of Refused _ \<Rightarrow> False | _ \<Rightarrow> True)"

definition tunnelled :: "phase \<Rightarrow> bool" where
  "tunnelled ph =
     (case ph of
        Busy _ (MeshWork (DTunnel _ out)) \<Rightarrow> opens out
      | Busy _ (StreamWork (Inr (_, out))) \<Rightarrow> opens out
      | _ \<Rightarrow> False)"

definition tunnels :: "life \<Rightarrow> conn set" where
  "tunnels w = {c. is_phase w c tunnelled}"

lemma draining_handle_tunnel:
  "ss_shutdown st \<Longrightarrow> \<exists>b msg. handle_tunnel net st now_ms node_id service ts = (b, Refused msg)"
  by (simp add: handle_tunnel_def refuse_if_draining_def)

lemma draining_mux_stream: "ss_shutdown st \<Longrightarrow> \<not> tunnelled (Busy g (StreamWork (handle_mux_stream wlib net st now_ms input)))"
  by (auto simp: handle_mux_stream_def refuse_if_draining_def tunnelled_def opens_def split: sum.splits Message.splits)

lemma draining_reverse: "ss_shutdown st \<Longrightarrow> \<not> tunnelled (Busy g (StreamWork (reverse_dispatch net st now_ms (TunnelRequest node_id service ts))))"
  using draining_handle_tunnel [of st net now_ms node_id service ts] by (auto simp: reverse_dispatch_def tunnelled_def opens_def)

lemma draining_dispatch:
  assumes "ss_shutdown st"
  shows "\<not> tunnelled (Busy g (MeshWork (snd (dispatch_connection json hlib wlib net now now_ms st peer cn c input))))"
  using draining_handle_tunnel [OF assms] unfolding dispatch_connection_def tunnelled_def opens_def
  by (auto split: sum.splits prod.splits Message.splits dispatch_result.splits tunnel_outcome.splits) (metis prod.inject tunnel_outcome.simps)+

lemma tunnels_set_phase: "\<not> tunnelled ph \<Longrightarrow> tunnels (set_phase c ph w) \<subseteq> tunnels w"
  by (auto simp: tunnels_def is_phase_def set_phase_def) (metis nth_list_update_eq nth_list_update_neq)

lemma tunnels_append: "\<not> tunnelled ph \<Longrightarrow> tunnels (w\<lparr>lf_conns := lf_conns w @ [ph]\<rparr>) \<subseteq> tunnels w"
  by (auto simp: tunnels_def is_phase_def nth_append split: if_splits)

lemma tunnels_cong [simp]:
  "tunnels (w\<lparr>lf_state := st\<rparr>) = tunnels w" "tunnels (w\<lparr>lf_accepting := es\<rparr>) = tunnels w" "tunnels (w\<lparr>lf_drained := d\<rparr>) = tunnels w"
  "tunnels (count_work w) = tunnels w"
  by (simp_all add: tunnels_def is_phase_def count_work_def)

lemma tunnels_start_work: "\<not> tunnelled (Busy True k) \<Longrightarrow> tunnels (start_work k w) \<subseteq> tunnels w"
  by (simp add: start_work_def tunnels_append)

lemma not_tunnelled [simp]:
  "\<not> tunnelled Gone" "\<not> tunnelled (MuxOpen g)" "\<not> tunnelled Handshake" "\<not> tunnelled (tls_accept st b)" "\<not> tunnelled (Busy g HttpClient)"
  "\<not> tunnelled (Busy g (TcpClient service))"
  by (simp_all add: tunnelled_def tls_accept_def)

lemma tunnels_first_message:
  assumes "ss_shutdown (lf_state w)"
  shows "tunnels (first_message env now now_ms peer cn input c w) \<subseteq> tunnels w"
proof -
  obtain b r where d: "dispatch_connection (le_json env) (le_http env) (le_wire env) (le_net env) now now_ms (lf_state w) peer cn c input = (b, r)"
    by fastforce
  then have "\<not> tunnelled (Busy b (MeshWork r))"
    using draining_dispatch [OF assms, of b "le_json env" "le_http env" "le_wire env" "le_net env" now now_ms peer cn c input] by simp
  then have "\<not> tunnelled (phase_after b r)" by (cases r) (simp_all add: phase_after_def)
  then have "tunnels (set_phase c (phase_after b r) (w\<lparr>lf_state := state_after (lf_state w) r\<rparr>)) \<subseteq> tunnels w"
    using tunnels_set_phase [of _ c "w\<lparr>lf_state := state_after (lf_state w) r\<rparr>"] by simp
  with d show ?thesis by (cases b) (simp_all add: first_message_def Let_def)
qed

lemma draining_step:
  assumes "life_step env w w'" "ss_shutdown (lf_state w)"
  shows "tunnels w' \<subseteq> tunnels w"
  using assms
  by (induction rule: life_step.induct)
    (simp_all add: accept_mesh_def tunnels_append accept_proxy_client_def accept_http_client_def tunnels_start_work tunnels_set_phase
      tunnels_first_message mux_stream_def reverse_tunnel_def draining_mux_stream draining_reverse finish_work_def cancel_def)

lemma shutdown_stays:
  assumes "life_step env w w'" "ss_shutdown (lf_state w)"
  shows "ss_shutdown (lf_state w')"
  using assms
proof (induction rule: life_step.induct)
  case (message_in w c now now_ms peer cn input)
  then show ?case
    using flags_dispatch [of "lf_state w" "le_json env" "le_http env" "le_wire env" "le_net env" now now_ms peer cn c input]
    by (auto simp: first_message_def Let_def count_work_def same_flags_def split: prod.splits)
qed (simp_all add: accept_mesh_def accept_proxy_client_def accept_http_client_def start_work_def count_work_def mux_stream_def
  reverse_tunnel_def finish_work_def cancel_def set_phase_def)

text \<open>
  C9. Once a shutdown has begun, a node opens no new tunnel, whether it is asked on a connection of
  its own, on a stream of a multiplexed session or over a reverse connection, for a service of its
  own or to be relayed: the tunnels in progress can only become fewer. The shutdown is never undone.
\<close>

theorem drain_opens_no_tunnel:
  assumes "life_steps env w w'" "ss_shutdown (lf_state w)"
  shows "tunnels w' \<subseteq> tunnels w \<and> ss_shutdown (lf_state w')"
  using assms
proof (induction rule: rtranclp_induct)
  case (step w1 w2)
  then show ?case using draining_step [of env w1 w2] shutdown_stays [of env w1 w2] by blast
qed simp

section \<open>Reverse connections\<close>

text \<open>
  One connection of a node behind NAT to a relay. \<open>rv_first\<close> is its first message, a failure to
  read one, or \<open>None\<close> when the shutdown is noticed first. The result is the tunnel request handed
  to a task of its own, if any.
\<close>

record reverse_env =
  rv_connect :: bool
  rv_tls :: bool
  rv_send :: "Message \<Rightarrow> bool"
  rv_now :: u64
  rv_first :: "(string + Message) option"

definition open_reverse_connection :: "reverse_env \<Rightarrow> SharedState \<Rightarrow> string \<Rightarrow> string + (string \<times> string \<times> u64) option" where
  "open_reverse_connection env st relay_addr =
     (if \<not> rv_connect env then Inl (''connect to relay '' @ relay_addr)
      else if \<not> (ss_tls st \<and> rv_tls env) then Inl ''TLS connect''
      else if \<not> rv_send env (ReverseRegistration (own_id st) (rv_now env)) then Inl ''write payload''
      else (case rv_first env of
              None \<Rightarrow> Inr None
            | Some (Inl e) \<Rightarrow> Inl e
            | Some (Inr (TunnelRequest node_id service_name timestamp_ms)) \<Rightarrow> Inr (Some (node_id, service_name, timestamp_ms))
            | Some (Inr _) \<Rightarrow> Inl ''unexpected message on reverse connection''))"

text \<open>A worker: it reconnects until it sees the shutdown, which it looks for before every attempt.\<close>

fun reverse_worker :: "(reverse_env \<times> SharedState) list \<Rightarrow> string \<Rightarrow> (string \<times> string \<times> u64) list" where
  "reverse_worker [] relay_addr = []"
| "reverse_worker ((env, st) # turns) relay_addr =
     (if ss_shutdown st then []
      else (case open_reverse_connection env st relay_addr of
              Inr (Some req) \<Rightarrow> req # reverse_worker turns relay_addr
            | _ \<Rightarrow> reverse_worker turns relay_addr))"

lemma reverse_worker_stops:
  "reverse_worker turns relay_addr = reverse_worker (takeWhile (\<lambda>(env, st). \<not> ss_shutdown st) turns) relay_addr"
  by (induction turns relay_addr rule: reverse_worker.induct) (auto split: sum.split option.split)

section \<open>Gauges\<close>

text \<open>
  The gauges that \<^verbatim>\<open>src/metrics.rs\<close> publishes every five seconds: name, labels and value, as
  natural numbers (the recorder takes the nearest floating-point number).
\<close>

type_synonym gauge = "string \<times> (string \<times> string) list \<times> nat"

definition node_gauges :: "SharedState \<Rightarrow> NodeInfo \<Rightarrow> gauge list" where
  "node_gauges st n =
     (let addr = (case ni_relay n of Some r \<Rightarrow> r | None \<Rightarrow> ni_addr n) in
      (if addr \<noteq> [] then [(''stouter_tunnel_pool_size'', [(''addr'', addr)], pool_count (ss_tunnel_pool st) addr)] else []) @
      [(''stouter_reverse_pool_size'', [(''node_id'', ni_id n)], pool_count (ss_reverse_pool st) (ni_id n))])"

definition health_gauge :: "SharedState \<Rightarrow> string \<times> string \<Rightarrow> gauge" where
  "health_gauge st k =
     (case k of (node_id, service) \<Rightarrow>
        (''stouter_service_healthy'', [(''service'', service), (''node_id'', node_id)],
         if service_unhealthy st node_id service then 0 else 1))"

definition run_gauge_round :: "SharedState \<Rightarrow> MuxPool \<Rightarrow> gauge list" where
  "run_gauge_round st mux =
     [(''stouter_in_flight_connections'', [], unat (ss_in_flight st)),
      (''stouter_known_nodes'', [], length (ss_known_nodes st)),
      (''stouter_config_version'', [], unat (dc_version (ss_dynamic_config st)))] @
     concat (map (node_gauges st) (hm_values (ss_known_nodes st))) @
     map (health_gauge st) (map fst (ss_service_index st)) @
     [(''stouter_mux_sessions'', [], mux_session_count mux)]"

section \<open>Witnesses\<close>

definition quiet_env :: life_env where
  "quiet_env = \<lparr>le_json = sample_json, le_http = lib0, le_wire = \<lparr>to_vec_named = (\<lambda>_. Inl []), from_slice = (\<lambda>_. Inl [])\<rparr>,
     le_net = (\<lambda>_. Inr ())\<rparr>"

definition mux_env0 :: life_env where
  "mux_env0 = quiet_env\<lparr>le_wire := \<lparr>to_vec_named = (\<lambda>_. Inl []), from_slice = (\<lambda>_. Inr MuxTunnel)\<rparr>\<rparr>"

text \<open>A client of the HTTP listener is served while a multiplexed session is open.\<close>

lemma mux_env0_dispatch:
  "dispatch_connection (le_json mux_env0) (le_http mux_env0) (le_wire mux_env0) (le_net mux_env0) now now_ms st peer cn c [0, 0, 0, 0] =
     (False, DMux)"
proof -
  have "recv_message (le_wire mux_env0) [0, 0, 0, 0] = Inr (MuxTunnel, [])"
    by (simp add: mux_env0_def recv_message_def read_exact_def from_be_bytes_def MAX_MSG_BYTES_def map_err_def try_then_def Let_def)
  then show ?thesis by (simp add: dispatch_connection_def)
qed

theorem in_flight_exact_witness:
  "\<exists>w. life_steps mux_env0 (life_start default_config {MeshEntry, HttpEntry}) w \<and>
     lf_conns w = [MuxOpen False, Busy True HttpClient] \<and> unat (ss_in_flight (lf_state w)) = 1"
proof -
  let ?start = "life_start default_config {MeshEntry, HttpEntry}"
  let ?accepted = "accept_mesh ?start"
  let ?shaken = "set_phase 0 (tls_accept (lf_state ?accepted) True) ?accepted"
  let ?session = "first_message mux_env0 0 0 [] None [0, 0, 0, 0] 0 ?shaken"
  let ?served = "accept_http_client ?session"
  have "life_steps mux_env0 ?start ?accepted" by (rule r_into_rtranclp, rule mesh_accepted) (simp add: life_start_def)
  moreover have "life_step mux_env0 ?accepted ?shaken"
    by (rule handshake_over) (simp add: is_phase_def accept_mesh_def life_start_def)
  moreover have "life_step mux_env0 ?shaken ?session"
    by (rule message_in) (simp add: is_phase_def accept_mesh_def life_start_def set_phase_def tls_accept_def new_state_def)
  moreover have c3: "lf_conns ?session = [MuxOpen False] \<and> lf_accepting ?session = {MeshEntry, HttpEntry}"
    by (simp add: first_message_def mux_env0_dispatch phase_after_def set_phase_def accept_mesh_def life_start_def Let_def)
  moreover from c3 have "life_step mux_env0 ?session ?served" by (intro http_accepted) simp
  ultimately have r: "life_steps mux_env0 ?start ?served" by (meson rtranclp.rtrancl_into_rtrancl)
  have c: "lf_conns ?served = [MuxOpen False, Busy True HttpClient]"
    using c3 by (simp add: accept_http_client_def start_work_def count_work_def)
  then have "{c. c < length (lf_conns ?served) \<and> (\<exists>guard k. lf_conns ?served ! c = Busy guard k)} = {1}"
    by (auto simp: less_Suc_eq)
  then show ?thesis using r c in_flight_exact [OF r] by (intro exI [of _ ?served]) simp
qed

theorem drain_opens_no_tunnel_witness:
  "\<exists>w'. life_steps quiet_env (cancel (life_start default_config {})) w' \<and> length (lf_conns w') = 1 \<and> tunnels w' = {}"
proof -
  let ?w = "cancel (life_start default_config {})"
  let ?w' = "reverse_tunnel quiet_env 0 [] ''api'' 0 ?w"
  have r: "life_steps quiet_env ?w ?w'" by (intro r_into_rtranclp reverse_in)
  have s: "ss_shutdown (lf_state ?w)" "tunnels ?w = {}" by (simp_all add: cancel_def life_start_def tunnels_def is_phase_def)
  have "length (lf_conns ?w') = 1" by (simp add: reverse_tunnel_def start_work_def count_work_def cancel_def life_start_def)
  then show ?thesis using r drain_opens_no_tunnel [OF r s(1)] s(2) by blast
qed

end
