(* ===== verification/Drain_Wait.thy ===== *)
theory Drain_Wait
  imports Shared_State
begin

text \<open>
  Waiting for the work in flight to end (\<^verbatim>\<open>InFlightTracker::wait_zero\<close> and the drop of an
  \<^verbatim>\<open>InFlightGuard\<close> in \<^verbatim>\<open>src/state.rs\<close>), at the grain of single atomic operations. A guard that is
  dropped decrements the counter and, if it was the last, notifies in a second operation; the waiter
  registers, then looks at the counter, then sleeps. Between any two of them anything else may
  happen. The \<^verbatim>\<open>Notify\<close> is tokio's, the parameter \<open>notify_lib\<close>.
\<close>

section \<open>The tracker and its waiter\<close>

text \<open>
  \<open>nl_enable\<close> makes a future and registers it, \<open>nl_notify_waiters\<close> notifies the registered
  futures, \<open>nl_notified\<close> says whether one would be ready.
\<close>

record 'n notify_lib =
  nl_new :: 'n
  nl_enable :: "'n \<Rightarrow> 'n \<times> nat"
  nl_notify_waiters :: "'n \<Rightarrow> 'n"
  nl_enabled :: "'n \<Rightarrow> nat \<Rightarrow> bool"
  nl_notified :: "'n \<Rightarrow> nat \<Rightarrow> bool"

text \<open>Where the loop of \<^verbatim>\<open>wait_zero\<close> is, with the future of the current round.\<close>

datatype wait_at = Registering | Checking nat | Asleep nat | WaitOver | TimedOut

text \<open>\<open>tk_notifying\<close> counts the guards between their decrement and their notification.\<close>

record 'n InFlightTracker =
  tk_count :: u64
  tk_zero :: 'n
  tk_notifying :: nat
  tk_waiter :: wait_at

definition new_tracker :: "'n notify_lib \<Rightarrow> 'n InFlightTracker" where
  "new_tracker lib = \<lparr>tk_count = 0, tk_zero = nl_new lib, tk_notifying = 0, tk_waiter = Registering\<rparr>"

definition guard_decrement :: "'n InFlightTracker \<Rightarrow> 'n InFlightTracker" where
  "guard_decrement t =
     (case in_flight_drop (tk_count t) of (n, was_last) \<Rightarrow>
        t\<lparr>tk_count := n, tk_notifying := (if was_last then tk_notifying t + 1 else tk_notifying t)\<rparr>)"

definition guard_notify :: "'n notify_lib \<Rightarrow> 'n InFlightTracker \<Rightarrow> 'n InFlightTracker" where
  "guard_notify lib t = t\<lparr>tk_notifying := tk_notifying t - 1, tk_zero := nl_notify_waiters lib (tk_zero t)\<rparr>"

text \<open>The waiter's next operation; None while it sleeps, and at the end.\<close>

definition wait_zero_step :: "'n notify_lib \<Rightarrow> 'n InFlightTracker \<Rightarrow> 'n InFlightTracker option" where
  "wait_zero_step lib t =
     (case tk_waiter t of
        Registering \<Rightarrow> (case nl_enable lib (tk_zero t) of (zero, fut) \<Rightarrow> Some (t\<lparr>tk_zero := zero, tk_waiter := Checking fut\<rparr>))
      | Checking fut \<Rightarrow> Some (t\<lparr>tk_waiter := (if tk_count t = 0 then WaitOver else Asleep fut)\<rparr>)
      | Asleep fut \<Rightarrow> if nl_notified lib (tk_zero t) fut then Some (t\<lparr>tk_waiter := Registering\<rparr>) else None
      | WaitOver \<Rightarrow> None
      | TimedOut \<Rightarrow> None)"

text \<open>Everything that may happen. The counter never has \<open>2 ^ 64\<close> guards to count.\<close>

inductive tracker_step :: "'n notify_lib \<Rightarrow> 'n InFlightTracker \<Rightarrow> 'n InFlightTracker \<Rightarrow> bool" for lib where
  step_track: "tk_count t \<noteq> - 1 \<Longrightarrow> tracker_step lib t (t\<lparr>tk_count := in_flight_track (tk_count t)\<rparr>)"
| step_decrement: "tk_count t \<noteq> 0 \<Longrightarrow> tracker_step lib t (guard_decrement t)"
| step_notify: "0 < tk_notifying t \<Longrightarrow> tracker_step lib t (guard_notify lib t)"
| step_wait: "wait_zero_step lib t = Some t' \<Longrightarrow> tracker_step lib t t'"
| step_timeout: "tk_waiter t = Asleep fut \<Longrightarrow> tracker_step lib t (t\<lparr>tk_waiter := TimedOut\<rparr>)"

text \<open>What is left to happen once all work is done and none is added.\<close>

inductive quiet_step :: "'n notify_lib \<Rightarrow> 'n InFlightTracker \<Rightarrow> 'n InFlightTracker \<Rightarrow> bool" for lib where
  quiet_notify: "0 < tk_notifying t \<Longrightarrow> quiet_step lib t (guard_notify lib t)"
| quiet_wait: "wait_zero_step lib t = Some t' \<Longrightarrow> quiet_step lib t t'"

inductive_cases tracker_stepE: "tracker_step lib t t'"
inductive_cases quiet_stepE: "quiet_step lib t t'"

section \<open>No wake-up is lost\<close>

text \<open>
  What tokio documents of \<^verbatim>\<open>Notify\<close>: an enabled future stays registered, a notification of the
  waiters makes every registered future ready, and a ready future stays ready.
\<close>

definition notify_ok :: "'n notify_lib \<Rightarrow> bool" where
  "notify_ok lib \<longleftrightarrow>
     (\<forall>z. nl_enabled lib (fst (nl_enable lib z)) (snd (nl_enable lib z))) \<and>
     (\<forall>z fut. nl_enabled lib z fut \<longrightarrow>
        nl_enabled lib (nl_notify_waiters lib z) fut \<and> nl_notified lib (nl_notify_waiters lib z) fut)"

definition wake_inv :: "'n notify_lib \<Rightarrow> 'n InFlightTracker \<Rightarrow> bool" where
  "wake_inv lib t \<longleftrightarrow>
     (case tk_waiter t of
        Checking fut \<Rightarrow> nl_enabled lib (tk_zero t) fut
      | Asleep fut \<Rightarrow> nl_enabled lib (tk_zero t) fut \<and>
          (tk_count t = 0 \<longrightarrow> nl_notified lib (tk_zero t) fut \<or> 0 < tk_notifying t)
      | _ \<Rightarrow> True)"

lemma wake_inv_notify: "notify_ok lib \<Longrightarrow> wake_inv lib t \<Longrightarrow> wake_inv lib (guard_notify lib t)"
  by (auto simp: wake_inv_def guard_notify_def notify_ok_def split: wait_at.splits)

lemma wake_inv_wait: "notify_ok lib \<Longrightarrow> wake_inv lib t \<Longrightarrow> wait_zero_step lib t = Some t' \<Longrightarrow> wake_inv lib t'"
  by (auto simp: wake_inv_def wait_zero_step_def notify_ok_def split: wait_at.splits prod.splits if_splits; metis fst_conv snd_conv)

lemma wake_inv_decrement: "wake_inv lib t \<Longrightarrow> tk_count t \<noteq> 0 \<Longrightarrow> wake_inv lib (guard_decrement t)"
  by (auto simp: wake_inv_def guard_decrement_def in_flight_drop_def split: wait_at.splits)

lemma wake_inv_track:
  "wake_inv lib t \<Longrightarrow> tk_count t \<noteq> - 1 \<Longrightarrow> wake_inv lib (t\<lparr>tk_count := in_flight_track (tk_count t)\<rparr>)"
  by (auto simp: wake_inv_def in_flight_track_def add_eq_0_iff2 split: wait_at.splits)

lemma wake_inv_timeout: "wake_inv lib (t\<lparr>tk_waiter := TimedOut\<rparr>)"
  by (simp add: wake_inv_def)

lemma wake_inv_step: "notify_ok lib \<Longrightarrow> wake_inv lib t \<Longrightarrow> tracker_step lib t t' \<Longrightarrow> wake_inv lib t'"
  by (elim tracker_stepE) (auto intro: wake_inv_notify wake_inv_wait wake_inv_decrement wake_inv_track wake_inv_timeout)

lemma wake_inv_reaches:
  assumes "(tracker_step lib)\<^sup>*\<^sup>* (new_tracker lib) t" "notify_ok lib"
  shows "wake_inv lib t"
  using assms(1)
proof induction
  case base
  show ?case by (simp add: wake_inv_def new_tracker_def)
next
  case (step t t')
  then show ?case using wake_inv_step [OF assms(2)] by blast
qed

section \<open>The wait ends\<close>

definition wait_rank :: "wait_at \<Rightarrow> nat" where
  "wait_rank p = (case p of Asleep _ \<Rightarrow> 3 | Registering \<Rightarrow> 2 | Checking _ \<Rightarrow> 1 | _ \<Rightarrow> 0)"

lemma quiet_measure:
  assumes "tk_count t = 0" "quiet_step lib t t'"
  shows "tk_count t' = 0 \<and>
    tk_notifying t' + wait_rank (tk_waiter t') + 1 = tk_notifying t + wait_rank (tk_waiter t) \<and>
    (tk_waiter t' = TimedOut \<longleftrightarrow> tk_waiter t = TimedOut)"
  using assms(2,1)
  by cases (auto simp: guard_notify_def wait_zero_step_def wait_rank_def split: wait_at.splits prod.splits if_splits)

lemma quiet_power:
  assumes "(quiet_step lib ^^ n) t t'" "tk_count t = 0"
  shows "tk_count t' = 0 \<and> tk_notifying t' + wait_rank (tk_waiter t') + n = tk_notifying t + wait_rank (tk_waiter t) \<and>
    (tk_waiter t' = TimedOut \<longleftrightarrow> tk_waiter t = TimedOut)"
  using assms
proof (induction n arbitrary: t')
  case (Suc n)
  then obtain u where "(quiet_step lib ^^ n) t u" "quiet_step lib u t'" by auto
  with Suc.IH Suc.prems(2) quiet_measure [of u lib t'] show ?case by fastforce
qed simp

lemma quiet_inv: "(quiet_step lib)\<^sup>*\<^sup>* t t' \<Longrightarrow> notify_ok lib \<Longrightarrow> wake_inv lib t \<Longrightarrow> wake_inv lib t'"
  by (induction rule: rtranclp_induct) (auto elim!: quiet_stepE intro: wake_inv_notify wake_inv_wait)

lemma quiet_stuck:
  assumes "wake_inv lib t" "tk_count t = 0" "tk_waiter t \<noteq> TimedOut" "\<nexists>t'. quiet_step lib t t'"
  shows "tk_waiter t = WaitOver"
proof -
  have n: "tk_notifying t = 0" using assms(4) quiet_notify by (metis gr_zeroI)
  have w: "wait_zero_step lib t = None" using assms(4) quiet_wait by (metis option.exhaust)
  show ?thesis
    using assms(1-3) n w
    by (auto simp: wake_inv_def wait_zero_step_def split: wait_at.splits prod.splits if_splits)
qed

text \<open>
  C11. Waiting for the work in flight never misses its end. However the decrements, notifications
  and the waiter interleaved so far, once no work is left and none is added, the waiter (unless
  its time was up) needs at most three steps of its own after the notifications that are under way,
  and when nothing more can happen the wait is over.
\<close>

theorem drain_wait_ends:
  assumes "notify_ok lib" "(tracker_step lib)\<^sup>*\<^sup>* (new_tracker lib) t"
    and "tk_count t = 0" "tk_waiter t \<noteq> TimedOut"
  shows "(\<forall>n t'. (quiet_step lib ^^ n) t t' \<longrightarrow> n \<le> tk_notifying t + 3) \<and>
    (\<forall>t'. (quiet_step lib)\<^sup>*\<^sup>* t t' \<longrightarrow> (\<nexists>t''. quiet_step lib t' t'') \<longrightarrow> tk_waiter t' = WaitOver)"
proof (intro conjI allI impI)
  fix n t' assume "(quiet_step lib ^^ n) t t'"
  then have "n \<le> tk_notifying t + wait_rank (tk_waiter t)" using quiet_power assms(3) by fastforce
  moreover have "wait_rank (tk_waiter t) \<le> 3" by (simp add: wait_rank_def split: wait_at.splits)
  ultimately show "n \<le> tk_notifying t + 3" by simp
next
  fix t' assume r: "(quiet_step lib)\<^sup>*\<^sup>* t t'" and stuck: "\<nexists>t''. quiet_step lib t' t''"
  obtain n where "(quiet_step lib ^^ n) t t'" using r by (auto simp: rtranclp_power)
  then have "tk_count t' = 0" "tk_waiter t' \<noteq> TimedOut" using quiet_power assms(3,4) by metis+
  with quiet_stuck [OF quiet_inv [OF r assms(1) wake_inv_reaches [OF assms(2,1)]]] stuck show "tk_waiter t' = WaitOver" by blast
qed

section \<open>A concrete tracker\<close>

text \<open>A \<^verbatim>\<open>Notify\<close> that keeps, for every future made, whether it has been notified.\<close>

definition list_notify :: "bool list notify_lib" where
  "list_notify = \<lparr>nl_new = [], nl_enable = (\<lambda>z. (z @ [False], length z)), nl_notify_waiters = map (\<lambda>_. True),
     nl_enabled = (\<lambda>z fut. fut < length z), nl_notified = (\<lambda>z fut. fut < length z \<and> z ! fut)\<rparr>"

lemma list_notify_ok: "notify_ok list_notify"
  by (simp add: notify_ok_def list_notify_def)

definition slept :: "bool list InFlightTracker" where
  "slept = \<lparr>tk_count = 0, tk_zero = [False], tk_notifying = 1, tk_waiter = Asleep 0\<rparr>"

lemma slept_reached: "(tracker_step list_notify)\<^sup>*\<^sup>* (new_tracker list_notify) slept"
proof -
  let ?a = "(new_tracker list_notify)\<lparr>tk_count := 1\<rparr>"
  let ?b = "?a\<lparr>tk_zero := [False], tk_waiter := Checking 0\<rparr>"
  let ?c = "?b\<lparr>tk_waiter := Asleep 0\<rparr>"
  have 1: "tracker_step list_notify (new_tracker list_notify) ?a"
    using step_track [of "new_tracker list_notify" list_notify] by (simp add: new_tracker_def in_flight_track_def)
  have 2: "tracker_step list_notify ?a ?b"
    by (rule step_wait) (simp add: wait_zero_step_def new_tracker_def list_notify_def)
  have 3: "tracker_step list_notify ?b ?c"
    by (rule step_wait) (simp add: wait_zero_step_def new_tracker_def)
  have 4: "tracker_step list_notify ?c slept"
    using step_decrement [of ?c list_notify] by (simp add: guard_decrement_def in_flight_drop_def new_tracker_def slept_def)
  from 1 2 3 4 show ?thesis by (meson converse_rtranclp_into_rtranclp rtranclp.rtrancl_refl)
qed

theorem drain_wait_ends_witness:
  "tk_waiter slept = Asleep 0 \<and>
   (\<exists>t'. (quiet_step list_notify)\<^sup>*\<^sup>* slept t' \<and> tk_waiter t' = WaitOver)"
proof -
  have d: "tk_count slept = 0" "tk_waiter slept \<noteq> TimedOut" by (simp_all add: slept_def)
  note ends = drain_wait_ends [OF list_notify_ok slept_reached d]
  have "\<exists>t'. (quiet_step list_notify)\<^sup>*\<^sup>* slept t' \<and> (\<nexists>t''. quiet_step list_notify t' t'')"
  proof (rule ccontr)
    assume a: "\<not> ?thesis"
    have "\<exists>t'. (quiet_step list_notify ^^ n) slept t'" for n
    proof (induction n)
      case (Suc n)
      then obtain u where u: "(quiet_step list_notify ^^ n) slept u" by blast
      then have "(quiet_step list_notify)\<^sup>*\<^sup>* slept u" by (rule relpowp_imp_rtranclp)
      with a obtain v where "quiet_step list_notify u v" by blast
      with u show ?case by auto
    qed auto
    then obtain t' where "(quiet_step list_notify ^^ (tk_notifying slept + 4)) slept t'" by blast
    then show False using ends by fastforce
  qed
  then show ?thesis using ends by (auto simp: slept_def)
qed

end
