(* ===== verification/Mesh_Io.thy ===== *)
theory Mesh_Io
  imports Tls Proxy
begin

text \<open>
  Reading and writing on the connections between daemons: \<^verbatim>\<open>MeshStream\<close> (\<^verbatim>\<open>src/tls.rs\<close>), either end of a
  TLS connection, and \<^verbatim>\<open>Tunnel\<close> (\<^verbatim>\<open>src/subscribe/proxy.rs\<close>), a mesh connection or a stream of a session.
  Each call is handed to the stream inside. The streams at the bottom are the crates' (\<^verbatim>\<open>tokio_rustls\<close>
  for servers and clients, \<^verbatim>\<open>yamux\<close>), parameters with the state \<open>'w\<close> of everything they hold.
\<close>

section \<open>Streams\<close>

datatype 'a poll = Pending | Ready 'a

type_synonym 'a io = "(string + 'a) poll"

record ('s, 'w) stream_ops =
  so_read :: "'s \<Rightarrow> nat \<Rightarrow> 'w \<Rightarrow> 'w \<times> bytes io"
  so_write :: "'s \<Rightarrow> bytes \<Rightarrow> 'w \<Rightarrow> 'w \<times> nat io"
  so_flush :: "'s \<Rightarrow> 'w \<Rightarrow> 'w \<times> unit io"
  so_shutdown :: "'s \<Rightarrow> 'w \<Rightarrow> 'w \<times> unit io"

text \<open>The operations of a \<^verbatim>\<open>MeshStream\<close>, given those of the two kinds of TLS stream.\<close>

definition mesh_poll_read :: "(conn, 'w) stream_ops \<Rightarrow> (conn, 'w) stream_ops \<Rightarrow> MeshStream \<Rightarrow> nat \<Rightarrow> 'w \<Rightarrow> 'w \<times> bytes io" where
  "mesh_poll_read server client s =
     (case s of TlsServer stream _ \<Rightarrow> so_read server stream | TlsClient c \<Rightarrow> so_read client c)"

definition mesh_poll_write :: "(conn, 'w) stream_ops \<Rightarrow> (conn, 'w) stream_ops \<Rightarrow> MeshStream \<Rightarrow> bytes \<Rightarrow> 'w \<Rightarrow> 'w \<times> nat io" where
  "mesh_poll_write server client s =
     (case s of TlsServer stream _ \<Rightarrow> so_write server stream | TlsClient c \<Rightarrow> so_write client c)"

definition mesh_poll_flush :: "(conn, 'w) stream_ops \<Rightarrow> (conn, 'w) stream_ops \<Rightarrow> MeshStream \<Rightarrow> 'w \<Rightarrow> 'w \<times> unit io" where
  "mesh_poll_flush server client s =
     (case s of TlsServer stream _ \<Rightarrow> so_flush server stream | TlsClient c \<Rightarrow> so_flush client c)"

definition mesh_poll_shutdown :: "(conn, 'w) stream_ops \<Rightarrow> (conn, 'w) stream_ops \<Rightarrow> MeshStream \<Rightarrow> 'w \<Rightarrow> 'w \<times> unit io" where
  "mesh_poll_shutdown server client s =
     (case s of TlsServer stream _ \<Rightarrow> so_shutdown server stream | TlsClient c \<Rightarrow> so_shutdown client c)"

definition mesh_ops :: "(conn, 'w) stream_ops \<Rightarrow> (conn, 'w) stream_ops \<Rightarrow> (MeshStream, 'w) stream_ops" where
  "mesh_ops server client =
     \<lparr>so_read = mesh_poll_read server client, so_write = mesh_poll_write server client,
      so_flush = mesh_poll_flush server client, so_shutdown = mesh_poll_shutdown server client\<rparr>"

text \<open>
  The operations of a \<^verbatim>\<open>Tunnel\<close>, given those of session streams and of mesh streams. \<open>mesh\<close> is the stream
  that a dedicated connection is: the accepting end when the node dialled in from behind NAT, else
  the connecting end.
\<close>

definition tunnel_poll_read ::
  "(conn, 'w) stream_ops \<Rightarrow> (MeshStream, 'w) stream_ops \<Rightarrow> (conn \<Rightarrow> MeshStream) \<Rightarrow> Tunnel \<Rightarrow> nat \<Rightarrow> 'w \<Rightarrow> 'w \<times> bytes io" where
  "tunnel_poll_read mux ops mesh t = (case t of MuxStream c \<Rightarrow> so_read mux c | MeshConn c \<Rightarrow> so_read ops (mesh c))"

definition tunnel_poll_write ::
  "(conn, 'w) stream_ops \<Rightarrow> (MeshStream, 'w) stream_ops \<Rightarrow> (conn \<Rightarrow> MeshStream) \<Rightarrow> Tunnel \<Rightarrow> bytes \<Rightarrow> 'w \<Rightarrow> 'w \<times> nat io" where
  "tunnel_poll_write mux ops mesh t = (case t of MuxStream c \<Rightarrow> so_write mux c | MeshConn c \<Rightarrow> so_write ops (mesh c))"

definition tunnel_poll_flush ::
  "(conn, 'w) stream_ops \<Rightarrow> (MeshStream, 'w) stream_ops \<Rightarrow> (conn \<Rightarrow> MeshStream) \<Rightarrow> Tunnel \<Rightarrow> 'w \<Rightarrow> 'w \<times> unit io" where
  "tunnel_poll_flush mux ops mesh t = (case t of MuxStream c \<Rightarrow> so_flush mux c | MeshConn c \<Rightarrow> so_flush ops (mesh c))"

definition tunnel_poll_shutdown ::
  "(conn, 'w) stream_ops \<Rightarrow> (MeshStream, 'w) stream_ops \<Rightarrow> (conn \<Rightarrow> MeshStream) \<Rightarrow> Tunnel \<Rightarrow> 'w \<Rightarrow> 'w \<times> unit io" where
  "tunnel_poll_shutdown mux ops mesh t = (case t of MuxStream c \<Rightarrow> so_shutdown mux c | MeshConn c \<Rightarrow> so_shutdown ops (mesh c))"

definition tunnel_ops ::
  "(conn, 'w) stream_ops \<Rightarrow> (MeshStream, 'w) stream_ops \<Rightarrow> (conn \<Rightarrow> MeshStream) \<Rightarrow> (Tunnel, 'w) stream_ops" where
  "tunnel_ops mux ops mesh =
     \<lparr>so_read = tunnel_poll_read mux ops mesh, so_write = tunnel_poll_write mux ops mesh,
      so_flush = tunnel_poll_flush mux ops mesh, so_shutdown = tunnel_poll_shutdown mux ops mesh\<rparr>"

section \<open>What goes in comes out\<close>

text \<open>
  What is expected of a stream, in terms of what has been put into it (\<open>put\<close>) and what is still to come
  out of it (\<open>left\<close>): a read takes the next bytes, a write takes the first bytes it is given, and
  whatever else happens, nothing is lost, repeated or made up.
\<close>

definition read_ok :: "(nat \<Rightarrow> 'w \<Rightarrow> 'w \<times> bytes io) \<Rightarrow> ('w \<Rightarrow> bytes) \<Rightarrow> ('w \<Rightarrow> bytes) \<Rightarrow> bool" where
  "read_ok rd put left \<longleftrightarrow> (\<forall>n w w' r. rd n w = (w', r) \<longrightarrow> put w' = put w \<and>
     (case r of Ready (Inr bs) \<Rightarrow> length bs \<le> n \<and> left w = bs @ left w' | _ \<Rightarrow> left w' = left w))"

definition write_ok :: "(bytes \<Rightarrow> 'w \<Rightarrow> 'w \<times> nat io) \<Rightarrow> ('w \<Rightarrow> bytes) \<Rightarrow> ('w \<Rightarrow> bytes) \<Rightarrow> bool" where
  "write_ok wr put left \<longleftrightarrow> (\<forall>buf w w' r. wr buf w = (w', r) \<longrightarrow> left w' = left w \<and>
     (case r of Ready (Inr n) \<Rightarrow> n \<le> length buf \<and> put w' = put w @ take n buf | _ \<Rightarrow> put w' = put w))"

definition keeps_bytes :: "('w \<Rightarrow> 'w \<times> unit io) \<Rightarrow> ('w \<Rightarrow> bytes) \<Rightarrow> ('w \<Rightarrow> bytes) \<Rightarrow> bool" where
  "keeps_bytes f put left \<longleftrightarrow> (\<forall>w. put (fst (f w)) = put w \<and> left (fst (f w)) = left w)"

definition byte_stream :: "('s, 'w) stream_ops \<Rightarrow> ('s \<Rightarrow> 'w \<Rightarrow> bytes) \<Rightarrow> ('s \<Rightarrow> 'w \<Rightarrow> bytes) \<Rightarrow> bool" where
  "byte_stream ops put left \<longleftrightarrow>
     (\<forall>s. read_ok (so_read ops s) (put s) (left s) \<and> write_ok (so_write ops s) (put s) (left s) \<and>
        keeps_bytes (so_flush ops s) (put s) (left s) \<and> keeps_bytes (so_shutdown ops s) (put s) (left s))"

definition of_mesh :: "(conn \<Rightarrow> 'w \<Rightarrow> bytes) \<Rightarrow> (conn \<Rightarrow> 'w \<Rightarrow> bytes) \<Rightarrow> MeshStream \<Rightarrow> 'w \<Rightarrow> bytes" where
  "of_mesh server client s = (case s of TlsServer c _ \<Rightarrow> server c | TlsClient c \<Rightarrow> client c)"

definition of_tunnel ::
  "(conn \<Rightarrow> 'w \<Rightarrow> bytes) \<Rightarrow> (MeshStream \<Rightarrow> 'w \<Rightarrow> bytes) \<Rightarrow> (conn \<Rightarrow> MeshStream) \<Rightarrow> Tunnel \<Rightarrow> 'w \<Rightarrow> bytes" where
  "of_tunnel mux ops mesh t = (case t of MuxStream c \<Rightarrow> mux c | MeshConn c \<Rightarrow> ops (mesh c))"

lemma mesh_byte_stream:
  assumes "byte_stream server put1 left1" "byte_stream client put2 left2"
  shows "byte_stream (mesh_ops server client) (of_mesh put1 put2) (of_mesh left1 left2)"
  unfolding byte_stream_def
proof
  fix s show "read_ok (so_read (mesh_ops server client) s) (of_mesh put1 put2 s) (of_mesh left1 left2 s) \<and>
      write_ok (so_write (mesh_ops server client) s) (of_mesh put1 put2 s) (of_mesh left1 left2 s) \<and>
      keeps_bytes (so_flush (mesh_ops server client) s) (of_mesh put1 put2 s) (of_mesh left1 left2 s) \<and>
      keeps_bytes (so_shutdown (mesh_ops server client) s) (of_mesh put1 put2 s) (of_mesh left1 left2 s)"
    using assms by (cases s) (simp_all add: byte_stream_def mesh_ops_def mesh_poll_read_def mesh_poll_write_def
        mesh_poll_flush_def mesh_poll_shutdown_def of_mesh_def)
qed

lemma tunnel_byte_stream:
  assumes "byte_stream mux put1 left1" "byte_stream ops put2 left2"
  shows "byte_stream (tunnel_ops mux ops mesh) (of_tunnel put1 put2 mesh) (of_tunnel left1 left2 mesh)"
  unfolding byte_stream_def
proof
  fix t show "read_ok (so_read (tunnel_ops mux ops mesh) t) (of_tunnel put1 put2 mesh t) (of_tunnel left1 left2 mesh t) \<and>
      write_ok (so_write (tunnel_ops mux ops mesh) t) (of_tunnel put1 put2 mesh t) (of_tunnel left1 left2 mesh t) \<and>
      keeps_bytes (so_flush (tunnel_ops mux ops mesh) t) (of_tunnel put1 put2 mesh t) (of_tunnel left1 left2 mesh t) \<and>
      keeps_bytes (so_shutdown (tunnel_ops mux ops mesh) t) (of_tunnel put1 put2 mesh t) (of_tunnel left1 left2 mesh t)"
    using assms by (cases t) (simp_all add: byte_stream_def tunnel_ops_def tunnel_poll_read_def tunnel_poll_write_def
        tunnel_poll_flush_def tunnel_poll_shutdown_def of_tunnel_def)
qed

text \<open>A sequence of calls on one stream: the bytes that reads returned and those that writes took.\<close>

datatype stream_call = ReadCall nat | WriteCall bytes | FlushCall | ShutdownCall

definition do_call :: "('s, 'w) stream_ops \<Rightarrow> 's \<Rightarrow> 'w \<Rightarrow> stream_call \<Rightarrow> 'w \<times> bytes \<times> bytes" where
  "do_call ops s w call =
     (case call of
        ReadCall n \<Rightarrow> (case so_read ops s n w of (w', r) \<Rightarrow> (w', case r of Ready (Inr bs) \<Rightarrow> bs | _ \<Rightarrow> [], []))
      | WriteCall buf \<Rightarrow> (case so_write ops s buf w of (w', r) \<Rightarrow> (w', [], case r of Ready (Inr n) \<Rightarrow> take n buf | _ \<Rightarrow> []))
      | FlushCall \<Rightarrow> (fst (so_flush ops s w), [], [])
      | ShutdownCall \<Rightarrow> (fst (so_shutdown ops s w), [], []))"

fun do_calls :: "('s, 'w) stream_ops \<Rightarrow> 's \<Rightarrow> 'w \<Rightarrow> stream_call list \<Rightarrow> 'w \<times> bytes \<times> bytes" where
  "do_calls ops s w [] = (w, [], [])"
| "do_calls ops s w (call # calls) =
     (case do_call ops s w call of (w1, got1, gave1) \<Rightarrow>
      case do_calls ops s w1 calls of (w2, got2, gave2) \<Rightarrow> (w2, got1 @ got2, gave1 @ gave2))"

lemma do_call_bytes:
  assumes "byte_stream ops put left" "do_call ops s w call = (w', got, gave)"
  shows "left s w = got @ left s w' \<and> put s w' = put s w @ gave"
proof -
  have laws: "read_ok (so_read ops s) (put s) (left s)" "write_ok (so_write ops s) (put s) (left s)"
    "keeps_bytes (so_flush ops s) (put s) (left s)" "keeps_bytes (so_shutdown ops s) (put s) (left s)"
    using assms(1) by (simp_all add: byte_stream_def)
  show ?thesis
  proof (cases call)
    case (ReadCall n)
    obtain w1 r where "so_read ops s n w = (w1, r)" by fastforce
    with laws(1) [unfolded read_ok_def, rule_format, of n w] assms(2) ReadCall show ?thesis
      by (auto simp: do_call_def split: sum.splits poll.splits)
  next
    case (WriteCall buf)
    obtain w1 r where "so_write ops s buf w = (w1, r)" by fastforce
    with laws(2) [unfolded write_ok_def, rule_format, of buf w] assms(2) WriteCall show ?thesis
      by (auto simp: do_call_def split: sum.splits poll.splits)
  qed (use laws(3,4) assms(2) in \<open>auto simp: do_call_def keeps_bytes_def\<close>)
qed

lemma do_calls_bytes:
  "byte_stream ops put left \<Longrightarrow> do_calls ops s w calls = (w', got, gave) \<Longrightarrow>
     left s w = got @ left s w' \<and> put s w' = put s w @ gave"
proof (induction calls arbitrary: w got gave)
  case (Cons call calls)
  obtain w1 got1 gave1 where c: "do_call ops s w call = (w1, got1, gave1)" by (cases "do_call ops s w call")
  obtain got2 gave2 where r: "do_calls ops s w1 calls = (w', got2, gave2)" using Cons.prems(2) c by (auto split: prod.splits)
  show ?case using Cons.IH [OF Cons.prems(1) r] Cons.prems(2) do_call_bytes [OF Cons.prems(1) c] c r by simp
qed simp

text \<open>
  A tunnel carries bytes faithfully, whichever way it was established: through any sequence of reads,
  writes, flushes and shutdowns, in which any call may be pending or fail, the reads have returned
  the next bytes in order and the writes have handed on exactly the bytes they reported.
\<close>

theorem tunnel_carries_bytes:
  assumes "byte_stream mux put1 left1" "byte_stream server put2 left2" "byte_stream client put3 left3"
    and "do_calls (tunnel_ops mux (mesh_ops server client) mesh) t w calls = (w', got, gave)"
  shows "of_tunnel left1 (of_mesh left2 left3) mesh t w = got @ of_tunnel left1 (of_mesh left2 left3) mesh t w' \<and>
    of_tunnel put1 (of_mesh put2 put3) mesh t w' = of_tunnel put1 (of_mesh put2 put3) mesh t w @ gave"
  using do_calls_bytes [OF tunnel_byte_stream [OF assms(1) mesh_byte_stream [OF assms(2,3)]] assms(4)] .

end
