(* ===== verification/Config_Serde.thy ===== *)
theory Config_Serde
  imports Config_Model Serde "HOL-Library.Monad_Syntax"
begin

text \<open>
  The structures of \<^verbatim>\<open>src/config.rs\<close> as values, by their \<^verbatim>\<open>serde\<close> attributes: the names of the fields,
  which are left out when (\<^verbatim>\<open>skip_serializing_if\<close>), and what a missing one means (\<^verbatim>\<open>default\<close>). A
  configuration file holds a \<open>Config\<close> in this form, and gossip carries the rest.
\<close>

section \<open>Services\<close>

definition protocol_to_value :: "Protocol \<Rightarrow> json" where
  "protocol_to_value p = JStr (case p of Tcp \<Rightarrow> ''tcp'' | Http \<Rightarrow> ''http'')"

definition protocol_of_value :: "json \<Rightarrow> Protocol option" where
  "protocol_of_value v = (if v = JStr ''tcp'' then Some Tcp else if v = JStr ''http'' then Some Http else None)"

definition service_to_value :: "Service \<Rightarrow> json" where
  "service_to_value s = emit
     [(''name'', True, JStr (svc_name s)),
      (''nodeId'', True, JStr (svc_node_id s)),
      (''nodePort'', True, int_to_value (svc_node_port s)),
      (''domains'', svc_domains s \<noteq> [], list_to_value JStr (svc_domains s)),
      (''weight'', svc_weight s \<noteq> DEFAULT_WEIGHT, int_to_value (svc_weight s)),
      (''maxConnections'', svc_max_connections s \<noteq> None, opt_to_value int_to_value (svc_max_connections s)),
      (''protocol'', \<not> is_tcp (svc_protocol s), protocol_to_value (svc_protocol s)),
      (''requestTimeoutMs'', svc_request_timeout_ms s \<noteq> None, opt_to_value int_to_value (svc_request_timeout_ms s)),
      (''healthPath'', svc_health_path s \<noteq> None, opt_to_value JStr (svc_health_path s)),
      (''labels'', svc_labels s \<noteq> [], map_to_value (svc_labels s)),
      (''meta'', svc_meta s \<noteq> [], map_to_value (svc_meta s)),
      (''localPort'', svc_local_port s \<noteq> None, opt_to_value int_to_value (svc_local_port s))]"

definition service_of_value :: "json \<Rightarrow> Service option" where
  "service_of_value v = do {
     m \<leftarrow> struct_fields [''name'', ''nodeId'', ''nodePort'', ''domains'', ''weight'', ''maxConnections'', ''protocol'',
       ''requestTimeoutMs'', ''healthPath'', ''labels'', ''meta'', ''localPort''] v;
     name \<leftarrow> required ''name'' str_of_value m;
     node_id \<leftarrow> required ''nodeId'' str_of_value m;
     node_port \<leftarrow> required ''nodePort'' int_of_value m;
     domains \<leftarrow> defaulted ''domains'' [] (list_of_value str_of_value) m;
     weight \<leftarrow> defaulted ''weight'' DEFAULT_WEIGHT int_of_value m;
     max_connections \<leftarrow> defaulted ''maxConnections'' None (opt_of_value int_of_value) m;
     protocol \<leftarrow> defaulted ''protocol'' Tcp protocol_of_value m;
     request_timeout_ms \<leftarrow> defaulted ''requestTimeoutMs'' None (opt_of_value int_of_value) m;
     health_path \<leftarrow> defaulted ''healthPath'' None (opt_of_value str_of_value) m;
     labels \<leftarrow> defaulted ''labels'' [] map_of_value m;
     meta \<leftarrow> defaulted ''meta'' [] map_of_value m;
     local_port \<leftarrow> defaulted ''localPort'' None (opt_of_value int_of_value) m;
     Some \<lparr>svc_name = name, svc_node_id = node_id, svc_node_port = node_port, svc_domains = domains,
       svc_weight = weight, svc_max_connections = max_connections, svc_protocol = protocol,
       svc_request_timeout_ms = request_timeout_ms, svc_health_path = health_path, svc_labels = labels,
       svc_meta = meta, svc_local_port = local_port\<rparr> }"

definition group_to_value :: "ServiceGroup \<Rightarrow> json" where
  "group_to_value g = emit
     [(''name'', True, JStr (sg_name g)),
      (''services'', True, list_to_value service_to_value (sg_services g))]"

definition group_of_value :: "json \<Rightarrow> ServiceGroup option" where
  "group_of_value v = do {
     m \<leftarrow> struct_fields [''name'', ''services''] v;
     name \<leftarrow> required ''name'' str_of_value m;
     services \<leftarrow> required ''services'' (list_of_value service_of_value) m;
     Some \<lparr>sg_name = name, sg_services = services\<rparr> }"

section \<open>Routes\<close>

definition route_match_to_value :: "RouteMatch \<Rightarrow> json" where
  "route_match_to_value r = emit
     [(''pathPrefix'', rm_path_prefix r \<noteq> None, opt_to_value JStr (rm_path_prefix r)),
      (''method'', rm_method r \<noteq> None, opt_to_value JStr (rm_method r)),
      (''headers'', rm_headers r \<noteq> [], map_to_value (rm_headers r))]"

definition route_match_of_value :: "json \<Rightarrow> RouteMatch option" where
  "route_match_of_value v = do {
     m \<leftarrow> struct_fields [''pathPrefix'', ''method'', ''headers''] v;
     path_prefix \<leftarrow> defaulted ''pathPrefix'' None (opt_of_value str_of_value) m;
     method \<leftarrow> defaulted ''method'' None (opt_of_value str_of_value) m;
     headers \<leftarrow> defaulted ''headers'' [] map_of_value m;
     Some \<lparr>rm_path_prefix = path_prefix, rm_method = method, rm_headers = headers\<rparr> }"

definition default_route_match :: RouteMatch where
  "default_route_match = \<lparr>rm_path_prefix = None, rm_method = None, rm_headers = []\<rparr>"

definition route_backend_to_value :: "RouteBackend \<Rightarrow> json" where
  "route_backend_to_value b = emit
     [(''labels'', rb_labels b \<noteq> [], map_to_value (rb_labels b)),
      (''weight'', rb_weight b \<noteq> DEFAULT_WEIGHT, int_to_value (rb_weight b))]"

definition route_backend_of_value :: "json \<Rightarrow> RouteBackend option" where
  "route_backend_of_value v = do {
     m \<leftarrow> struct_fields [''labels'', ''weight''] v;
     labels \<leftarrow> defaulted ''labels'' [] map_of_value m;
     weight \<leftarrow> defaulted ''weight'' DEFAULT_WEIGHT int_of_value m;
     Some \<lparr>rb_labels = labels, rb_weight = weight\<rparr> }"

definition route_to_value :: "Route \<Rightarrow> json" where
  "route_to_value r = emit
     [(''name'', rt_name r \<noteq> None, opt_to_value JStr (rt_name r)),
      (''service'', True, JStr (rt_service r)),
      (''match'', True, route_match_to_value (rt_matches r)),
      (''backends'', True, list_to_value route_backend_to_value (rt_backends r))]"

definition route_of_value :: "json \<Rightarrow> Route option" where
  "route_of_value v = do {
     m \<leftarrow> struct_fields [''name'', ''service'', ''match'', ''backends''] v;
     name \<leftarrow> defaulted ''name'' None (opt_of_value str_of_value) m;
     service \<leftarrow> required ''service'' str_of_value m;
     matches \<leftarrow> defaulted ''match'' default_route_match route_match_of_value m;
     backends \<leftarrow> required ''backends'' (list_of_value route_backend_of_value) m;
     Some \<lparr>rt_name = name, rt_service = service, rt_matches = matches, rt_backends = backends\<rparr> }"

section \<open>The replicated configuration\<close>

definition dynamic_config_to_value :: "DynamicConfig \<Rightarrow> json" where
  "dynamic_config_to_value dc = emit
     [(''version'', True, int_to_value (dc_version dc)),
      (''serviceGroups'', True, list_to_value group_to_value (dc_service_groups dc)),
      (''routes'', dc_routes dc \<noteq> [], list_to_value route_to_value (dc_routes dc))]"

definition dynamic_config_of_value :: "json \<Rightarrow> DynamicConfig option" where
  "dynamic_config_of_value v = do {
     m \<leftarrow> struct_fields [''version'', ''serviceGroups'', ''routes''] v;
     version \<leftarrow> required ''version'' int_of_value m;
     service_groups \<leftarrow> required ''serviceGroups'' (list_of_value group_of_value) m;
     routes \<leftarrow> defaulted ''routes'' [] (list_of_value route_of_value) m;
     Some \<lparr>dc_version = version, dc_service_groups = service_groups, dc_routes = routes\<rparr> }"

definition health_to_value :: "ServiceHealth \<Rightarrow> json" where
  "health_to_value h = emit
     [(''version'', True, int_to_value (sh_version h)),
      (''unhealthy'', sh_unhealthy h \<noteq> [], list_to_value JStr (sh_unhealthy h))]"

definition health_of_value :: "json \<Rightarrow> ServiceHealth option" where
  "health_of_value v = do {
     m \<leftarrow> struct_fields [''version'', ''unhealthy''] v;
     version \<leftarrow> required ''version'' int_of_value m;
     unhealthy \<leftarrow> defaulted ''unhealthy'' [] (list_of_value str_of_value) m;
     Some \<lparr>sh_version = version, sh_unhealthy = unhealthy\<rparr> }"

text \<open>\<^verbatim>\<open>last_seen\<close> is skipped both ways.\<close>

definition node_to_value :: "NodeInfo \<Rightarrow> json" where
  "node_to_value n = emit
     [(''id'', True, JStr (ni_id n)),
      (''addr'', True, JStr (ni_addr n)),
      (''relay'', ni_relay n \<noteq> None, opt_to_value JStr (ni_relay n)),
      (''health'', \<not> sh_is_unset (ni_health n), health_to_value (ni_health n))]"

definition node_of_value :: "json \<Rightarrow> NodeInfo option" where
  "node_of_value v = do {
     m \<leftarrow> struct_fields [''id'', ''addr'', ''relay'', ''health''] v;
     id \<leftarrow> required ''id'' str_of_value m;
     addr \<leftarrow> required ''addr'' str_of_value m;
     relay \<leftarrow> defaulted ''relay'' None (opt_of_value str_of_value) m;
     health \<leftarrow> defaulted ''health'' default_service_health health_of_value m;
     Some \<lparr>ni_id = id, ni_addr = addr, ni_relay = relay, ni_last_seen = None, ni_health = health\<rparr> }"

section \<open>The configuration of a daemon\<close>

definition mode_to_value :: "Mode \<Rightarrow> json" where
  "mode_to_value m = JStr (case m of Node \<Rightarrow> ''node'' | Subscribe \<Rightarrow> ''subscribe'' | NodeSubscribe \<Rightarrow> ''nodeSubscribe'')"

definition mode_of_value :: "json \<Rightarrow> Mode option" where
  "mode_of_value v =
     (if v = JStr ''node'' then Some Node else if v = JStr ''subscribe'' then Some Subscribe
      else if v = JStr ''nodeSubscribe'' then Some NodeSubscribe else None)"

definition filter_to_value :: "SubscribeFilter \<Rightarrow> json" where
  "filter_to_value f = emit
     [(''serviceGroups'', sf_service_groups f \<noteq> [], list_to_value JStr (sf_service_groups f)),
      (''services'', sf_services f \<noteq> [], list_to_value JStr (sf_services f))]"

definition filter_of_value :: "json \<Rightarrow> SubscribeFilter option" where
  "filter_of_value v = do {
     m \<leftarrow> struct_fields [''serviceGroups'', ''services''] v;
     service_groups \<leftarrow> defaulted ''serviceGroups'' [] (list_of_value str_of_value) m;
     services \<leftarrow> defaulted ''services'' [] (list_of_value str_of_value) m;
     Some \<lparr>sf_service_groups = service_groups, sf_services = services\<rparr> }"

text \<open>
  An \<open>f64\<close> that is not finite has no JSON form and is written as \<^verbatim>\<open>null\<close>, which is not read back. An
  integer is read as the nearest \<open>f64\<close> (53 significant bits, ties to even).
\<close>

definition f64_to_value :: "f64 \<Rightarrow> json" where
  "f64_to_value x = (case x of F64_fin q \<Rightarrow> JFloat q | _ \<Rightarrow> JNull)"

definition f64_of_int :: "int \<Rightarrow> rat" where
  "f64_of_int i =
     (let n = \<bar>i\<bar>;
          e = (case find (\<lambda>k. n < 2 ^ (53 + k)) [0..<12] of Some k \<Rightarrow> k | None \<Rightarrow> 11);
          q = n div 2 ^ e;
          r = 2 * (n mod 2 ^ e);
          m = (if r > 2 ^ e \<or> r = 2 ^ e \<and> odd q then q + 1 else q)
      in of_int (sgn i * m * 2 ^ e))"

definition f64_of_value :: "json \<Rightarrow> f64 option" where
  "f64_of_value v = (case v of JFloat q \<Rightarrow> Some (F64_fin q) | JInt i \<Rightarrow> Some (F64_fin (f64_of_int i)) | _ \<Rightarrow> None)"

definition tracing_to_value :: "TracingConfig \<Rightarrow> json" where
  "tracing_to_value t = emit
     [(''otlpEndpoint'', True, JStr (tc_otlp_endpoint t)),
      (''sampleRatio'', True, f64_to_value (tc_sample_ratio t)),
      (''serviceName'', True, JStr (tc_service_name t))]"

definition tracing_of_value :: "json \<Rightarrow> TracingConfig option" where
  "tracing_of_value v = do {
     m \<leftarrow> struct_fields [''otlpEndpoint'', ''sampleRatio'', ''serviceName''] v;
     otlp_endpoint \<leftarrow> required ''otlpEndpoint'' str_of_value m;
     sample_ratio \<leftarrow> defaulted ''sampleRatio'' (F64_fin 1) f64_of_value m;
     service_name \<leftarrow> defaulted ''serviceName'' ''stouter'' str_of_value m;
     Some \<lparr>tc_otlp_endpoint = otlp_endpoint, tc_sample_ratio = sample_ratio, tc_service_name = service_name\<rparr> }"

definition config_to_value :: "Config \<Rightarrow> json" where
  "config_to_value c = emit
     [(''mode'', True, mode_to_value (cfg_mode c)),
      (''bind'', True, JStr (cfg_bind c)),
      (''advertiseAddr'', cfg_advertise_addr c \<noteq> None, opt_to_value JStr (cfg_advertise_addr c)),
      (''nodeId'', True, JStr (cfg_node_id c)),
      (''outboundOnly'', True, JBool (cfg_outbound_only c)),
      (''reversePoolSize'', cfg_reverse_pool_size c \<noteq> None, opt_to_value int_to_value (cfg_reverse_pool_size c)),
      (''knownNodes'', True, list_to_value JStr (cfg_known_nodes c)),
      (''dynamicConfig'', True, dynamic_config_to_value (cfg_dynamic_config c)),
      (''subscribeFilter'', cfg_subscribe_filter c \<noteq> None, opt_to_value filter_to_value (cfg_subscribe_filter c)),
      (''tlsDir'', cfg_tls_dir c \<noteq> None, opt_to_value JStr (cfg_tls_dir c)),
      (''adminCns'', cfg_admin_cns c \<noteq> [], list_to_value JStr (cfg_admin_cns c)),
      (''apiPort'', cfg_api_port c \<noteq> None, opt_to_value int_to_value (cfg_api_port c)),
      (''tracing'', cfg_tracing c \<noteq> None, opt_to_value tracing_to_value (cfg_tracing c)),
      (''httpListen'', cfg_http_listen c \<noteq> None, opt_to_value JStr (cfg_http_listen c))]"

definition config_of_value :: "json \<Rightarrow> Config option" where
  "config_of_value v = do {
     m \<leftarrow> struct_fields [''mode'', ''bind'', ''advertiseAddr'', ''nodeId'', ''outboundOnly'', ''reversePoolSize'',
       ''knownNodes'', ''dynamicConfig'', ''subscribeFilter'', ''tlsDir'', ''adminCns'', ''apiPort'', ''tracing'', ''httpListen''] v;
     mode \<leftarrow> required ''mode'' mode_of_value m;
     bind_addr \<leftarrow> required ''bind'' str_of_value m;
     advertise_addr \<leftarrow> defaulted ''advertiseAddr'' None (opt_of_value str_of_value) m;
     node_id \<leftarrow> required ''nodeId'' str_of_value m;
     outbound_only \<leftarrow> defaulted ''outboundOnly'' False bool_of_value m;
     reverse_pool_size \<leftarrow> defaulted ''reversePoolSize'' None (opt_of_value int_of_value) m;
     known_nodes \<leftarrow> required ''knownNodes'' (list_of_value str_of_value) m;
     dynamic_config \<leftarrow> required ''dynamicConfig'' dynamic_config_of_value m;
     subscribe_filter \<leftarrow> defaulted ''subscribeFilter'' None (opt_of_value filter_of_value) m;
     tls_dir \<leftarrow> defaulted ''tlsDir'' None (opt_of_value str_of_value) m;
     admin_cns \<leftarrow> defaulted ''adminCns'' [] (list_of_value str_of_value) m;
     api_port \<leftarrow> defaulted ''apiPort'' None (opt_of_value int_of_value) m;
     tracing \<leftarrow> defaulted ''tracing'' None (opt_of_value tracing_of_value) m;
     http_listen \<leftarrow> defaulted ''httpListen'' None (opt_of_value str_of_value) m;
     Some \<lparr>cfg_mode = mode, cfg_bind = bind_addr, cfg_advertise_addr = advertise_addr, cfg_node_id = node_id,
       cfg_outbound_only = outbound_only, cfg_reverse_pool_size = reverse_pool_size, cfg_known_nodes = known_nodes,
       cfg_dynamic_config = dynamic_config, cfg_subscribe_filter = subscribe_filter, cfg_tls_dir = tls_dir,
       cfg_admin_cns = admin_cns, cfg_api_port = api_port, cfg_tracing = tracing, cfg_http_listen = http_listen\<rparr> }"

section \<open>Each structure reads back\<close>

definition service_wf :: "Service \<Rightarrow> bool" where
  "service_wf s \<longleftrightarrow> map_wf (svc_labels s) \<and> map_wf (svc_meta s)"

definition sg_wf :: "ServiceGroup \<Rightarrow> bool" where
  "sg_wf g \<longleftrightarrow> list_all service_wf (sg_services g)"

definition rb_wf :: "RouteBackend \<Rightarrow> bool" where
  "rb_wf b \<longleftrightarrow> map_wf (rb_labels b)"

definition route_wf :: "Route \<Rightarrow> bool" where
  "route_wf r \<longleftrightarrow> map_wf (rm_headers (rt_matches r)) \<and> list_all rb_wf (rt_backends r)"

definition dynamic_wf :: "DynamicConfig \<Rightarrow> bool" where
  "dynamic_wf dc \<longleftrightarrow> list_all sg_wf (dc_service_groups dc) \<and> list_all route_wf (dc_routes dc)"

fun is_finite :: "f64 \<Rightarrow> bool" where
  "is_finite (F64_fin q) = True"
| "is_finite _ = False"

definition tracing_wf :: "TracingConfig \<Rightarrow> bool" where
  "tracing_wf t \<longleftrightarrow> is_finite (tc_sample_ratio t)"

definition config_wf :: "Config \<Rightarrow> bool" where
  "config_wf c \<longleftrightarrow> dynamic_wf (cfg_dynamic_config c) \<and> pred_option tracing_wf (cfg_tracing c)"

interpretation protocols: codec protocol_to_value protocol_of_value "\<lambda>_. True"
  by unfold_locales (simp_all add: protocol_to_value_def protocol_of_value_def split: Protocol.split)

interpretation services: exact_codec service_to_value service_of_value service_wf
  by unfold_locales (auto simp: service_to_value_def service_of_value_def service_wf_def is_tcp_def protocols.dec_enc
      bind_eq_Some_conv map_wf_Nil dest: string_maps.defaulted_wf)

interpretation groups: exact_codec group_to_value group_of_value sg_wf
  by unfold_locales (auto simp: group_to_value_def group_of_value_def sg_wf_def services.list_dec_enc
      bind_eq_Some_conv dest: services.required_list_wf)

interpretation matches: exact_codec route_match_to_value route_match_of_value "\<lambda>m. map_wf (rm_headers m)"
  by unfold_locales (auto simp: route_match_to_value_def route_match_of_value_def bind_eq_Some_conv map_wf_Nil
      dest: string_maps.defaulted_wf)

interpretation backends: exact_codec route_backend_to_value route_backend_of_value rb_wf
  by unfold_locales (auto simp: route_backend_to_value_def route_backend_of_value_def rb_wf_def bind_eq_Some_conv map_wf_Nil
      dest: string_maps.defaulted_wf)

interpretation routes: exact_codec route_to_value route_of_value route_wf
  by unfold_locales (auto simp: route_to_value_def route_of_value_def route_wf_def matches.dec_enc backends.list_dec_enc
      bind_eq_Some_conv map_wf_Nil default_route_match_def dest: matches.defaulted_wf backends.required_list_wf)

interpretation dynamics: exact_codec dynamic_config_to_value dynamic_config_of_value dynamic_wf
  by unfold_locales (auto simp: dynamic_config_to_value_def dynamic_config_of_value_def dynamic_wf_def
      groups.list_dec_enc routes.list_dec_enc bind_eq_Some_conv dest: groups.required_list_wf routes.defaulted_list_wf)

interpretation health_reports: codec health_to_value health_of_value "\<lambda>_. True"
  by unfold_locales (simp_all add: health_to_value_def health_of_value_def)

interpretation modes: codec mode_to_value mode_of_value "\<lambda>_. True"
  by unfold_locales (simp_all add: mode_to_value_def mode_of_value_def split: Mode.split)

interpretation filters: codec filter_to_value filter_of_value "\<lambda>_. True"
  by unfold_locales (simp_all add: filter_to_value_def filter_of_value_def)

interpretation ratios: exact_codec f64_to_value f64_of_value is_finite
  by unfold_locales (auto simp: f64_to_value_def f64_of_value_def split: json.splits f64.splits)

interpretation tracings: exact_codec tracing_to_value tracing_of_value tracing_wf
  by unfold_locales (auto simp: tracing_to_value_def tracing_of_value_def tracing_wf_def ratios.dec_enc
      bind_eq_Some_conv dest: ratios.defaulted_wf)

interpretation config_files: exact_codec config_to_value config_of_value config_wf
  by unfold_locales (auto simp: config_to_value_def config_of_value_def config_wf_def modes.dec_enc
      dynamics.dec_enc filters.opt_dec_enc [unfolded any_wf, OF TrueI] tracings.opt_dec_enc
      bind_eq_Some_conv dest: dynamics.required_wf tracings.defaulted_opt_wf)

end
