(* ===== verification/Message_Serde.thy ===== *)
theory Message_Serde
  imports Config_Serde Wire
begin

text \<open>
  The messages of \<^verbatim>\<open>src/gossip/messages.rs\<close> as values, by their \<^verbatim>\<open>serde\<close> attributes. An enum with a
  \<^verbatim>\<open>tag\<close> is an object whose tag names the variant; \<^verbatim>\<open>rename_all\<close> renames the variants and leaves the
  names of their fields alone. MessagePack writes a value as bytes (\<open>rmp_lib\<close>, the \<^verbatim>\<open>rmp_serde\<close>
  crate). With the framing of \<open>Wire\<close> this gives the whole way of a message from one daemon to another.
\<close>

section \<open>Admin operations\<close>

definition read_tag :: "string \<Rightarrow> json \<Rightarrow> string option" where
  "read_tag tag v = do { m \<leftarrow> struct_fields [tag] v; required tag str_of_value m }"

fun admin_op_to_value :: "AdminOp \<Rightarrow> json" where
  "admin_op_to_value (ServiceAdd grp name owner port domains weight max_connections protocol timeout health_path labels meta local_port) =
     emit [(''kind'', True, JStr ''serviceAdd''), (''group'', True, JStr grp), (''name'', True, JStr name),
       (''owner_node_id'', True, JStr owner), (''port'', True, int_to_value port),
       (''domains'', True, list_to_value JStr domains), (''weight'', True, int_to_value weight),
       (''max_connections'', True, opt_to_value int_to_value max_connections),
       (''protocol'', True, protocol_to_value protocol),
       (''request_timeout_ms'', True, opt_to_value int_to_value timeout),
       (''health_path'', True, opt_to_value JStr health_path), (''labels'', True, map_to_value labels),
       (''meta'', True, map_to_value meta), (''local_port'', True, opt_to_value int_to_value local_port)]"
| "admin_op_to_value (RoutesSet service routes) =
     emit [(''kind'', True, JStr ''routesSet''), (''service'', True, JStr service),
       (''routes'', True, list_to_value route_to_value routes)]"
| "admin_op_to_value (ServiceRename grp owner from to) =
     emit [(''kind'', True, JStr ''serviceRename''), (''group'', True, JStr grp), (''owner_node_id'', True, JStr owner),
       (''from'', True, JStr from), (''to'', True, JStr to)]"
| "admin_op_to_value (ServiceRemove grp owner name) =
     emit [(''kind'', True, JStr ''serviceRemove''), (''group'', True, JStr grp), (''owner_node_id'', True, JStr owner),
       (''name'', True, JStr name)]"

definition service_add_of_value :: "json \<Rightarrow> AdminOp option" where
  "service_add_of_value v = do {
     m \<leftarrow> struct_fields [''group'', ''name'', ''owner_node_id'', ''port'', ''domains'', ''weight'', ''max_connections'',
       ''protocol'', ''request_timeout_ms'', ''health_path'', ''labels'', ''meta'', ''local_port''] v;
     grp \<leftarrow> required ''group'' str_of_value m;
     name \<leftarrow> required ''name'' str_of_value m;
     owner \<leftarrow> required ''owner_node_id'' str_of_value m;
     port \<leftarrow> required ''port'' int_of_value m;
     domains \<leftarrow> defaulted ''domains'' [] (list_of_value str_of_value) m;
     weight \<leftarrow> defaulted ''weight'' DEFAULT_WEIGHT int_of_value m;
     max_connections \<leftarrow> defaulted ''max_connections'' None (opt_of_value int_of_value) m;
     protocol \<leftarrow> defaulted ''protocol'' Tcp protocol_of_value m;
     timeout \<leftarrow> defaulted ''request_timeout_ms'' None (opt_of_value int_of_value) m;
     health_path \<leftarrow> defaulted ''health_path'' None (opt_of_value str_of_value) m;
     labels \<leftarrow> defaulted ''labels'' [] map_of_value m;
     meta \<leftarrow> defaulted ''meta'' [] map_of_value m;
     local_port \<leftarrow> defaulted ''local_port'' None (opt_of_value int_of_value) m;
     Some (ServiceAdd grp name owner port domains weight max_connections protocol timeout health_path labels meta local_port) }"

definition admin_op_of_value :: "json \<Rightarrow> AdminOp option" where
  "admin_op_of_value v = do {
     kind \<leftarrow> read_tag ''kind'' v;
     if kind = ''serviceAdd'' then service_add_of_value v
     else if kind = ''routesSet'' then do {
       m \<leftarrow> struct_fields [''service'', ''routes''] v;
       service \<leftarrow> required ''service'' str_of_value m;
       routes \<leftarrow> required ''routes'' (list_of_value route_of_value) m;
       Some (RoutesSet service routes) }
     else if kind = ''serviceRename'' then do {
       m \<leftarrow> struct_fields [''group'', ''owner_node_id'', ''from'', ''to''] v;
       grp \<leftarrow> required ''group'' str_of_value m;
       owner \<leftarrow> required ''owner_node_id'' str_of_value m;
       from \<leftarrow> required ''from'' str_of_value m;
       to \<leftarrow> required ''to'' str_of_value m;
       Some (ServiceRename grp owner from to) }
     else if kind = ''serviceRemove'' then do {
       m \<leftarrow> struct_fields [''group'', ''owner_node_id'', ''name''] v;
       grp \<leftarrow> required ''group'' str_of_value m;
       owner \<leftarrow> required ''owner_node_id'' str_of_value m;
       name \<leftarrow> required ''name'' str_of_value m;
       Some (ServiceRemove grp owner name) }
     else None }"

definition err_code_to_value :: "AdminErrCode \<Rightarrow> json" where
  "err_code_to_value c = JStr (case c of Unauthorized \<Rightarrow> ''unauthorized'' | Validation \<Rightarrow> ''validation''
     | NotFound \<Rightarrow> ''notFound'' | Internal \<Rightarrow> ''internal'')"

definition err_code_of_value :: "json \<Rightarrow> AdminErrCode option" where
  "err_code_of_value v =
     (if v = JStr ''unauthorized'' then Some Unauthorized else if v = JStr ''validation'' then Some Validation
      else if v = JStr ''notFound'' then Some NotFound else if v = JStr ''internal'' then Some Internal else None)"

fun admin_result_to_value :: "AdminResult \<Rightarrow> json" where
  "admin_result_to_value (AdminOk new_version) =
     emit [(''kind'', True, JStr ''ok''), (''new_version'', True, int_to_value new_version)]"
| "admin_result_to_value (AdminErr err_code msg) =
     emit [(''kind'', True, JStr ''err''), (''code'', True, err_code_to_value err_code), (''message'', True, JStr msg)]"

definition admin_result_of_value :: "json \<Rightarrow> AdminResult option" where
  "admin_result_of_value v = do {
     kind \<leftarrow> read_tag ''kind'' v;
     if kind = ''ok'' then do {
       m \<leftarrow> struct_fields [''new_version''] v;
       new_version \<leftarrow> required ''new_version'' int_of_value m;
       Some (AdminOk new_version) }
     else if kind = ''err'' then do {
       m \<leftarrow> struct_fields [''code'', ''message''] v;
       err_code \<leftarrow> required ''code'' err_code_of_value m;
       msg \<leftarrow> required ''message'' str_of_value m;
       Some (AdminErr err_code msg) }
     else None }"

section \<open>Messages\<close>

fun message_to_value :: "Message \<Rightarrow> json" where
  "message_to_value (Sync config nodes) =
     emit [(''type'', True, JStr ''sync''), (''config'', True, dynamic_config_to_value config),
       (''nodes'', True, list_to_value node_to_value nodes)]"
| "message_to_value (ConfigUpdate config) =
     emit [(''type'', True, JStr ''configUpdate''), (''config'', True, dynamic_config_to_value config)]"
| "message_to_value (NodeJoin node_id addr) =
     emit [(''type'', True, JStr ''nodeJoin''), (''id'', True, JStr node_id), (''addr'', True, JStr addr)]"
| "message_to_value (NodeLeave node_id) =
     emit [(''type'', True, JStr ''nodeLeave''), (''id'', True, JStr node_id)]"
| "message_to_value (TunnelRequest node_id service_name timestamp_ms) =
     emit [(''type'', True, JStr ''tunnelRequest''), (''node_id'', True, JStr node_id),
       (''service_name'', True, JStr service_name), (''timestamp_ms'', True, int_to_value timestamp_ms)]"
| "message_to_value (ReverseRegistration node_id timestamp_ms) =
     emit [(''type'', True, JStr ''reverseRegistration''), (''node_id'', True, JStr node_id),
       (''timestamp_ms'', True, int_to_value timestamp_ms)]"
| "message_to_value StatusRequest = emit [(''type'', True, JStr ''statusRequest'')]"
| "message_to_value (StatusResponse mode node_id bind_addr dynamic_config known_nodes) =
     emit [(''type'', True, JStr ''statusResponse''), (''mode'', True, JStr mode), (''node_id'', True, JStr node_id),
       (''bind'', True, JStr bind_addr), (''dynamic_config'', True, dynamic_config_to_value dynamic_config),
       (''known_nodes'', True, list_to_value node_to_value known_nodes)]"
| "message_to_value MuxTunnel = emit [(''type'', True, JStr ''muxTunnel'')]"
| "message_to_value (AdminRequest op) = emit [(''type'', True, JStr ''adminRequest''), (''op'', True, admin_op_to_value op)]"
| "message_to_value (AdminResponse result) =
     emit [(''type'', True, JStr ''adminResponse''), (''result'', True, admin_result_to_value result)]"

text \<open>The variants, by the name in the tag.\<close>

definition variant_of_value :: "string \<Rightarrow> json \<Rightarrow> Message option" where
  "variant_of_value type v =
     (if type = ''sync'' then do {
        m \<leftarrow> struct_fields [''config'', ''nodes''] v;
        config \<leftarrow> required ''config'' dynamic_config_of_value m;
        nodes \<leftarrow> required ''nodes'' (list_of_value node_of_value) m;
        Some (Sync config nodes) }
      else if type = ''configUpdate'' then do {
        m \<leftarrow> struct_fields [''config''] v;
        config \<leftarrow> required ''config'' dynamic_config_of_value m;
        Some (ConfigUpdate config) }
      else if type = ''nodeJoin'' then do {
        m \<leftarrow> struct_fields [''id'', ''addr''] v;
        node_id \<leftarrow> required ''id'' str_of_value m;
        addr \<leftarrow> required ''addr'' str_of_value m;
        Some (NodeJoin node_id addr) }
      else if type = ''nodeLeave'' then do {
        m \<leftarrow> struct_fields [''id''] v;
        node_id \<leftarrow> required ''id'' str_of_value m;
        Some (NodeLeave node_id) }
      else if type = ''tunnelRequest'' then do {
        m \<leftarrow> struct_fields [''node_id'', ''service_name'', ''timestamp_ms''] v;
        node_id \<leftarrow> required ''node_id'' str_of_value m;
        service_name \<leftarrow> required ''service_name'' str_of_value m;
        timestamp_ms \<leftarrow> required ''timestamp_ms'' int_of_value m;
        Some (TunnelRequest node_id service_name timestamp_ms) }
      else if type = ''reverseRegistration'' then do {
        m \<leftarrow> struct_fields [''node_id'', ''timestamp_ms''] v;
        node_id \<leftarrow> required ''node_id'' str_of_value m;
        timestamp_ms \<leftarrow> required ''timestamp_ms'' int_of_value m;
        Some (ReverseRegistration node_id timestamp_ms) }
      else if type = ''statusRequest'' then Some StatusRequest
      else if type = ''statusResponse'' then do {
        m \<leftarrow> struct_fields [''mode'', ''node_id'', ''bind'', ''dynamic_config'', ''known_nodes''] v;
        mode \<leftarrow> required ''mode'' str_of_value m;
        node_id \<leftarrow> required ''node_id'' str_of_value m;
        bind_addr \<leftarrow> required ''bind'' str_of_value m;
        dynamic_config \<leftarrow> required ''dynamic_config'' dynamic_config_of_value m;
        known_nodes \<leftarrow> required ''known_nodes'' (list_of_value node_of_value) m;
        Some (StatusResponse mode node_id bind_addr dynamic_config known_nodes) }
      else if type = ''muxTunnel'' then Some MuxTunnel
      else if type = ''adminRequest'' then do {
        m \<leftarrow> struct_fields [''op''] v;
        op \<leftarrow> required ''op'' admin_op_of_value m;
        Some (AdminRequest op) }
      else if type = ''adminResponse'' then do {
        m \<leftarrow> struct_fields [''result''] v;
        result \<leftarrow> required ''result'' admin_result_of_value m;
        Some (AdminResponse result) }
      else None)"

definition message_of_value :: "json \<Rightarrow> Message option" where
  "message_of_value v = Option.bind (read_tag ''type'' v) (\<lambda>type. variant_of_value type v)"

section \<open>Messages read back\<close>

lemma read_tag_emit: "distinct (map fst ((tag, True, JStr name) # fs)) \<Longrightarrow> read_tag tag (emit ((tag, True, JStr name) # fs)) = Some name"
  by (simp add: read_tag_def str_of_value_def del: list.map)

fun op_wf :: "AdminOp \<Rightarrow> bool" where
  "op_wf (ServiceAdd grp name owner port domains weight max_connections protocol timeout health_path labels meta local_port) \<longleftrightarrow>
     map_wf labels \<and> map_wf meta"
| "op_wf (RoutesSet service routes) \<longleftrightarrow> list_all route_wf routes"
| "op_wf _ \<longleftrightarrow> True"

fun message_wf :: "Message \<Rightarrow> bool" where
  "message_wf (Sync config nodes) \<longleftrightarrow> dynamic_wf config"
| "message_wf (ConfigUpdate config) \<longleftrightarrow> dynamic_wf config"
| "message_wf (StatusResponse mode node_id bind_addr dynamic_config known_nodes) \<longleftrightarrow> dynamic_wf dynamic_config"
| "message_wf (AdminRequest op) \<longleftrightarrow> op_wf op"
| "message_wf _ \<longleftrightarrow> True"

interpretation nodes: codec node_to_value node_of_value "\<lambda>n. unseen n = n"
proof
  fix n assume "unseen n = n"
  then have "ni_last_seen (unseen n) = ni_last_seen n" "ni_health (unseen n) = ni_health n" by simp_all
  then have "ni_last_seen n = None" "sh_is_unset (ni_health n) \<Longrightarrow> ni_health n = default_service_health"
    by (simp_all add: unseen_def split: if_splits)
  then show "node_of_value (node_to_value n) = Some n"
    by (cases n) (auto simp: node_to_value_def node_of_value_def health_reports.dec_enc)
qed (simp add: node_to_value_def)

lemma service_add_wf: "service_add_of_value v = Some op \<Longrightarrow> op_wf op"
  by (auto simp: service_add_of_value_def bind_eq_Some_conv dest: string_maps.defaulted_wf [OF _ map_wf_Nil])

interpretation ops: exact_codec admin_op_to_value admin_op_of_value op_wf
proof
  fix op assume "op_wf op"
  then show "admin_op_of_value (admin_op_to_value op) = Some op"
    by (cases op) (simp_all add: admin_op_of_value_def service_add_of_value_def read_tag_emit protocols.dec_enc routes.list_dec_enc)
next
  fix op show "admin_op_to_value op \<noteq> JNull" by (cases op) simp_all
next
  fix v op assume "admin_op_of_value v = Some op"
  then show "op_wf op"
    by (auto simp: admin_op_of_value_def bind_eq_Some_conv split: if_splits dest: service_add_wf routes.required_list_wf)
qed

interpretation codes: codec err_code_to_value err_code_of_value "\<lambda>_. True"
  by unfold_locales (simp_all add: err_code_to_value_def err_code_of_value_def split: AdminErrCode.split)

interpretation results: codec admin_result_to_value admin_result_of_value "\<lambda>_. True"
proof
  fix r show "admin_result_of_value (admin_result_to_value r) = Some r"
    by (cases r) (simp_all add: admin_result_of_value_def read_tag_emit codes.dec_enc)
next
  fix r show "admin_result_to_value r \<noteq> JNull" by (cases r) simp_all
qed

lemma unseen_idem [simp]: "unseen (unseen n) = unseen n"
  by (simp add: unseen_def default_service_health_def sh_is_unset_def)

lemma node_to_value_unseen [simp]: "node_to_value (unseen n) = node_to_value n"
  by (simp add: node_to_value_def unseen_def emit_def default_service_health_def sh_is_unset_def)

lemma message_to_value_on_wire: "message_to_value (on_wire msg) = message_to_value msg"
  by (cases msg) (simp_all add: on_wire_def list_to_value_def comp_def)

lemma nodes_read: "list_of_value node_of_value (list_to_value node_to_value nodes) = Some (map unseen nodes)"
  using nodes.list_dec_enc [of "map unseen nodes"] by (simp add: list_to_value_def comp_def list_all_iff)

lemma message_read: "message_wf msg \<Longrightarrow> message_of_value (message_to_value msg) = Some (on_wire msg)"
  by (cases msg) (simp_all add: message_of_value_def variant_of_value_def read_tag_emit on_wire_def dynamics.dec_enc
      nodes_read ops.dec_enc results.dec_enc)

text \<open>Whatever arrives is well-formed.\<close>

lemma message_of_value_wf: "message_of_value v = Some msg \<Longrightarrow> message_wf msg"
  by (auto simp: message_of_value_def variant_of_value_def bind_eq_Some_conv split: if_splits
      dest: dynamics.required_wf ops.required_wf)

section \<open>The way of a message\<close>

record rmp_lib =
  rmp_to_vec :: "json \<Rightarrow> string + bytes"
  rmp_from_slice :: "bytes \<Rightarrow> string + json"

definition rmp_serde :: "rmp_lib \<Rightarrow> wire_lib" where
  "rmp_serde rmp =
     \<lparr>to_vec_named = (\<lambda>msg. rmp_to_vec rmp (message_to_value msg)),
      from_slice = (\<lambda>bs. try_then (rmp_from_slice rmp bs) (\<lambda>v.
        case message_of_value v of Some msg \<Rightarrow> Inr msg | None \<Rightarrow> Inl ''invalid message''))\<rparr>"

text \<open>MessagePack reads the value it wrote.\<close>

definition rmp_ok :: "rmp_lib \<Rightarrow> bool" where
  "rmp_ok rmp \<longleftrightarrow> (\<forall>v bs. rmp_to_vec rmp v = Inr bs \<longrightarrow> rmp_from_slice rmp bs = Inr v)"

text \<open>
  C22. A message that is sent arrives. Every kind of message, with every field, survives being turned
  into a value, packed, framed, read back and decoded; only the local liveness markers and unset
  health reports are dropped. What follows in the stream is untouched. (The payload is at most 1 MiB,
  and the maps in it are ordered by key.)
\<close>

theorem message_roundtrip:
  assumes "rmp_ok rmp" "message_wf msg" "rmp_to_vec rmp (message_to_value msg) = Inr payload" "length payload \<le> 2 ^ 20"
    and "tr_room tr = None" "tr_flushes tr"
  shows "\<exists>tr' sent. send_message (rmp_serde rmp) tr msg = (tr', Inr ()) \<and> tr_sent tr' = tr_sent tr @ sent \<and>
    recv_message (rmp_serde rmp) (sent @ rest) = Inr (on_wire msg, rest)"
proof (rule wire_roundtrip)
  show "to_vec_named (rmp_serde rmp) msg = Inr payload" using assms(3) by (simp add: rmp_serde_def)
  have "rmp_from_slice rmp payload = Inr (message_to_value msg)" using assms(1,3) by (simp add: rmp_ok_def)
  then show "from_slice (rmp_serde rmp) payload = Inr (on_wire msg)"
    using message_read [OF assms(2)] by (simp add: rmp_serde_def)
qed (use assms in simp_all)

text \<open>A packing of some values, one byte each.\<close>

definition sample_rmp :: rmp_lib where
  "sample_rmp =
     \<lparr>rmp_to_vec = (\<lambda>v. if v = message_to_value (ConfigUpdate default_dynamic_config) then Inr [0x81]
        else Inl ''not representable''),
      rmp_from_slice = (\<lambda>bs. Inr (message_to_value (ConfigUpdate default_dynamic_config)))\<rparr>"

theorem message_roundtrip_witness:
  "\<exists>tr' sent. send_message (rmp_serde sample_rmp) \<lparr>tr_sent = [], tr_room = None, tr_flushes = True\<rparr> (ConfigUpdate default_dynamic_config) = (tr', Inr ()) \<and>
     tr_sent tr' = sent \<and>
     recv_message (rmp_serde sample_rmp) (sent @ [7]) = Inr (ConfigUpdate default_dynamic_config, [7])"
proof -
  have "rmp_ok sample_rmp" by (auto simp: rmp_ok_def sample_rmp_def split: if_splits)
  moreover have "message_wf (ConfigUpdate default_dynamic_config)" by (simp add: dynamic_wf_def default_dynamic_config_def)
  moreover have "rmp_to_vec sample_rmp (message_to_value (ConfigUpdate default_dynamic_config)) = Inr [0x81]"
    by (simp add: sample_rmp_def)
  ultimately show ?thesis
    using message_roundtrip [of sample_rmp "ConfigUpdate default_dynamic_config" "[0x81]" "\<lparr>tr_sent = [], tr_room = None, tr_flushes = True\<rparr>" "[7]"]
    by (simp add: on_wire_def)
qed

end
