(* ===== verification/Json_Sample.thy ===== *)
theory Json_Sample
  imports Serde
begin

text \<open>
  A way of writing values as text and reading them back, with which the theorems about the
  configuration file are exercised. It is not \<^verbatim>\<open>serde_json\<close>'s format, which is a parameter of those
  theorems; it only shows that what they ask of such a format can be had.
\<close>

section \<open>Writing and reading\<close>

fun write_str :: "string \<Rightarrow> string" where
  "write_str [] = ''.''"
| "write_str (c # s) = CHR '':'' # c # write_str s"

fun read_str :: "string \<Rightarrow> (string \<times> string) option" where
  "read_str (t # r) =
     (if t = CHR ''.'' then Some ([], r)
      else case r of [] \<Rightarrow> None | c # r' \<Rightarrow> map_option (apfst ((#) c)) (read_str r'))"
| "read_str [] = None"

definition write_int :: "int \<Rightarrow> string" where
  "write_int i = (if i < 0 then CHR ''-'' else CHR ''+'') # replicate (nat \<bar>i\<bar>) CHR ''1'' @ ''.''"

definition read_int :: "string \<Rightarrow> (int \<times> string) option" where
  "read_int s =
     (case s of
        [] \<Rightarrow> None
      | sign # r \<Rightarrow>
          let n = int (length (takeWhile (\<lambda>c. c = CHR ''1'') r))
          in Some (if sign = CHR ''-'' then - n else n, drop 1 (dropWhile (\<lambda>c. c = CHR ''1'') r)))"

fun write_json :: "json \<Rightarrow> string" where
  "write_json JNull = ''n''"
| "write_json (JBool b) = (if b then ''t'' else ''f'')"
| "write_json (JInt i) = CHR ''i'' # write_int i"
| "write_json (JFloat q) = CHR ''q'' # write_int (fst (quotient_of q)) @ write_int (snd (quotient_of q))"
| "write_json (JStr s) = CHR ''s'' # write_str s"
| "write_json (JArr vs) = CHR ''a'' # concat (map (\<lambda>v. CHR '','' # write_json v) vs) @ '']''"
| "write_json (JObj kvs) = CHR ''o'' # concat (map (\<lambda>(k, v). CHR '','' # write_str k @ write_json v) kvs) @ '']''"

fun read_items :: "(string \<Rightarrow> ('a \<times> string) option) \<Rightarrow> nat \<Rightarrow> string \<Rightarrow> ('a list \<times> string) option" where
  "read_items rd (Suc n) (c # s) =
     (if c = CHR '']'' then Some ([], s)
      else case rd s of None \<Rightarrow> None | Some (x, r) \<Rightarrow> map_option (apfst ((#) x)) (read_items rd n r))"
| "read_items rd _ _ = None"

fun read_json :: "nat \<Rightarrow> string \<Rightarrow> (json \<times> string) option" where
  "read_json (Suc n) (c # s) =
     (if c = CHR ''n'' then Some (JNull, s)
      else if c = CHR ''t'' then Some (JBool True, s)
      else if c = CHR ''f'' then Some (JBool False, s)
      else if c = CHR ''i'' then map_option (apfst JInt) (read_int s)
      else if c = CHR ''q'' then
        (case read_int s of None \<Rightarrow> None
         | Some (a, r) \<Rightarrow> map_option (apfst (\<lambda>b. JFloat (of_int a / of_int b))) (read_int r))
      else if c = CHR ''s'' then map_option (apfst JStr) (read_str s)
      else if c = CHR ''a'' then map_option (apfst JArr) (read_items (read_json n) n s)
      else map_option (apfst JObj) (read_items (\<lambda>s.
        case read_str s of None \<Rightarrow> None | Some (k, r) \<Rightarrow> map_option (apfst (Pair k)) (read_json n r)) n s))"
| "read_json _ _ = None"

section \<open>What is written is read\<close>

lemma read_write_str: "read_str (write_str s @ r) = Some (s, r)"
  by (induction s) simp_all

lemma read_write_int: "read_int (write_int i @ r) = Some (i, r)"
proof -
  have "takeWhile (\<lambda>c. c = CHR ''1'') (replicate n CHR ''1'' @ CHR ''.'' # r) = replicate n CHR ''1''"
    "dropWhile (\<lambda>c. c = CHR ''1'') (replicate n CHR ''1'' @ CHR ''.'' # r) = CHR ''.'' # r" for n
    by (induction n) simp_all
  then show ?thesis by (simp add: write_int_def read_int_def)
qed

lemma read_write_items:
  assumes "\<And>x r. x \<in> set xs \<Longrightarrow> rd (wr x @ r) = Some (x, r)" "length xs < n"
  shows "read_items rd n (concat (map (\<lambda>x. CHR '','' # wr x) xs) @ CHR '']'' # r) = Some (xs, r)"
  using assms
proof (induction xs arbitrary: n)
  case Nil
  then show ?case by (cases n) simp_all
next
  case (Cons x xs)
  then show ?case by (cases n) simp_all
qed

lemma length_concat_commas: "length xs \<le> length (concat (map (\<lambda>x. CHR '','' # wr x) xs))"
  by (induction xs) simp_all

lemma length_item: "x \<in> set xs \<Longrightarrow> length (wr x) < length (concat (map (\<lambda>x. CHR '','' # wr x) xs))"
  by (induction xs) auto

lemma read_write_list:
  assumes "\<And>x r. x \<in> set xs \<Longrightarrow> length (wr x) \<le> n \<Longrightarrow> rd (wr x @ r) = Some (x, r)"
    and "length (concat (map (\<lambda>x. CHR '','' # wr x) xs)) < n"
  shows "read_items rd n (concat (map (\<lambda>x. CHR '','' # wr x) xs) @ CHR '']'' # r) = Some (xs, r)"
  using assms length_concat_commas [of xs wr] length_item [of _ xs wr]
  by (intro read_write_items) (force intro: less_imp_le less_trans)+

lemma read_write_json: "length (write_json v) \<le> n \<Longrightarrow> read_json n (write_json v @ r) = Some (v, r)"
proof (induction v arbitrary: n r)
  case (JFloat q)
  then show ?case
    by (cases n) (auto simp: read_write_int intro: quotient_of_div [symmetric] split: prod.split)
next
  case (JArr vs)
  then obtain m where n: "n = Suc m" by (cases n) auto
  with JArr.prems have "length (concat (map (\<lambda>v. CHR '','' # write_json v) vs)) < m" by simp
  with JArr.IH have "read_items (read_json m) m (concat (map (\<lambda>v. CHR '','' # write_json v) vs) @ CHR '']'' # r) = Some (vs, r)"
    by (intro read_write_list) auto
  with n show ?case by simp
next
  case (JObj kvs)
  let ?wr = "\<lambda>(k, v). write_str k @ write_json v"
  obtain m where n: "n = Suc m" using JObj.prems by (cases n) auto
  have wr: "(\<lambda>(k, v). CHR '','' # write_str k @ write_json v) = (\<lambda>x. CHR '','' # ?wr x)" by auto
  have "read_items (\<lambda>s. case read_str s of None \<Rightarrow> None | Some (k, r) \<Rightarrow> map_option (apfst (Pair k)) (read_json m r)) m
      (concat (map (\<lambda>x. CHR '','' # ?wr x) kvs) @ CHR '']'' # r) = Some (kvs, r)"
  proof (rule read_write_list)
    fix x r assume x: "x \<in> set kvs" "length (?wr x) \<le> m"
    then obtain k v where kv: "x = (k, v)" by fastforce
    with x JObj.IH [of x v m r] show "(case read_str (?wr x @ r) of None \<Rightarrow> None
        | Some (k, r) \<Rightarrow> map_option (apfst (Pair k)) (read_json m r)) = Some (x, r)"
      by (simp add: read_write_str)
  qed (use JObj.prems n wr in simp)
  with n wr show ?case by simp
qed (auto simp: read_write_int read_write_str dest!: Suc_le_D)

end
