(* ===== verification/Persistence.thy ===== *)
theory Persistence
  imports Message_Serde Cli_Laws Json_Sample
begin

text \<open>
  What is written is read again: the configuration file of a running daemon through any sequence of
  gossip events, and the file that a command saves. The text of a value is \<^verbatim>\<open>serde_json\<close>'s, the parameter
  \<open>json_text\<close>; the value of a configuration is \<open>Config_Serde\<close>'s.
\<close>

record json_text =
  jt_print :: "json \<Rightarrow> string"
  jt_parse :: "string \<Rightarrow> json option"

definition serde_json :: "json_text \<Rightarrow> json_lib" where
  "serde_json t =
     \<lparr>to_json = (\<lambda>c. jt_print t (config_to_value c)),
      from_json = (\<lambda>s. Option.bind (jt_parse t s) config_of_value)\<rparr>"

text \<open>
  The text of a configuration is read back as the same value. A number with a fraction may lose its
  last bit on the way (the crate's \<^verbatim>\<open>float_roundtrip\<close> feature is off), so the one there is, the sample
  ratio, has to be one that does not.
\<close>

definition ratio_exact :: "json_text \<Rightarrow> Config \<Rightarrow> bool" where
  "ratio_exact t c \<longleftrightarrow>
     (case map_option tc_sample_ratio (cfg_tracing c) of
        Some (F64_fin q) \<Rightarrow> jt_parse t (jt_print t (JFloat q)) = Some (JFloat q)
      | _ \<Rightarrow> True)"

definition text_ok :: "json_text \<Rightarrow> bool" where
  "text_ok t \<longleftrightarrow>
     (\<forall>c. config_wf c \<longrightarrow> ratio_exact t c \<longrightarrow> jt_parse t (jt_print t (config_to_value c)) = Some (config_to_value c))"

lemma serde_json_reads:
  "text_ok t \<Longrightarrow> config_wf c \<Longrightarrow> ratio_exact t c \<Longrightarrow> from_json (serde_json t) (to_json (serde_json t) c) = Some c"
  by (simp add: serde_json_def text_ok_def config_files.dec_enc)

lemma ratio_exact_dynamic [simp]: "ratio_exact t (c\<lparr>cfg_dynamic_config := dc\<rparr>) = ratio_exact t c"
  by (simp add: ratio_exact_def)

lemma serde_json_wf: "from_json (serde_json t) s = Some c \<Longrightarrow> config_wf c"
  by (auto simp: serde_json_def bind_eq_Some_conv intro: config_files.dec_wf)

section \<open>The data stays well-formed\<close>

lemma list_all_update_first: "list_all P xs \<Longrightarrow> (\<And>x. P x \<Longrightarrow> P (f x)) \<Longrightarrow> list_all P (update_first p f xs)"
  by (induction xs) auto

lemma list_all_put_service: "list_all service_wf ss \<Longrightarrow> service_wf s \<Longrightarrow> list_all service_wf (put_service s ss)"
  by (auto simp: put_service_def Let_def intro: list_all_update_first split: option.splits)

lemma dynamic_wf_bump [simp]: "dynamic_wf (bump_version dc) = dynamic_wf dc"
  by (simp add: dynamic_wf_def)

lemma dynamic_wf_groups:
  assumes "dynamic_wf dc" "\<And>g. sg_wf g \<Longrightarrow> sg_wf (f g)"
  shows "dynamic_wf (dc\<lparr>dc_service_groups := update_first p f (dc_service_groups dc)\<rparr>)"
  using assms by (auto simp: dynamic_wf_def intro: list_all_update_first)

lemma dynamic_wf_upsert: "dynamic_wf dc \<Longrightarrow> service_wf s \<Longrightarrow> dynamic_wf (fst (upsert_service dc grp s))"
  by (cases "find (\<lambda>g. sg_name g = grp) (dc_service_groups dc)")
    (auto simp: upsert_service_def Let_def sg_wf_def list_all_put_service intro!: dynamic_wf_groups, simp add: dynamic_wf_def sg_wf_def)

lemma find_wf: "list_all P xs \<Longrightarrow> find p xs = Some x \<Longrightarrow> P x"
  using find_set by (fastforce simp: list_all_iff)

lemma dynamic_wf_remove:
  assumes "dynamic_wf dc" "remove_service dc grp node name = Inr (dc', v)"
  shows "dynamic_wf dc'"
proof -
  obtain g where g: "find (\<lambda>g. sg_name g = grp) (dc_service_groups dc) = Some g"
    using assms(2) by (auto simp: remove_service_def split: option.splits)
  have "sg_wf g" using assms(1) find_wf [OF _ g, of sg_wf] by (simp add: dynamic_wf_def)
  then have "list_all service_wf (filter p (sg_services g))" for p by (auto simp: sg_wf_def list_all_iff)
  then show ?thesis
    using assms g by (auto simp: remove_service_def Let_def sg_wf_def split: if_splits intro!: dynamic_wf_groups)
qed

lemma dynamic_wf_rename:
  assumes "dynamic_wf dc" "rename_service dc grp node from to = Inr (dc', v)"
  shows "dynamic_wf dc'"
proof -
  obtain g where g: "find (\<lambda>g. sg_name g = grp) (dc_service_groups dc) = Some g"
    using assms(2) by (auto simp: rename_service_def split: option.splits)
  have "sg_wf g" using assms(1) find_wf [OF _ g, of sg_wf] by (simp add: dynamic_wf_def)
  then have "list_all service_wf (update_first p (\<lambda>s. s\<lparr>svc_name := to\<rparr>) (sg_services g))" for p
    by (auto simp: sg_wf_def service_wf_def intro: list_all_update_first)
  then show ?thesis
    using assms g by (auto simp: rename_service_def Let_def sg_wf_def split: if_splits intro!: dynamic_wf_groups)
qed

lemma dynamic_wf_routes:
  assumes "dynamic_wf dc" "list_all route_wf routes" "set_routes lib dc service routes = Inr (dc', v)"
  shows "dynamic_wf dc'"
proof -
  have "list_all route_wf (splice i routes (filter p (dc_routes dc)))" for i p
    using assms(1,2) by (auto simp: splice_def dynamic_wf_def list_all_iff dest!: in_set_takeD in_set_dropD)
  then show ?thesis
    using assms(1,3) by (auto simp: set_routes_def loop_simps Let_def dynamic_wf_def)
qed

lemma dynamic_wf_admin:
  assumes "dynamic_wf dc" "op_wf op" "apply_admin_op lib dc op = Inr (dc', v)"
  shows "dynamic_wf dc'"
proof (cases op)
  case (ServiceAdd grp a b c d e f g h i j k l)
  then have "service_wf (service_of_add op)" using assms(2) by (simp add: service_of_add_def service_wf_def)
  then have "dynamic_wf (fst (upsert_service dc grp (service_of_add op)))" by (rule dynamic_wf_upsert [OF assms(1)])
  moreover have "upsert_service dc grp (service_of_add op) = (dc', v)"
    using assms(3) ServiceAdd by (simp add: apply_admin_op_def split: option.splits sum.splits)
  ultimately show ?thesis by simp
next
  case (RoutesSet service routes)
  then show ?thesis using assms dynamic_wf_routes by (simp add: apply_admin_op_def)
next
  case (ServiceRename grp owner old new)
  then show ?thesis using assms dynamic_wf_rename by (simp add: apply_admin_op_def)
next
  case (ServiceRemove grp owner name)
  then show ?thesis using assms dynamic_wf_remove by (simp add: apply_admin_op_def)
qed

section \<open>The file is always current\<close>

text \<open>Every message a daemon decodes is well-formed (\<open>message_of_value_wf\<close>).\<close>

definition event_wf :: "gossip_event \<Rightarrow> bool" where
  "event_wf e \<longleftrightarrow>
     (case e of
        Received _ _ _ _ msg \<Rightarrow> message_wf msg
      | SyncReply _ reply \<Rightarrow> pred_option message_wf reply
      | _ \<Rightarrow> True)"

lemma adopt_wf: "dynamic_wf (ss_dynamic_config st) \<Longrightarrow> dynamic_wf c \<Longrightarrow> dynamic_wf (ss_dynamic_config (adopt_config json st c))"
  by (simp add: adopt_content)

lemma apply_message_wf:
  "dynamic_wf (ss_dynamic_config st) \<Longrightarrow> message_wf msg \<Longrightarrow> dynamic_wf (ss_dynamic_config (apply_message json now st msg))"
  by (cases msg) (simp_all add: apply_message_config adopt_wf)

lemma admin_wf:
  "dynamic_wf (ss_dynamic_config st) \<Longrightarrow> op_wf op \<Longrightarrow>
     dynamic_wf (ss_dynamic_config (fst (handle_admin_request json lib st cn op)))"
  by (auto simp: handle_admin_request_def Let_def dynamic_wf_admin split: sum.splits)

lemma gossip_step_wf:
  assumes "file_synced json base st" "dynamic_wf (ss_dynamic_config st)" "event_wf (snd ev)"
  shows "dynamic_wf (ss_dynamic_config (gossip_step json lib st ev))"
proof -
  obtain now e where ev: "ev = (now, e)" by fastforce
  show ?thesis
  proof (cases e)
    case (Received peer cn stream now_ms msg)
    with assms ev show ?thesis
      by (cases msg) (auto simp: event_wf_def gossip_step_def received_def handle_gossip_message_def Let_def apply_message_wf adopt_wf
          admin_wf)
  next
    case (SyncReply addr reply)
    with assms ev show ?thesis
      by (auto simp: event_wf_def gossip_step_def sync_with_peer_def adopt_wf split: option.splits Message.splits)
  next
    case Poll
    with assms ev show ?thesis by (simp add: gossip_step_def synced_poll_idle)
  next
    case (HealthReport h)
    with assms ev show ?thesis by (simp add: gossip_step_def)
  qed
qed

lemma synced_wf: "file_synced (serde_json t) base st \<Longrightarrow> dynamic_wf (ss_dynamic_config st)"
  by (auto simp: file_synced_def config_load_def bind_eq_Some_conv config_wf_def dest!: serde_json_wf)

lemma serde_json_faithful:
  assumes "text_ok t" "dynamic_wf dc" "config_load (serde_json t) st = Some c" "ratio_exact t c"
  shows "json_faithful (serde_json t) st dc"
proof -
  have "config_wf (c\<lparr>cfg_dynamic_config := dc\<rparr>)"
    using assms(2,3) by (auto simp: config_load_def bind_eq_Some_conv config_wf_def dest!: serde_json_wf)
  with assms show ?thesis by (simp add: json_faithful_def serde_json_reads)
qed

lemma gossip_step_synced:
  assumes "text_ok t" "ratio_exact t base" "file_synced (serde_json t) base st" "event_wf (snd ev)"
  shows "file_synced (serde_json t) base (gossip_step (serde_json t) lib st ev)"
proof -
  have "dynamic_wf (ss_dynamic_config (gossip_step (serde_json t) lib st ev))"
    by (rule gossip_step_wf [OF assms(3) synced_wf [OF assms(3)] assms(4)])
  then have "json_faithful (serde_json t) st (ss_dynamic_config (gossip_step (serde_json t) lib st ev))"
    using assms synced_readable [OF assms(3)] by (auto elim: serde_json_faithful)
  then show ?thesis using file_follows_memory [OF assms(3)] by blast
qed

text \<open>
  C32. While the configuration file is writable, it always holds the configuration in memory. Through
  any sequence of messages, registrations, syncs, admin requests and polls, every event that changes one rewrites the
  other, every field survives being written and read again, and so a restart resumes from the latest
  configuration. The other settings in the file stay as they are, and a poll of the file changes and
  broadcasts nothing.
\<close>

theorem file_always_current:
  assumes "text_ok t" "ratio_exact t base" "file_synced (serde_json t) base st" "list_all (\<lambda>(now, e). event_wf e) evs"
  shows "file_synced (serde_json t) base (foldl (gossip_step (serde_json t) lib) st evs) \<and>
    config_poll (serde_json t) (foldl (gossip_step (serde_json t) lib) st evs) warned =
      (foldl (gossip_step (serde_json t) lib) st evs, warned, [])"
proof -
  have "file_synced (serde_json t) base (foldl (gossip_step (serde_json t) lib) st evs)"
    using assms(3,4)
    by (induction evs arbitrary: st) (auto simp: gossip_step_synced [OF assms(1,2)])
  then show ?thesis by (simp add: synced_poll_idle)
qed

text \<open>
  C33. What a command saves is what the next command, or the daemon, loads: after a save that reports
  success, reading the file gives the very configuration that was saved, whichever way the save went.
\<close>

theorem saved_config_loads:
  assumes "text_ok t" "ce_json env = serde_json t" "config_wf cfg" "ratio_exact t cfg" "pe_readable (ce_pki env) (ce_resolve env file)"
    and "cli_save env file cfg w = (w', Inr u)"
  shows "load_file env w' file = Inr cfg"
proof -
  have "map_option f_data (cw_fs w' (ce_resolve env file)) = Some (to_json (ce_json env) cfg)"
    using assms(6) by (auto simp: cli_save_def save_def map_err_def dest!: write_atomic_data split: prod.splits sum.splits)
  then show ?thesis
    using assms(2,5) serde_json_reads [OF assms(1,3,4)]
    by (auto simp: load_file_def read_to_string_def ok_or_def)
qed

section \<open>Witnesses\<close>

definition sample_text :: json_text where
  "sample_text = \<lparr>jt_print = write_json, jt_parse = (\<lambda>s. map_option fst (read_json (length s) s))\<rparr>"

lemma sample_text_reads: "jt_parse sample_text (jt_print sample_text v) = Some v"
  using read_write_json [of v "length (write_json v)" "[]"] by (simp add: sample_text_def)

lemma sample_text_ok: "text_ok sample_text"
  by (simp add: text_ok_def sample_text_reads)

lemma sample_ratio_exact: "ratio_exact sample_text c"
  by (simp add: ratio_exact_def sample_text_reads split: option.split f64.split)

definition traced_config :: Config where
  "traced_config = sample_config\<lparr>cfg_tracing := Some
     \<lparr>tc_otlp_endpoint = ''http://127.0.0.1:4318'', tc_sample_ratio = F64_fin (1 / 2), tc_service_name = ''edge''\<rparr>\<rparr>"

lemma traced_config_wf: "config_wf traced_config"
  by (simp add: config_wf_def traced_config_def sample_config_def dynamic_wf_def sample_dc_def sg_wf_def service_wf_def
      sample_service_def map_wf_Nil tracing_wf_def)

definition traced_state :: SharedState where
  "traced_state = new_state traced_config True (Some (to_json (serde_json sample_text) traced_config)) True"

theorem file_always_current_witness:
  "file_synced (serde_json sample_text) traced_config
     (foldl (gossip_step (serde_json sample_text) lib0) traced_state
       [(0, Received [] None 0 0 (ConfigUpdate (sample_dc\<lparr>dc_version := 9, dc_service_groups := []\<rparr>))),
        (1, Received [] (Some ''ops'') 1 0 (AdminRequest (ServiceRename ''web'' ''n1'' ''api'' ''shop''))), (2, Poll)])"
  (is "file_synced _ _ (foldl _ _ ?evs)")
proof -
  have "file_synced (serde_json sample_text) traced_config traced_state"
    using serde_json_reads [OF sample_text_ok traced_config_wf sample_ratio_exact]
    by (simp add: file_synced_def config_load_def traced_state_def new_state_def)
  moreover have "list_all (\<lambda>(now, e). event_wf e) ?evs" by (simp add: event_wf_def dynamic_wf_def sample_dc_def)
  ultimately show ?thesis using file_always_current [OF sample_text_ok sample_ratio_exact] by blast
qed

theorem saved_config_loads_witness:
  "\<exists>w'. cli_save (sample_cli_env\<lparr>ce_json := serde_json sample_text\<rparr>) ''stouter.json'' traced_config (sample_world []) = (w', Inr ()) \<and>
     load_file (sample_cli_env\<lparr>ce_json := serde_json sample_text\<rparr>) w' ''stouter.json'' = Inr traced_config"
proof -
  let ?env = "sample_cli_env\<lparr>ce_json := serde_json sample_text\<rparr>"
  have "snd (cli_save ?env ''stouter.json'' traced_config (sample_world [])) = Inr ()"
    by (simp add: cli_save_def save_def write_atomic_def write_then_rename_def take_meta_def tmp_path_def map_err_def Let_def
        sample_cli_env_def sample_write_env_def sample_world_def sample_tls_fs_def)
  then obtain w' where w: "cli_save ?env ''stouter.json'' traced_config (sample_world []) = (w', Inr ())"
    by (cases "cli_save ?env ''stouter.json'' traced_config (sample_world [])") simp
  from saved_config_loads [OF sample_text_ok _ traced_config_wf sample_ratio_exact _ w] w show ?thesis
    by (simp add: sample_cli_env_def sample_pki_env_def)
qed

end
