(* ===== verification/Spec2Isabelle.thy ===== *)
theory Spec2Isabelle
  imports Gossip_Laws Health Tunnel Http_Listener Subscribe_Api Cli_Laws Stream_Copy Lifecycle Drain_Wait Mesh_Io Persistence
begin

text \<open>
  \<^bold>\<open>Verification of the stouter service mesh daemon.\<close>

  \<^bold>\<open>The program.\<close> Every machine of a cluster runs one daemon, as a \<^emph>\<open>node\<close>, which hosts services, or
  as a \<^emph>\<open>subscriber\<close>, which makes them available on local ports. Its parts are:
  \<^item> the configuration (\<^verbatim>\<open>config.rs\<close>): a static part and a replicated, versioned dynamic part with
    service groups, instances and HTTP routes; validation; the file it is kept in;
  \<^item> gossip (\<^verbatim>\<open>gossip/messages.rs\<close>, \<^verbatim>\<open>gossip/mod.rs\<close>): framed MessagePack messages over mutual TLS,
    which replicate the dynamic configuration (the greater version wins), the node table and the
    health reports, and carry admin requests and tunnel requests;
  \<^item> the state all tasks share (\<^verbatim>\<open>state.rs\<close>), health checks (\<^verbatim>\<open>health.rs\<close>) and metrics
    (\<^verbatim>\<open>metrics.rs\<close>);
  \<^item> the node (\<^verbatim>\<open>node/*.rs\<close>): tunnels to local services, relaying to nodes behind NAT over reverse
    connections, multiplexed sessions (\<^verbatim>\<open>mux.rs\<close>), byte copying (\<^verbatim>\<open>io.rs\<close>);
  \<^item> the subscriber (\<^verbatim>\<open>subscribe/*.rs\<close>): the manager that starts and stops local listeners as the
    configuration changes, the TCP proxy, the HTTP proxy with routes, retries and traces, the load
    balancer both use, the shared HTTP listener and the REST API; span export (\<^verbatim>\<open>telemetry.rs\<close>);
  \<^item> certificates (\<^verbatim>\<open>pki.rs\<close>, \<^verbatim>\<open>tls.rs\<close>) and the command line (\<^verbatim>\<open>main.rs\<close>), which edits the local file,
    talks to a running daemon, or becomes one.

  A command changes the configuration through the operations of \<open>Config_Model\<close>, in the file or by an
  admin request to a daemon; gossip carries the change to every daemon; the subscriber's manager
  reacts by starting or stopping proxies; a client's connection is taken through the balancer to a
  node, whose tunnel handler connects it to the service; bytes are copied until either side is done
  or idle; and a shutdown waits for the work in flight.

  \<^bold>\<open>Theories and sources\<close> (paths under \<^verbatim>\<open>src/src\<close>; a definition has the name of the function it
  translates, or that name with a suffix where HOL or another module has it already):
  \<^item> \<open>Stouter_Prelude\<close>, \<open>Rust_Str\<close>, \<open>Rust_Net\<close>: what the program uses of Rust's standard library:
    machine integers, hash maps, loops with early return, strings as UTF-8 bytes, socket addresses.
  \<^item> \<open>Config_Model\<close>, \<open>Config_Catalog\<close>, \<open>Config_Validation\<close>, \<open>Config_Store\<close>: \<^verbatim>\<open>config.rs\<close>. The records and
    mutations of the dynamic configuration; the catalogue of instances they implement;
    \<^verbatim>\<open>Config::validate\<close>; loading, checking and atomically replacing the file.
  \<^item> \<open>Round_Robin\<close>, \<open>Balancer\<close>: \<^verbatim>\<open>subscribe/balancer.rs\<close>. \<open>Inner\<close> is the state under the mutex.
  \<^item> \<open>Shared_State\<close>, \<open>Drain_Wait\<close>: \<^verbatim>\<open>state.rs\<close>. Stream pools, derived indexes, the node table, the
    in-flight counter; the second theory has its guards and its waiter as single atomic operations.
  \<^item> \<open>Wire\<close>: \<^verbatim>\<open>gossip/messages.rs\<close>, \<^verbatim>\<open>send_message\<close>, \<^verbatim>\<open>recv_message\<close>.
  \<^item> \<open>Serde\<close>, \<open>Config_Serde\<close>, \<open>Message_Serde\<close>: the \<^verbatim>\<open>serde\<close> attributes of \<^verbatim>\<open>config.rs\<close> and \<^verbatim>\<open>gossip/messages.rs\<close>.
    Each structure has a \<open>_to_value\<close> and an \<open>_of_value\<close> function. \<open>Persistence\<close>: what is saved is loaded
    again; \<open>Json_Sample\<close> has a text format to exercise it with.
  \<^item> \<open>Gossip\<close>, \<open>Gossip_Laws\<close>: \<^verbatim>\<open>gossip/mod.rs\<close>. Handlers, merging, syncing, the admin operations, the
    poll of the file; the second theory has what they guarantee. Its events are the messages that
    \<^verbatim>\<open>dispatch_connection\<close> hands on, \<open>received\<close>, sync replies, polls and health reports. \<open>Registration\<close>: the
    reverse registrations of \<^verbatim>\<open>node/relay.rs\<close>, which write the node table too.
  \<^item> \<open>Health\<close>: \<^verbatim>\<open>health.rs\<close>. Probes, the tracker, a round of the checker, broadcasting a report.
  \<^item> \<open>Tunnel\<close>: \<^verbatim>\<open>node/tunnel.rs\<close>, \<^verbatim>\<open>node/relay.rs\<close>, \<^verbatim>\<open>node/reverse.rs\<close>, the node's stream handler of
    \<^verbatim>\<open>mux.rs\<close> and \<^verbatim>\<open>dispatch_connection\<close> in \<^verbatim>\<open>gossip/mod.rs\<close>.
  \<^item> \<open>Mux_Session\<close>: the session driver of \<^verbatim>\<open>mux.rs\<close> and its callers, those waiting for a slot included. \<open>Stream_Copy\<close>: \<^verbatim>\<open>io.rs\<close>.
  \<^item> \<open>Proxy\<close>: \<^verbatim>\<open>subscribe/proxy.rs\<close>. Candidates, attempts, acquiring a connection, the session pool.
  \<^item> \<open>Http_Parts\<close>, \<open>Http_Proxy\<close>, \<open>Http_Handle\<close>: \<^verbatim>\<open>subscribe/http.rs\<close>. Header, trace, route and budget
    functions; the attempt loop; \<^verbatim>\<open>HttpProxy::handle\<close> and the table of proxies.
  \<^item> \<open>Http_Listener\<close>: \<^verbatim>\<open>subscribe/listener.rs\<close>. \<open>Proxy_Manager\<close>: \<^verbatim>\<open>subscribe/mod.rs\<close>. \<open>Subscribe_Api\<close>:
    \<^verbatim>\<open>subscribe/api.rs\<close>, filling the pools, the HTTP connector. \<open>Telemetry\<close>: \<^verbatim>\<open>telemetry.rs\<close>.
  \<^item> \<open>Pki\<close>: \<^verbatim>\<open>pki.rs\<close>. \<open>Tls\<close>: \<^verbatim>\<open>tls.rs\<close>, who a peer is. \<open>Mesh_Io\<close>: reading and writing on its
    streams and on tunnels (\<^verbatim>\<open>subscribe/proxy.rs\<close>). \<open>Cli\<close>, \<open>Cli_Laws\<close>: \<^verbatim>\<open>main.rs\<close>; the second theory has what
    commands guarantee.
  \<^item> \<open>Lifecycle\<close>: \<^verbatim>\<open>node/mod.rs\<close>, \<^verbatim>\<open>run_subscribe\<close>, the accept loops, the reverse workers, the drain in
    \<^verbatim>\<open>main.rs\<close>, and the gauges of \<^verbatim>\<open>metrics.rs\<close>.

  \<^bold>\<open>How the code is rendered.\<close> Pure functions are functions. A handler is a function from the state
  and what its peers send to the new state, what it writes and its outcome. Errors are sums whose
  left side is the message. Tasks that interleave are step relations whose events are the awaits:
  \<open>balancer_step\<close>, \<open>tracer_step\<close>, \<open>proxy_step\<close>, \<open>driver_step\<close>, \<open>life_step\<close>, \<open>tracker_step\<close>, and the gossip events of
  \<open>Gossip_Laws\<close>; their properties hold for every interleaving, by rule induction. File operations
  give every state the file system passes through, so that a crash at any moment is covered.

  \<^bold>\<open>Interfaces.\<close> Each is a locale with its laws, interpreted on the model:
  \<^item> \<open>service_catalog\<close> (lookup, put and drop of instances) by the dynamic configuration, \<open>dcat\<close>;
  \<^item> \<open>greatest_choice\<close> (any choice of a greatest running weight) by the balancer's loop, \<open>first\<close>;
  \<^item> \<open>idle_pool\<close> (last in, first out per key) by the stream pools, \<open>streams\<close>;
  \<^item> \<open>versioned_store\<close> (a delivery is adopted when its version is greater) twice, by the configuration
    (\<open>configs\<close>) and by health reports (\<open>healths\<close>);
  \<^item> \<open>codec\<close> (what was written is read back) and \<open>exact_codec\<close> (what is read is well-formed too) by every
    structure that is stored or sent, \<open>services\<close>, \<open>routes\<close>, \<open>dynamics\<close>, \<open>config_files\<close>, \<open>nodes\<close>, \<open>ops\<close> and others;
  \<^item> \<open>token_rounding\<close> (a rounding within a bound and exact on small integers) by binary64, \<open>f64\<close>.

  \<^bold>\<open>What is shown\<close>, by group:
  \<^item> Configuration: validation is equivalent to a loop-free statement; what each mutation keeps of it;
    at every moment of a save the file is the old or the complete new one.
  \<^item> Balancing: the outcome of a pick, connection limits in all interleavings, exact weighted shares,
    no overflow of the running weights.
  \<^item> Replication: daemons that heard of the same configurations agree, in whatever order and however
    often; the derived indexes follow the configuration through every event, the node table has each node
    once under its own id, valid unless a reverse registration gave it, and so does the file, every field of which is read back as it was
    written; admin requests are authorised and atomic.
  \<^item> Transport: messages of every kind round-trip, from the structure over its value and the frame
    back to the structure; a tunnel, a relay, a proxied connection and a session deliver exactly what was
    sent; copying ends; the idle timeout is exactly five minutes after a byte last moved; every request for
    a stream is answered, within a bound on the polls that can open one, or when the session ends.
  \<^item> Tunnels and proxies: when a node opens a tunnel; which nodes a client is offered to; connection
    slots never leak, through TCP and HTTP; when a request may be sent again; the retry budget; traces.
  \<^item> Telemetry and management: accepted spans are sent once, and every one is accounted for as
    exported, rejected or lost; the running proxies are the wanted ones; health reports are current.
  \<^item> Life cycle and tools: the drain counter counts exactly what is being served, open sessions not
    included, and its waiter misses no wake-up; no tunnel opens during a drain; keys are never readable
    by others; the CA survives restarts; a peer is known by the certificate it was issued; what each
    command does to the file or the cluster, and what a move of a service leaves behind when messages are lost.
  \<^item> Across components (this theory): a service added by an admin request to one daemon is listed, has
    its node as a candidate, and gets tunnels to its port, wherever the announcement has been heard.
  \<^item> Two behaviours are shown that users may not expect: a lost reply can make a move destroy the
    service, and \<^verbatim>\<open>service add\<close> replaces a configuration file it cannot read.

  \<^bold>\<open>Parameters.\<close> Crates and the outside world are arguments: \<open>http_lib\<close> (URIs and header names),
  \<open>json_lib\<close> and \<open>route_lib\<close> (configurations and routes as JSON; \<open>serde_json\<close> makes the first of
  \<open>json_text\<close>, the text of values; \<open>text_ok\<close>: a configuration's value is read back from its text, unless
  its one fraction is not), \<open>wire_lib\<close> (messages as bytes; \<open>rmp_serde\<close> makes it of \<open>rmp_lib\<close>, MessagePack; \<open>rmp_ok\<close>:
  decoding inverts encoding), \<open>stream_ops\<close> (TLS and yamux streams; \<open>byte_stream\<close>: bytes come out as they
  went in), \<open>pki_lib\<close> (\<^verbatim>\<open>rcgen\<close>, \<^verbatim>\<open>rustls_pemfile\<close>; \<open>pki_lib_ok\<close> says that PEM and key
  serialisations are read back), \<open>tls_lib\<close> (rustls, x509 parsing; \<open>tls_lib_ok\<close>: the acceptor reports the
  chain presented, and a certificate has the name it was signed for), \<open>notify_lib\<close> (tokio's wake-ups;
  \<open>notify_ok\<close>: a notification reaches every registered waiter), \<open>write_env\<close> and \<open>pki_env\<close> (which system calls fail), \<open>probe_net\<close>,
  \<open>local_net\<close>, \<open>serve_env\<close>, \<open>tunnel_env\<close>, \<open>http_env\<close>, \<open>export_env\<close>, \<open>mux_env\<close>, \<open>cli_env\<close> (what peers
  answer, in what time, and random draws). Every such hypothesis has a concrete instance.

  \<^bold>\<open>Bounds.\<close> \<open>u16\<close>, \<open>u32\<close> and \<open>u64\<close> values are words. Versions of the configuration are words, and
  theorems that need a fresh version say that it is not the greatest word. The \<open>i64\<close> running
  weights are integers, with a theorem that they fit for fewer than \<open>2 ^ 15\<close> candidates; connection
  counts are exact while fewer than \<open>2 ^ 32\<close> slots are held; the retry budget is computed in
  binary64 and its bound holds for up to \<open>2 ^ 40\<close> requests; the idle timer is exact below \<open>2 ^ 64\<close>
  milliseconds, and the in-flight counter below \<open>2 ^ 64\<close> connections. Loops are structural
  recursions or have a measure; none needs fuel.

  \<^bold>\<open>Not modelled.\<close> The tunnel adapter of \<^verbatim>\<open>subscribe/http.rs\<close> passes hyper's reads and
  writes on to the tunnel. The positional forms of structures that \<^verbatim>\<open>serde\<close> also reads are not used. The clap parser, signals, log lines, socket options and the
  installation of the metrics recorder are glue. The internals of yamux, hyper, axum, rustls and
  serde are other people's code. \<^verbatim>\<open>run_member_log\<close> only logs. Unit tests are not part of the daemon.
\<close>

section \<open>Hearing of a configuration\<close>

text \<open>
  A daemon that hears messages, each at some time, in some order. It hears of a configuration when
  one of them carries it and everything else they carry is older.
\<close>

definition carried_config :: "Message \<Rightarrow> DynamicConfig option" where
  "carried_config msg = (case msg of ConfigUpdate c \<Rightarrow> Some c | Sync c nodes \<Rightarrow> Some c | _ \<Rightarrow> None)"

definition hear :: "json_lib \<Rightarrow> SharedState \<Rightarrow> (instant \<times> Message) list \<Rightarrow> SharedState" where
  "hear json st inbox = foldl (\<lambda>st (now, msg). apply_message json now st msg) st inbox"

definition hears_of :: "DynamicConfig \<Rightarrow> SharedState \<Rightarrow> (instant \<times> Message) list \<Rightarrow> bool" where
  "hears_of dc st inbox \<longleftrightarrow>
     dc_version (ss_dynamic_config st) < dc_version dc \<and>
     (\<exists>(now, msg) \<in> set inbox. carried_config msg = Some dc) \<and>
     list_all (\<lambda>(now, msg). case carried_config msg of None \<Rightarrow> True | Some c \<Rightarrow> c = dc \<or> dc_version c < dc_version dc) inbox"

lemma hear_coherent: "coherent st \<Longrightarrow> coherent (hear json st inbox)"
  unfolding hear_def by (induction inbox arbitrary: st) (auto intro: coherent_apply)

lemma apply_message_carried:
  "ss_dynamic_config (apply_message json now st msg) =
     (case carried_config msg of None \<Rightarrow> ss_dynamic_config st
      | Some c \<Rightarrow> if dc_version c > dc_version (ss_dynamic_config st) then c else ss_dynamic_config st)"
  by (cases msg) (simp_all add: apply_message_config carried_config_def adopt_content)

lemma hear_config:
  assumes "hears_of dc st inbox"
  shows "ss_dynamic_config (hear json st inbox) = dc"
proof -
  let ?old = "\<lambda>(now, msg). case carried_config msg of None \<Rightarrow> True | Some c \<Rightarrow> c = dc \<or> dc_version c < dc_version dc"
  have stay: "list_all ?old inbox \<Longrightarrow> ss_dynamic_config st = dc \<Longrightarrow> ss_dynamic_config (hear json st inbox) = dc" for st inbox
  proof (induction inbox arbitrary: st)
    case (Cons m inbox)
    obtain now msg where m: "m = (now, msg)" by fastforce
    have "ss_dynamic_config (apply_message json now st msg) = dc"
      using Cons.prems by (auto simp: m apply_message_carried split: option.splits)
    with Cons.IH [of "apply_message json now st msg"] Cons.prems(1) show ?case by (simp add: hear_def m)
  qed (simp add: hear_def)
  show ?thesis using assms
  proof (induction inbox arbitrary: st)
    case (Cons m inbox)
    obtain now msg where m: "m = (now, msg)" by fastforce
    let ?st = "apply_message json now st msg"
    have h: "hear json st (m # inbox) = hear json ?st inbox" by (simp add: hear_def m)
    show ?case
    proof (cases "carried_config msg = Some dc")
      case True
      then show ?thesis unfolding h using Cons.prems
        by (intro stay) (auto simp: hears_of_def apply_message_carried)
    next
      case False
      then have "hears_of dc ?st inbox" using Cons.prems
        by (auto simp: hears_of_def m apply_message_carried split: option.splits)
      then show ?thesis unfolding h by (rule Cons.IH)
    qed
  qed (simp add: hears_of_def)
qed

lemma hear_shutdown: "ss_shutdown (hear json st inbox) = ss_shutdown st"
proof -
  have p: "ss_shutdown (persist_state_with json st dc) = ss_shutdown st" for st dc
    by (simp add: persist_state_with_def config_save_def split: option.splits)
  have "ss_shutdown (apply_message json now st msg) = ss_shutdown st" for now msg st
    by (cases msg) (auto simp: apply_message_def merge_sync_def Let_def adopt_config_def rebuild_service_index_def p
        persist_state_def update_known_nodes_def split: prod.splits)
  then show ?thesis unfolding hear_def by (induction inbox arbitrary: st) auto
qed

lemma hear_own_id: "own_id (hear json st inbox) = own_id st"
proof -
  have "own_id (apply_message json now st msg) = own_id st" for now msg st
    by (cases msg) (auto simp: apply_message_def merge_sync_def Let_def
        persist_state_def update_known_nodes_def own_id_def adopt_config_def split: prod.splits)
  then show ?thesis unfolding hear_def by (induction inbox arbitrary: st) auto
qed

section \<open>From an admin request to a tunnel\<close>

lemma instances_lookup:
  assumes "dc_wf dc"
  shows "(g, s) \<in> set (all_instances dc) \<longleftrightarrow> dc_lookup dc g (svc_key s) = Some s"
proof -
  have uniq: "find (\<lambda>s'. svc_key s' = svc_key s) ss = Some s \<longleftrightarrow> s \<in> set ss" if "distinct (map svc_key ss)" for ss
    using that by (induction ss) (auto simp: rev_image_eqI)
  have grp: "find (\<lambda>x. sg_name x = g) gs = Some x \<longleftrightarrow> x \<in> set gs \<and> sg_name x = g" if "distinct (map sg_name gs)" for gs x
    using that by (induction gs) (auto simp: rev_image_eqI)
  have "(g, s) \<in> set (all_instances dc) \<longleftrightarrow> (\<exists>x \<in> set (dc_service_groups dc). sg_name x = g \<and> s \<in> set (sg_services x))"
    by (auto simp: all_instances_def)
  then show ?thesis using assms
    by (auto simp: dc_lookup_def dc_wf_def group_wf_def same_instance_pred bind_eq_Some_conv grp uniq)
qed

lemma only_instance_indexed:
  assumes "dc_wf dc" "dc_lookup dc g (svc_key s) = Some s"
    "\<And>g'. g' \<noteq> g \<Longrightarrow> dc_lookup dc g' (svc_key s) = None"
  shows "hm_get (build_service_index dc) (svc_node_id s, svc_name s) = Some s"
proof -
  have s: "t = s" if t: "t \<in> set (all_services dc)" and k: "svc_key t = svc_key s" for t
  proof -
    obtain g' where "(g', t) \<in> set (all_instances dc)" using t by (auto simp: all_services_def all_instances_def)
    then have "dc_lookup dc g' (svc_key s) = Some t" using instances_lookup [OF assms(1), of g' t] k by simp
    then show ?thesis using assms(2) assms(3) [of g'] by (cases "g' = g") simp_all
  qed
  have "s \<in> set (all_services dc)"
    by (rule all_instances_services [OF iffD2 [OF instances_lookup [OF assms(1)] assms(2)]])
  then have "find (\<lambda>t. svc_key t = svc_key s) (rev (all_services dc)) \<noteq> None" by (auto simp: find_None_iff)
  then obtain t where "find (\<lambda>t. svc_key t = svc_key s) (rev (all_services dc)) = Some t" by blast
  moreover from this have "t = s" using s find_set by fastforce
  ultimately show ?thesis by (simp add: service_index_find same_instance_pred svc_key_def)
qed

lemma upsert_bumps: "upsert_service dc g s = (dc', v) \<Longrightarrow> dc_version dc' = v"
  by (auto simp: upsert_service_def Let_def split: option.splits)

lemma added_config:
  assumes "handle_admin_request json lib a cn (service_add g s) = (a', AdminOk v, msgs)"
  shows "ss_dynamic_config a' = dc_put (ss_dynamic_config a) g s" "dc_version (ss_dynamic_config a') = v"
    "msgs = broadcast_message a' (ConfigUpdate (ss_dynamic_config a'))"
proof -
  obtain dc where dc: "apply_admin_op lib (ss_dynamic_config a) (service_add g s) = Inr (dc, v)"
    and a': "ss_dynamic_config a' = dc" "msgs = broadcast_message a' (ConfigUpdate dc)"
    using assms by (auto simp: handle_admin_request_def Let_def split: if_splits sum.splits prod.splits)
  have "upsert_service (ss_dynamic_config a) g s = (dc, v)"
    using dc by (simp add: service_add_carries split: option.splits sum.splits)
  with a' show "ss_dynamic_config a' = dc_put (ss_dynamic_config a) g s" "dc_version (ss_dynamic_config a') = v"
    "msgs = broadcast_message a' (ConfigUpdate (ss_dynamic_config a'))"
    by (simp_all add: dc_put_def upsert_bumps)
qed

text \<open>
  C1. A service added through one daemon becomes reachable across the mesh. The daemon announces its
  new configuration. Once a subscriber has heard of it, among whatever older news and in whatever
  order, and wants the service, the next pass of its manager lists the service, and the node that
  hosts it is a candidate for its clients. Once that node has heard of it too, a timely tunnel request
  for the service is connected to the port it was added with.
\<close>

theorem added_service_reachable:
  assumes add: "handle_admin_request json lib a cn (service_add g s) = (a', AdminOk v, msgs)"
    and wf: "dc_wf (ss_dynamic_config a)" "\<And>g'. g' \<noteq> g \<Longrightarrow> dc_lookup (ss_dynamic_config a) g' (svc_key s) = None"
    and heard: "coherent sub" "hears_of (ss_dynamic_config a') sub inbox"
      "coherent host" "hears_of (ss_dynamic_config a') host inbox'"
    and passes: "list_all (\<lambda>(env, st). walks_all env \<and> names_plain st) passes" "walks_all env" "starts_all env"
      "names_plain (hear json sub inbox)" "wanted (hear json sub inbox) (g, s)"
    and node: "own_id host = svc_node_id s" "\<not> ss_shutdown host"
      "abs_diff now_ms timestamp_ms \<le> 30000" "net (svc_node_port s) = Inr ()"
  shows "msgs = broadcast_message a' (ConfigUpdate (ss_dynamic_config a')) \<and>
    mg_listed (manage_pass env (hear json sub inbox) (manager_after passes)) (svc_name s) \<noteq> None \<and>
    svc_node_id s \<in> bk_id ` set (service_backends (svc_name s) (hear json sub inbox)) \<and>
    snd (handle_tunnel net (hear json host inbox') now_ms (svc_node_id s) (svc_name s) timestamp_ms) =
      Connected (svc_node_port s)"
proof (intro conjI)
  let ?dc = "dc_put (ss_dynamic_config a) g s"
  note sub = hear_config [OF heard(2), of json] and host = hear_config [OF heard(4), of json]
  note dc = added_config(1) [OF add]
  have wf': "dc_wf ?dc" using wf(1) by (simp add: dc_put_def dc_wf_put)
  have here: "dc_lookup ?dc g (svc_key s) = Some s" by (simp add: dcat.lookup_put)
  have "dc_lookup ?dc g' (svc_key s) = None" if "g' \<noteq> g" for g' using that wf(2) by (simp add: dcat.lookup_put)
  note idx = only_instance_indexed [OF wf' here this]
  have "(g, s) \<in> set (all_instances ?dc)" using here instances_lookup [OF wf'] by blast
  then show "mg_listed (manage_pass env (hear json sub inbox) (manager_after passes)) (svc_name s) \<noteq> None"
    using pass_lists_wanted [OF passes(1,2,4,3)] passes(5) sub dc by auto
  show "svc_node_id s \<in> bk_id ` set (service_backends (svc_name s) (hear json sub inbox))"
    using candidates_spec [OF hear_coherent [OF heard(1)]] passes(5) idx hear_coherent [OF heard(1)] sub dc
    by (auto simp: coherent_def wanted_def)
  show "snd (handle_tunnel net (hear json host inbox') now_ms (svc_node_id s) (svc_name s) timestamp_ms) =
      Connected (svc_node_port s)"
    using node idx hear_coherent [OF heard(3)] host dc
    by (auto simp: hear_own_id hear_shutdown handle_tunnel_def refuse_if_draining_def check_skew_def MAX_SKEW_MS_def Let_def
        connect_local_service_def coherent_def not_less)
  show "msgs = broadcast_message a' (ConfigUpdate (ss_dynamic_config a'))" by (rule added_config(3) [OF add])
qed

section \<open>A concrete mesh\<close>

definition mesh_admin :: SharedState where
  "mesh_admin = sample_state\<lparr>ss_config := (ss_config sample_state)\<lparr>cfg_admin_cns := [''ops'']\<rparr>, ss_bootstrap_peers := [''10.0.0.9:80'']\<rparr>"

definition mesh_subscriber :: SharedState where
  "mesh_subscriber = sample_state\<lparr>ss_config := (ss_config sample_state)\<lparr>cfg_mode := Subscribe, cfg_node_id := ''s1''\<rparr>\<rparr>"

definition mesh_added :: "SharedState \<times> AdminResult \<times> (string \<times> Message) list" where
  "mesh_added = handle_admin_request sample_json lib0 mesh_admin (Some ''ops'') (service_add ''web'' (sample_service ''shop'' ''n1''))"

definition mesh_inbox :: "(instant \<times> Message) list" where
  "mesh_inbox = [(0, NodeJoin ''n1'' ''10.0.0.1:80''), (1, ConfigUpdate (ss_dynamic_config (fst mesh_added))), (2, ConfigUpdate sample_dc)]"

lemma mesh_added_eq:
  "handle_admin_request sample_json lib0 mesh_admin (Some ''ops'') (service_add ''web'' (sample_service ''shop'' ''n1'')) =
     (fst mesh_added, AdminOk 8, snd (snd mesh_added))"
  unfolding mesh_added_def by (simp add: handle_admin_request_def admin_allowed_def mesh_admin_def service_add_carries sample_service_def sample_state_def new_state_def sample_config_def sample_dc_def upsert_service_def Let_def bump_version_def default_config_def)

lemma mesh_config:
  "ss_dynamic_config (fst mesh_added) = dc_put sample_dc ''web'' (sample_service ''shop'' ''n1'')"
  "dc_version (dc_put sample_dc ''web'' (sample_service ''shop'' ''n1'')) = 8"
  using added_config(1,2) [OF mesh_added_eq] by (simp_all add: mesh_admin_def)

lemma mesh_hears: "ss_dynamic_config st = sample_dc \<Longrightarrow> hears_of (ss_dynamic_config (fst mesh_added)) st mesh_inbox"
  by (simp add: hears_of_def mesh_inbox_def carried_config_def mesh_config sample_version)

lemma mesh_wanted: "wanted (hear sample_json mesh_subscriber mesh_inbox) (''web'', sample_service ''shop'' ''n1'')"
  by (simp add: wanted_def hear_def mesh_inbox_def mesh_config apply_message_def skip_service_def sample_version adopt_config_def
      mesh_subscriber_def sample_state_def new_state_def sample_config_def default_config_def is_valid_node_id_def
      update_known_nodes_def join_node_def persist_state_def sample_service_def)

lemma mesh_plain: "names_plain (hear sample_json mesh_subscriber mesh_inbox)"
proof -
  have "ss_dynamic_config (hear sample_json mesh_subscriber mesh_inbox) = dc_put sample_dc ''web'' (sample_service ''shop'' ''n1'')"
    using hear_config [OF mesh_hears] by (simp add: mesh_config mesh_subscriber_def)
  then show ?thesis
    by (simp add: names_plain_def all_services_def dc_put_def upsert_service_def sample_dc_def put_service_def
        sample_service_def slash_free_def same_instance_def)
qed

theorem added_service_reachable_witness:
  "mg_listed (manage_pass sample_manage (hear sample_json mesh_subscriber mesh_inbox) (manager_after [])) ''shop'' \<noteq> None \<and>
   ''n1'' \<in> bk_id ` set (service_backends ''shop'' (hear sample_json mesh_subscriber mesh_inbox)) \<and>
   snd (handle_tunnel (\<lambda>_. Inr ()) (hear sample_json sample_state mesh_inbox) 100 ''n1'' ''shop'' 100) = Connected 3000"
proof -
  let ?s = "sample_service ''shop'' ''n1''"
  have wf: "dc_wf (ss_dynamic_config mesh_admin)"
    by (simp add: mesh_admin_def dc_wf_def group_wf_def sample_dc_def svc_key_def sample_service_def)
  have other: "dc_lookup (ss_dynamic_config mesh_admin) g' (svc_key ?s) = None" if "g' \<noteq> ''web''" for g'
    using that by (simp add: mesh_admin_def dc_lookup_def sample_dc_def)
  have c: "coherent mesh_subscriber"
    using coherent_sample_state by (simp add: mesh_subscriber_def coherent_def nodes_ok_def)
  note r = added_service_reachable [OF mesh_added_eq wf other c mesh_hears coherent_sample_state mesh_hears _ sample_manage_ok
      mesh_plain mesh_wanted, of "[]" 100 100 "\<lambda>_. Inr ()"]
  have "\<not> ss_shutdown sample_state" by (simp add: sample_state_def new_state_def)
  then show ?thesis using r by (simp add: mesh_subscriber_def sample_service_def abs_diff_def)
qed

end
